(* ===== verification/LW_Prelude.thy ===== *)
theory LW_Prelude
  imports Main "HOL-Library.Word" "HOL-Library.AList" "HOL-Library.List_Lexorder"
begin

text \<open>
  Shared vocabulary of the development: the machine integer types of the code, the model
  of \<open>std::unordered_map\<close> as an association list with distinct keys together with its
  interface as a locale, big-endian conversion between words and bytes, and generic facts
  on sorting by key and on signed 32-bit arithmetic.
\<close>

unbundle bit_operations_syntax

section \<open>Machine integers and byte strings\<close>

type_synonym u8 = "8 word"
type_synonym u16 = "16 word"
type_synonym u32 = "32 word"
type_synonym u64 = "64 word"
type_synonym i32 = "32 word" \<comment> \<open>read with \<open>sint\<close>\<close>
type_synonym bytes = "u8 list" \<comment> \<open>\<open>std::string\<close> as the code uses it: raw bytes\<close>

named_theorems wire_simps
named_theorems inv_intros

lemma sint_add_i32:
  fixes a b :: i32
  assumes "- (2 ^ 31) \<le> sint a + sint b" and "sint a + sint b < 2 ^ 31"
  shows "sint (a + b) = sint a + sint b"
  using assms by (simp add: sint_word_ariths signed_take_bit_int_eq_self)

lemma sint_diff_i32:
  fixes a b :: i32
  assumes "- (2 ^ 31) \<le> sint a - sint b" and "sint a - sint b < 2 ^ 31"
  shows "sint (a - b) = sint a - sint b"
  using assms by (simp add: sint_word_ariths signed_take_bit_int_eq_self)

lemma sint_i32_bounds:
  fixes a :: i32
  shows "- (2 ^ 31) \<le> sint a" and "sint a < 2 ^ 31"
  using sint_ge [of a] sint_lt [of a] by simp_all

section \<open>Big-endian words\<close>

definition be_read :: "bytes \<Rightarrow> 'a::len word" where
  "be_read bs = foldl (\<lambda>acc b. push_bit 8 acc OR ucast b) 0 bs"

definition be_write :: "nat \<Rightarrow> 'a::len word \<Rightarrow> bytes" where
  "be_write n v = map (\<lambda>i. ucast (drop_bit (8 * i) v)) (rev [0..<n])"

lemma length_be_write [simp]: "length (be_write n v) = n"
  by (simp add: be_write_def)

lemma be_read_Nil [simp]: "be_read [] = 0"
  by (simp add: be_read_def)

lemma be_read_snoc: "be_read (bs @ [b]) = push_bit 8 (be_read bs) OR ucast b"
  by (simp add: be_read_def)

lemma bit_be_read:
  "bit (be_read bs :: 'a::len word) j \<longleftrightarrow>
     j < LENGTH('a) \<and> j < 8 * length bs \<and> bit (rev bs ! (j div 8)) (j mod 8)"
proof (induction bs arbitrary: j rule: rev_induct)
  case Nil
  show ?case by simp
next
  case (snoc b bs)
  show ?case
  proof (cases "j < 8")
    case True
    then show ?thesis
      by (auto simp: be_read_snoc bit_simps)
  next
    case False
    have nb: "\<not> bit b j" using False by (auto dest: bit_imp_le_length)
    have d: "j div 8 = Suc ((j - 8) div 8)" and m: "j mod 8 = (j - 8) mod 8"
      using False by (simp_all add: div_if mod_if)
    show ?thesis using False nb
      by (auto simp: be_read_snoc bit_simps snoc.IH d m)
  qed
qed

lemma be_write_rev_nth: "i < n \<Longrightarrow> rev (be_write n v) ! i = ucast (drop_bit (8 * i) v)"
  by (simp add: be_write_def rev_map)

lemma be_read_write [simp]:
  fixes v :: "'a::len word"
  assumes "LENGTH('a) = 8 * n"
  shows "be_read (be_write n v) = v"
proof (rule bit_word_eqI)
  fix j assume j: "j < LENGTH('a)"
  then have "j div 8 < n" using assms by simp
  with j assms show "bit (be_read (be_write n v) :: 'a word) j = bit v j"
    by (simp add: bit_be_read be_write_rev_nth bit_simps)
qed

lemma be_write_read:
  fixes bs :: bytes
  assumes "length bs = n" and "LENGTH('a::len) = 8 * n"
  shows "be_write n (be_read bs :: 'a word) = bs"
proof -
  have "rev (be_write n (be_read bs :: 'a word)) = rev bs"
  proof (rule nth_equalityI)
    show "length (rev (be_write n (be_read bs :: 'a word))) = length (rev bs)"
      using assms by simp
  next
    fix i assume "i < length (rev (be_write n (be_read bs :: 'a word)))"
    then have i: "i < n" by simp
    show "rev (be_write n (be_read bs :: 'a word)) ! i = rev bs ! i"
    proof (rule bit_word_eqI)
      fix j assume j: "j < LENGTH(8)"
      then have "(8 * i + j) div 8 = i" "(8 * i + j) mod 8 = j" by simp_all
      moreover have "8 * i + j < 8 * n" using i j by simp
      ultimately show "bit (rev (be_write n (be_read bs :: 'a word)) ! i) j = bit (rev bs ! i) j"
        using i j assms by (simp add: be_write_rev_nth bit_simps bit_be_read)
    qed
  qed
  then show ?thesis by simp
qed

section \<open>\<open>std::unordered_map\<close>\<close>

text \<open>
  A map is the list of its entries in iteration order, one per key. The order in which the
  C++ container visits its buckets is unspecified; the model appends new keys at the end,
  and no property below depends on that choice: results that the code sorts are sorted here,
  and results it leaves in bucket order are only characterised as sets or by their length.
\<close>

type_synonym ('k, 'v) umap = "('k \<times> 'v) list"

definition um_find :: "'k \<Rightarrow> ('k, 'v) umap \<Rightarrow> 'v option" where
  "um_find k m = map_of m k"

definition um_contains :: "'k \<Rightarrow> ('k, 'v) umap \<Rightarrow> bool" where
  "um_contains k m = (um_find k m \<noteq> None)"

definition um_emplace :: "'k \<Rightarrow> 'v \<Rightarrow> ('k, 'v) umap \<Rightarrow> ('k, 'v) umap" where
  "um_emplace k v m = (if um_find k m = None then m @ [(k, v)] else m)"

definition um_assign :: "'k \<Rightarrow> 'v \<Rightarrow> ('k, 'v) umap \<Rightarrow> ('k, 'v) umap" where
  "um_assign k v m = AList.update k v m"

definition um_erase :: "'k \<Rightarrow> ('k, 'v) umap \<Rightarrow> ('k, 'v) umap" where
  "um_erase k m = AList.delete k m"

definition um_wf :: "('k, 'v) umap \<Rightarrow> bool" where
  "um_wf m = distinct (map fst m)"

locale unordered_map =
  fixes empty :: "'m"
    and find :: "'k \<Rightarrow> 'm \<Rightarrow> 'v option"
    and emplace :: "'k \<Rightarrow> 'v \<Rightarrow> 'm \<Rightarrow> 'm"
    and assign :: "'k \<Rightarrow> 'v \<Rightarrow> 'm \<Rightarrow> 'm"
    and erase :: "'k \<Rightarrow> 'm \<Rightarrow> 'm"
    and entries :: "'m \<Rightarrow> ('k \<times> 'v) list"
    and invar :: "'m \<Rightarrow> bool"
  assumes find_empty: "find k empty = None"
    and find_emplace: "invar m \<Longrightarrow>
      find k' (emplace k v m) = (if k' = k \<and> find k m = None then Some v else find k' m)"
    and find_assign: "invar m \<Longrightarrow> find k' (assign k v m) = (if k' = k then Some v else find k' m)"
    and find_erase: "invar m \<Longrightarrow> find k' (erase k m) = (if k' = k then None else find k' m)"
    and entries_find: "invar m \<Longrightarrow> (k, v) \<in> set (entries m) \<longleftrightarrow> find k m = Some v"
    and entries_distinct: "invar m \<Longrightarrow> distinct (map fst (entries m))"
    and invar_empty: "invar empty"
    and invar_emplace: "invar m \<Longrightarrow> invar (emplace k v m)"
    and invar_assign: "invar m \<Longrightarrow> invar (assign k v m)"
    and invar_erase: "invar m \<Longrightarrow> invar (erase k m)"
begin

lemma key_entry: "invar m \<Longrightarrow> k \<in> fst ` set (entries m) \<longleftrightarrow> (\<exists>v. find k m = Some v)"
  by (simp add: entries_find [symmetric] image_iff) force

lemma keys_find: "invar m \<Longrightarrow> set (map fst (entries m)) = {k. find k m \<noteq> None}"
  by (simp add: set_eq_iff key_entry)

lemma finite_keys: "invar m \<Longrightarrow> finite {k. find k m \<noteq> None}"
  using keys_find [of m] by (metis List.finite_set)

lemma size_card: "invar m \<Longrightarrow> length (entries m) = card {k. find k m \<noteq> None}"
  using entries_distinct [of m] keys_find [of m] by (metis distinct_card length_map)

lemma size_emplace:
  assumes "invar m"
  shows "length (entries (emplace k v m)) =
    (if find k m = None then Suc (length (entries m)) else length (entries m))"
proof -
  have "{k'. find k' (emplace k v m) \<noteq> None} =
      (if find k m = None then insert k {k. find k m \<noteq> None} else {k. find k m \<noteq> None})"
    using assms by (auto simp: find_emplace)
  then show ?thesis
    using assms finite_keys [OF assms] by (auto simp: size_card invar_emplace)
qed

lemma size_assign:
  assumes "invar m" and "find k m \<noteq> None"
  shows "length (entries (assign k v m)) = length (entries m)"
proof -
  have "{k'. find k' (assign k v m) \<noteq> None} = {k'. find k' m \<noteq> None}"
    using assms by (auto simp: find_assign)
  then show ?thesis using assms by (simp add: size_card invar_assign)
qed

lemma size_erase_le: "invar m \<Longrightarrow> length (entries (erase k m)) \<le> length (entries m)"
  unfolding size_card size_card [OF invar_erase]
  by (rule card_mono) (use finite_keys [of m] in \<open>auto simp: find_erase\<close>)

lemma values_find: "invar m \<Longrightarrow> v \<in> set (map snd (entries m)) \<longleftrightarrow> (\<exists>k. find k m = Some v)"
  by (simp add: entries_find [symmetric] image_iff) force

lemma empty_keys: "invar m \<Longrightarrow> entries m = [] \<longleftrightarrow> (\<forall>k. find k m = None)"
  using keys_find [of m] by auto

end

lemma um_find_Nil [simp]: "um_find k [] = None"
  by (simp add: um_find_def)

lemma um_find_emplace [simp]:
  "um_find k' (um_emplace k v m) = (if k' = k \<and> um_find k m = None then Some v else um_find k' m)"
  by (auto simp: um_find_def um_emplace_def map_add_def split: option.splits)

lemma um_find_assign [simp]:
  "um_find k' (um_assign k v m) = (if k' = k then Some v else um_find k' m)"
  by (simp add: um_find_def um_assign_def AList.update_conv')

lemma um_find_erase [simp]:
  "um_find k' (um_erase k m) = (if k' = k then None else um_find k' m)"
  by (simp add: um_find_def um_erase_def AList.delete_conv')

lemma um_wf_Nil [simp, intro!]: "um_wf []"
  by (simp add: um_wf_def)

lemma um_wf_emplace [simp, intro]: "um_wf m \<Longrightarrow> um_wf (um_emplace k v m)"
  by (auto simp: um_wf_def um_emplace_def um_find_def map_of_eq_None_iff)

lemma um_wf_assign [simp, intro]: "um_wf m \<Longrightarrow> um_wf (um_assign k v m)"
  by (simp add: um_wf_def um_assign_def AList.distinct_update)

lemma um_wf_erase [simp, intro]: "um_wf m \<Longrightarrow> um_wf (um_erase k m)"
  by (simp add: um_wf_def um_erase_def AList.distinct_delete)

lemma um_entries_find: "um_wf m \<Longrightarrow> (k, v) \<in> set m \<longleftrightarrow> um_find k m = Some v"
  by (simp add: um_wf_def um_find_def)

interpretation um: unordered_map "[]" um_find um_emplace um_assign um_erase "\<lambda>m. m" um_wf
  by unfold_locales (auto simp: um_entries_find, simp_all add: um_wf_def)

lemma um_find_in_set: "um_find k m = Some v \<Longrightarrow> (k, v) \<in> set m"
  by (simp add: um_find_def map_of_SomeD)

lemma um_find_None_iff: "um_find k m = None \<longleftrightarrow> k \<notin> fst ` set m"
  by (simp add: um_find_def map_of_eq_None_iff)

lemma um_contains_iff: "um_contains k m \<longleftrightarrow> k \<in> fst ` set m"
  using um_find_None_iff [of k m] by (auto simp: um_contains_def)

section \<open>Sorting by key\<close>

text \<open>
  The code sorts vectors of records whose keys are pairwise distinct, so the result does not
  depend on the sorting algorithm nor on the order of the input.
\<close>

lemma sort_key_set_unique:
  assumes "distinct (map f xs)" and "distinct (map f ys)" and "set xs = set ys"
  shows "sort_key f xs = sort_key f ys"
proof (rule map_sorted_distinct_set_unique [of f])
  show "inj_on f (set (sort_key f xs) \<union> set (sort_key f ys))"
    using assms by (simp add: distinct_map)
  show "distinct (map f (sort_key f xs))" "distinct (map f (sort_key f ys))"
    using assms by (simp_all add: distinct_map)
qed (use assms in simp_all)

lemma sort_key_sorted_id: "sorted (map f xs) \<Longrightarrow> sort_key f xs = xs"
  by (rule sort_key_id_if_sorted)

lemma distinct_map_sort_key [simp]: "distinct (map f (sort_key g xs)) = distinct (map f xs)"
  by (simp add: distinct_map)

text \<open>
  Building a map from a list of records with distinct keys, entry by entry, gives the list
  of pairs itself: the loops of the restore operations.
\<close>

lemma um_find_fold_emplace:
  assumes "distinct (map f xs)"
  shows "um_find k (map (\<lambda>x. (f x, g x)) xs) = Some v \<longleftrightarrow> (\<exists>x\<in>set xs. f x = k \<and> g x = v)"
proof -
  have "um_wf (map (\<lambda>x. (f x, g x)) xs)"
    using assms by (simp add: um_wf_def comp_def)
  then show ?thesis
    by (subst um_entries_find [symmetric]) auto
qed

section \<open>State machines and invariants\<close>

text \<open>
  The shape shared by every component with a step relation: a property of the start state
  that every step keeps holds in every reachable state.
\<close>

inductive reach :: "('s \<Rightarrow> bool) \<Rightarrow> ('s \<Rightarrow> 's \<Rightarrow> bool) \<Rightarrow> 's \<Rightarrow> bool"
  for init :: "'s \<Rightarrow> bool" and step :: "'s \<Rightarrow> 's \<Rightarrow> bool" where
  reach_init: "init s \<Longrightarrow> reach init step s"
| reach_step: "reach init step s \<Longrightarrow> step s t \<Longrightarrow> reach init step t"

locale invariant_system =
  fixes init :: "'s \<Rightarrow> bool"
    and step :: "'s \<Rightarrow> 's \<Rightarrow> bool"
    and inv :: "'s \<Rightarrow> bool"
  assumes inv_init: "init s \<Longrightarrow> inv s"
    and inv_step: "inv s \<Longrightarrow> step s t \<Longrightarrow> inv t"
begin

lemma reach_inv: "reach init step s \<Longrightarrow> inv s"
  by (induction rule: reach.induct) (auto intro: inv_init inv_step)

lemma steps_inv: "inv s \<Longrightarrow> step\<^sup>*\<^sup>* s t \<Longrightarrow> inv t"
  by (rotate_tac 1, induction rule: rtranclp_induct) (auto intro: inv_step)

lemma reach_monotone:
  fixes m :: "'s \<Rightarrow> 'o::preorder"
  assumes "\<And>s t. inv s \<Longrightarrow> step s t \<Longrightarrow> m s \<le> m t"
    and "step\<^sup>*\<^sup>* s t" and "inv s"
  shows "m s \<le> m t"
  using assms(2) assms(3)
proof (induction rule: rtranclp_induct)
  case base
  show ?case by simp
next
  case (step u v)
  have "inv u" using step.prems step.hyps(1) by (rule steps_inv)
  then have "m u \<le> m v" using step.hyps(2) by (rule assms(1))
  with step.IH [OF step.prems] show ?case by (rule order_trans)
qed

end

section \<open>Tables of objects\<close>

text \<open>
  A manager keeps its objects in a map under their own ids and changes them in place through
  their operations. If every operation keeps the object's invariant and id, every change keeps
  the table consistent.
\<close>

locale object_table =
  fixes inv :: "'o \<Rightarrow> bool"
    and ident :: "'o \<Rightarrow> 'k"
    and step :: "'o \<Rightarrow> 'o \<Rightarrow> bool"
  assumes step_inv: "inv x \<Longrightarrow> step x y \<Longrightarrow> inv y"
    and step_ident: "step x y \<Longrightarrow> ident y = ident x"
begin

definition table_inv :: "('k, 'o) umap \<Rightarrow> bool" where
  "table_inv m \<longleftrightarrow> um_wf m \<and> (\<forall>k x. um_find k m = Some x \<longrightarrow> inv x \<and> ident x = k)"

lemma table_empty: "table_inv []"
  by (simp add: table_inv_def)

lemma table_find: "table_inv m \<Longrightarrow> um_find k m = Some x \<Longrightarrow> inv x \<and> ident x = k"
  by (simp add: table_inv_def)

lemma table_entry: "table_inv m \<Longrightarrow> (k, x) \<in> set m \<Longrightarrow> inv x \<and> ident x = k"
  by (simp add: table_inv_def um_entries_find)

lemma table_update:
  "table_inv m \<Longrightarrow> um_find k m = Some x \<Longrightarrow> step x y \<Longrightarrow> table_inv (um_assign k y m)"
  by (auto simp: table_inv_def step_ident intro: step_inv)

lemma table_add:
  "table_inv m \<Longrightarrow> inv x \<Longrightarrow> ident x = k \<Longrightarrow> table_inv (um_assign k x m)"
  by (auto simp: table_inv_def)

lemma table_emplace:
  "table_inv m \<Longrightarrow> inv x \<Longrightarrow> ident x = k \<Longrightarrow> table_inv (um_emplace k x m)"
  by (auto simp: table_inv_def)

lemma table_erase: "table_inv m \<Longrightarrow> table_inv (um_erase k m)"
  by (auto simp: table_inv_def split: if_splits)

text \<open>A pass over all objects, each one kept or stepped.\<close>

lemma table_pass:
  assumes "table_inv m" and "\<And>k x. (k, x) \<in> set m \<Longrightarrow> f x = x \<or> step x (f x)"
  shows "table_inv (map (\<lambda>(k, x). (k, f x)) m)"
proof -
  let ?m = "map (\<lambda>(k, x). (k, f x)) m"
  have wf: "um_wf m" using assms(1) by (simp add: table_inv_def)
  then have wf': "um_wf ?m" by (simp add: um_wf_def comp_def split_beta cong: map_cong)
  have "inv y \<and> ident y = k" if e: "(k, y) \<in> set ?m" for k y
  proof -
    obtain x where x: "(k, x) \<in> set m" and y: "y = f x" using e by auto
    show ?thesis using assms(2) [OF x] table_entry [OF assms(1) x] step_inv step_ident y by metis
  qed
  then show ?thesis using wf' unfolding table_inv_def by (blast dest: um_find_in_set)
qed

end

lemma um_find_map: "um_find k (map (\<lambda>(k, x). (k, f x)) m) = map_option f (um_find k m)"
  by (induction m) (auto simp: um_find_def)

end
