(* ===== verification/Byte_Buffer.thy ===== *)
theory Byte_Buffer
  imports LW_Prelude
begin

text \<open>
  \<open>Buffer\<close> (\<open>src/buffer.cpp\<close>): a growable array with a read and a write position, used
  as the read and write buffer of a connection. The abstract view is a queue of bytes
  (\<open>content\<close>); the locale \<open>byte_queue\<close> is what its clients, the frame codec and the
  connection, rely on. Positions and sizes are \<open>nat\<close>: they never exceed the size of the
  underlying vector, and the invariant keeps every subtraction of the code non-negative.
\<close>

record Buffer =
  buffer_data :: bytes
  read_pos :: nat
  write_pos :: nat

definition Buffer_new :: "nat \<Rightarrow> Buffer" where
  "Buffer_new initial_size = \<lparr>buffer_data = replicate initial_size 0, read_pos = 0, write_pos = 0\<rparr>"

definition readable_bytes :: "Buffer \<Rightarrow> nat" where
  "readable_bytes b = write_pos b - read_pos b"

definition writeable_bytes :: "Buffer \<Rightarrow> nat" where
  "writeable_bytes b = length (buffer_data b) - write_pos b"

definition prependable_bytes :: "Buffer \<Rightarrow> nat" where
  "prependable_bytes b = read_pos b"

definition buffer_empty :: "Buffer \<Rightarrow> bool" where
  "buffer_empty b \<longleftrightarrow> read_pos b = write_pos b"

text \<open>The pointer \<open>peek()\<close> is modelled by the bytes it points to, up to the end of the vector.\<close>

definition peek :: "Buffer \<Rightarrow> bytes" where
  "peek b = drop (read_pos b) (buffer_data b)"

definition retrieve_all :: "Buffer \<Rightarrow> Buffer" where
  "retrieve_all b = b\<lparr>read_pos := 0, write_pos := 0\<rparr>"

text \<open>\<open>retrieve\<close> begins with an assertion; a failed assertion is the result \<open>None\<close>.\<close>

definition retrieve :: "nat \<Rightarrow> Buffer \<Rightarrow> Buffer option" where
  "retrieve len b =
     (if \<not> len \<le> readable_bytes b then None
      else if len < readable_bytes b then Some (b\<lparr>read_pos := read_pos b + len\<rparr>)
      else Some (retrieve_all b))"

definition retrieve_all_as_string :: "Buffer \<Rightarrow> bytes \<times> Buffer" where
  "retrieve_all_as_string b = (take (readable_bytes b) (peek b), retrieve_all b)"

text \<open>\<open>std::vector::resize\<close>: shorten, or extend with zero bytes.\<close>

definition vector_resize :: "nat \<Rightarrow> bytes \<Rightarrow> bytes" where
  "vector_resize n d = take n d @ replicate (n - length d) 0"

text \<open>\<open>std::copy\<close> of a block to position \<open>pos\<close> of the vector.\<close>

definition copy_to :: "nat \<Rightarrow> bytes \<Rightarrow> bytes \<Rightarrow> bytes" where
  "copy_to pos src d = take pos d @ src @ drop (pos + length src) d"

definition make_space :: "nat \<Rightarrow> Buffer \<Rightarrow> Buffer" where
  "make_space len b =
     (if writeable_bytes b + prependable_bytes b < len
      then b\<lparr>buffer_data := vector_resize (write_pos b + len) (buffer_data b)\<rparr>
      else let readable = readable_bytes b in
        b\<lparr>buffer_data := copy_to 0 (take readable (drop (read_pos b) (buffer_data b))) (buffer_data b),
          read_pos := 0, write_pos := readable\<rparr>)"

definition ensure_writable_bytes :: "nat \<Rightarrow> Buffer \<Rightarrow> Buffer" where
  "ensure_writable_bytes len b = (if writeable_bytes b \<ge> len then b else make_space len b)"

definition buffer_append :: "bytes \<Rightarrow> Buffer \<Rightarrow> Buffer" where
  "buffer_append src b =
     (let b' = ensure_writable_bytes (length src) b in
      b'\<lparr>buffer_data := copy_to (write_pos b') src (buffer_data b'),
         write_pos := write_pos b' + length src\<rparr>)"

section \<open>Invariant and abstraction\<close>

definition buffer_wf :: "Buffer \<Rightarrow> bool" where
  "buffer_wf b \<longleftrightarrow> read_pos b \<le> write_pos b \<and> write_pos b \<le> length (buffer_data b)"

definition content :: "Buffer \<Rightarrow> bytes" where
  "content b = take (readable_bytes b) (peek b)"

lemmas buffer_defs = readable_bytes_def writeable_bytes_def prependable_bytes_def peek_def
  retrieve_all_def retrieve_def buffer_wf_def content_def

lemma buffer_wf_new [simp]: "buffer_wf (Buffer_new n)"
  and content_new [simp]: "content (Buffer_new n) = []"
  by (simp_all add: Buffer_new_def buffer_defs)

lemma length_content [simp]: "buffer_wf b \<Longrightarrow> length (content b) = readable_bytes b"
  by (auto simp: buffer_defs)

lemma buffer_empty_content: "buffer_wf b \<Longrightarrow> buffer_empty b \<longleftrightarrow> content b = []"
  by (auto simp: buffer_defs buffer_empty_def)

lemma retrieve_Some: "len \<le> readable_bytes b \<Longrightarrow> \<exists>b'. retrieve len b = Some b'"
  by (simp add: retrieve_def)

lemma retrieve_wf: "buffer_wf b \<Longrightarrow> retrieve len b = Some b' \<Longrightarrow> buffer_wf b'"
  by (auto simp: buffer_defs split: if_splits)

lemma retrieve_content: "buffer_wf b \<Longrightarrow> retrieve len b = Some b' \<Longrightarrow> content b' = drop len (content b)"
  by (auto simp: buffer_defs drop_take add.commute split: if_splits)

lemma make_space_wf: "buffer_wf b \<Longrightarrow> buffer_wf (make_space len b)"
  by (auto simp: make_space_def buffer_defs vector_resize_def copy_to_def Let_def)

lemma make_space_content: "buffer_wf b \<Longrightarrow> content (make_space len b) = content b"
  by (auto simp: make_space_def buffer_defs vector_resize_def copy_to_def Let_def take_drop min_def)

lemma make_space_room: "buffer_wf b \<Longrightarrow> writeable_bytes b < len \<Longrightarrow> len \<le> writeable_bytes (make_space len b)"
  by (auto simp: make_space_def buffer_defs vector_resize_def copy_to_def Let_def)

lemma ensure_writable:
  assumes "buffer_wf b"
  shows "buffer_wf (ensure_writable_bytes len b)"
    and "content (ensure_writable_bytes len b) = content b"
    and "len \<le> writeable_bytes (ensure_writable_bytes len b)"
  using assms make_space_wf [OF assms] make_space_content [OF assms] make_space_room [OF assms]
  by (auto simp: ensure_writable_bytes_def)

lemma append_in_room:
  assumes "buffer_wf b" and "length src \<le> writeable_bytes b"
  shows "buffer_wf (b\<lparr>buffer_data := copy_to (write_pos b) src (buffer_data b),
                      write_pos := write_pos b + length src\<rparr>)"
    and "content (b\<lparr>buffer_data := copy_to (write_pos b) src (buffer_data b),
                    write_pos := write_pos b + length src\<rparr>) = content b @ src"
proof -
  have rw: "read_pos b \<le> write_pos b" "write_pos b + length src \<le> length (buffer_data b)"
    using assms by (auto simp: buffer_defs)
  let ?b = "b\<lparr>buffer_data := copy_to (write_pos b) src (buffer_data b),
               write_pos := write_pos b + length src\<rparr>"
  show "buffer_wf ?b"
    using rw by (simp add: buffer_wf_def copy_to_def)
  have n: "write_pos b + length src - read_pos b = (write_pos b - read_pos b) + length src"
    using rw by simp
  have len: "length (take (write_pos b - read_pos b) (drop (read_pos b) (buffer_data b)))
      = write_pos b - read_pos b"
    using rw by simp
  have "peek ?b = take (write_pos b - read_pos b) (drop (read_pos b) (buffer_data b)) @ src @
      drop (write_pos b + length src) (buffer_data b)"
    using rw by (simp add: peek_def copy_to_def drop_take)
  then show "content ?b = content b @ src"
    using len by (simp add: content_def readable_bytes_def n peek_def del: length_take)
qed

lemma append_wf: "buffer_wf b \<Longrightarrow> buffer_wf (buffer_append src b)"
  using append_in_room(1) [OF ensure_writable(1) ensure_writable(3)]
  by (simp add: buffer_append_def Let_def)

lemma append_content: "buffer_wf b \<Longrightarrow> content (buffer_append src b) = content b @ src"
  using append_in_room(2) [OF ensure_writable(1) ensure_writable(3)]
  by (simp add: buffer_append_def Let_def ensure_writable(2))

lemma retrieve_all_wf: "buffer_wf (retrieve_all b)"
  and retrieve_all_content: "content (retrieve_all b) = []"
  by (simp_all add: buffer_defs)

section \<open>The interface of the buffer\<close>

locale byte_queue =
  fixes new :: "'q"
    and abs :: "'q \<Rightarrow> bytes"
    and size_of :: "'q \<Rightarrow> nat"
    and front :: "'q \<Rightarrow> bytes"
    and put :: "bytes \<Rightarrow> 'q \<Rightarrow> 'q"
    and consume :: "nat \<Rightarrow> 'q \<Rightarrow> 'q option"
    and clear :: "'q \<Rightarrow> 'q"
    and wf :: "'q \<Rightarrow> bool"
  assumes new_wf: "wf new" and new_abs: "abs new = []"
    and size_abs: "wf q \<Longrightarrow> size_of q = length (abs q)"
    and front_abs: "wf q \<Longrightarrow> take (size_of q) (front q) = abs q"
    and put_wf: "wf q \<Longrightarrow> wf (put d q)"
    and put_abs: "wf q \<Longrightarrow> abs (put d q) = abs q @ d"
    and consume_defined: "wf q \<Longrightarrow> consume n q = None \<longleftrightarrow> size_of q < n"
    and consume_wf: "wf q \<Longrightarrow> consume n q = Some q' \<Longrightarrow> wf q'"
    and consume_abs: "wf q \<Longrightarrow> consume n q = Some q' \<Longrightarrow> abs q' = drop n (abs q)"
    and clear_wf: "wf q \<Longrightarrow> wf (clear q)"
    and clear_abs: "wf q \<Longrightarrow> abs (clear q) = []"
begin

text \<open>Reading \<open>n\<close> bytes at offset \<open>k\<close> from the front pointer stays inside the queue.\<close>

lemma front_slice:
  assumes "wf q" and "k + n \<le> size_of q"
  shows "take n (drop k (front q)) = take n (drop k (abs q))"
proof -
  have "take n (drop k (abs q)) = take n (drop k (take (size_of q) (front q)))"
    using assms(1) by (simp add: front_abs)
  also have "\<dots> = take n (drop k (front q))"
    using assms(2) by (simp add: drop_take min_def)
  finally show ?thesis by simp
qed

lemma consume_front:
  assumes "wf q" and "abs q = a @ r"
  obtains q' where "consume (length a) q = Some q'" and "wf q'" and "abs q' = r"
proof -
  have "\<not> size_of q < length a"
    using assms by (simp add: size_abs)
  then obtain q' where q': "consume (length a) q = Some q'"
    using consume_defined [OF assms(1), of "length a"] by auto
  with assms show ?thesis
    by (intro that [of q']) (simp_all add: consume_wf consume_abs)
qed

lemma consume_put:
  assumes "wf q" and "consume n q = Some q'"
  shows "\<exists>q''. consume n (put d q) = Some q'' \<and> wf q'' \<and> abs q'' = abs (put d q')"
proof -
  have le: "n \<le> length (abs q)"
    using assms consume_defined [of q n] by (simp add: size_abs)
  then have split: "abs (put d q) = take n (abs q) @ (drop n (abs q) @ d)"
    using assms by (simp add: put_abs)
  obtain q'' where "consume (length (take n (abs q))) (put d q) = Some q''" "wf q''"
      "abs q'' = drop n (abs q) @ d"
    using consume_front [OF put_wf [OF assms(1)] split] by blast
  with le assms show ?thesis
    by (simp add: put_abs consume_abs consume_wf)
qed

text \<open>A whole sequence of appends is one append of the concatenation.\<close>

lemma put_all:
  assumes "wf q"
  shows "wf (fold put ds q) \<and> abs (fold put ds q) = abs q @ concat ds"
  using assms by (induction ds arbitrary: q) (simp_all add: put_wf put_abs)

end

interpretation bq: byte_queue "Buffer_new n" content readable_bytes peek buffer_append retrieve
  retrieve_all buffer_wf for n
proof (unfold_locales, goal_cases)
  case (7 q m)
  then show ?case by (auto simp: retrieve_def)
qed (auto simp: append_wf append_content retrieve_wf retrieve_content retrieve_all_wf
    retrieve_all_content content_def [symmetric])

section \<open>Any use of a buffer\<close>

datatype buffer_op = Append bytes | Retrieve nat | RetrieveAll | EnsureWritable nat

fun exec_buffer :: "buffer_op \<Rightarrow> Buffer \<Rightarrow> Buffer option" where
  "exec_buffer (Append d) b = Some (buffer_append d b)"
| "exec_buffer (Retrieve n) b = retrieve n b"
| "exec_buffer RetrieveAll b = Some (retrieve_all b)"
| "exec_buffer (EnsureWritable n) b = Some (ensure_writable_bytes n b)"

text \<open>The queue of bytes a buffer stands for.\<close>

fun exec_queue :: "buffer_op \<Rightarrow> bytes \<Rightarrow> bytes option" where
  "exec_queue (Append d) q = Some (q @ d)"
| "exec_queue (Retrieve n) q = (if length q < n then None else Some (drop n q))"
| "exec_queue RetrieveAll q = Some []"
| "exec_queue (EnsureWritable n) q = Some q"

fun run_ops :: "('o \<Rightarrow> 's \<Rightarrow> 's option) \<Rightarrow> 'o list \<Rightarrow> 's \<Rightarrow> 's option" where
  "run_ops f [] s = Some s"
| "run_ops f (x # xs) s = (case f x s of None \<Rightarrow> None | Some s' \<Rightarrow> run_ops f xs s')"

lemma exec_buffer_refines:
  assumes "buffer_wf b"
  shows "map_option content (exec_buffer x b) = exec_queue x (content b) \<and>
    (\<forall>b'. exec_buffer x b = Some b' \<longrightarrow> buffer_wf b')"
proof (cases x)
  case (Retrieve n)
  show ?thesis
  proof (cases "retrieve n b")
    case None
    then show ?thesis using Retrieve assms bq.consume_defined [OF assms, of n] by simp
  next
    case (Some b')
    then show ?thesis
      using Retrieve assms bq.consume_defined [OF assms, of n]
      by (simp add: retrieve_content [OF assms] retrieve_wf [OF assms])
  qed
qed (use assms in \<open>simp_all add: append_wf append_content retrieve_all_wf retrieve_all_content ensure_writable\<close>)

lemma run_buffer_refines:
  assumes "buffer_wf b"
  shows "map_option content (run_ops exec_buffer xs b) = run_ops exec_queue xs (content b) \<and>
    (\<forall>b'. run_ops exec_buffer xs b = Some b' \<longrightarrow> buffer_wf b')"
  using assms
proof (induction xs arbitrary: b)
  case (Cons x xs)
  show ?case
  proof (cases "exec_buffer x b")
    case None
    then show ?thesis using exec_buffer_refines [OF Cons.prems, of x] by (simp flip: map_option_is_None)
  next
    case (Some b')
    then show ?thesis using exec_buffer_refines [OF Cons.prems, of x] Cons.IH [of b']
      by (auto split: option.split)
  qed
qed simp

text \<open>C32: a buffer used in any way is a queue of bytes. Whatever appends, retrievals and
  reservations are made, in any order and of any size, on a fresh buffer of any initial size,
  the readable bytes are what a plain byte queue would hold, an assertion fails exactly when
  more is retrieved than is readable, and the positions stay inside the vector (so the next
  block of any size finds room without overwriting readable bytes).\<close>

theorem buffer_is_a_byte_queue:
  "map_option content (run_ops exec_buffer ops (Buffer_new n)) = run_ops exec_queue ops [] \<and>
   (\<forall>b. run_ops exec_buffer ops (Buffer_new n) = Some b \<longrightarrow>
      read_pos b \<le> write_pos b \<and> write_pos b \<le> length (buffer_data b) \<and>
      readable_bytes b = length (content b) \<and>
      len \<le> writeable_bytes (ensure_writable_bytes len b) \<and>
      fst (retrieve_all_as_string b) = content b)"
proof -
  note r = run_buffer_refines [OF buffer_wf_new, of ops n]
  have "fst (retrieve_all_as_string b) = content b" for b
    by (simp add: retrieve_all_as_string_def content_def)
  then have "read_pos b \<le> write_pos b \<and> write_pos b \<le> length (buffer_data b) \<and>
      readable_bytes b = length (content b) \<and> len \<le> writeable_bytes (ensure_writable_bytes len b) \<and>
      fst (retrieve_all_as_string b) = content b" if "buffer_wf b" for b
    using that ensure_writable(3) [OF that, of len] bq.size_abs [OF that] by (simp add: buffer_wf_def)
  with r show ?thesis by simp
qed

theorem buffer_is_a_byte_queue_witness:
  "map_option content (run_ops exec_buffer [Append [1, 2, 3], Retrieve 2, Append [4]] (Buffer_new 2)) = Some [3, 4]"
  using buffer_is_a_byte_queue [of "[Append [1, 2, 3], Retrieve 2, Append [4]]" 2] by simp

end
