(* ===== verification/Frame_Codec.thy ===== *)
theory Frame_Codec
  imports Byte_Buffer
begin

text \<open>
  \<open>Codec\<close> (\<open>src/codec.cpp\<close>): length-prefixed frames. \<open>Codec_encode\<close> builds one
  frame, \<open>decode_loop\<close> is the splitting loop over a \<open>Buffer\<close>. The specification is a
  function on byte lists (\<open>next_frame\<close>, \<open>run_frames\<close>); the loop refines it, and the
  specification is insensitive to how the stream is cut into reads.
\<close>

definition LENGTH_FIELD_SIZE :: nat where "LENGTH_FIELD_SIZE = 4"
definition TYPE_FIELD_SIZE :: nat where "TYPE_FIELD_SIZE = 2"
definition MIN_FRAME_LENGTH :: nat where "MIN_FRAME_LENGTH = 2"
definition MAX_FRAME_LENGTH :: nat where "MAX_FRAME_LENGTH = 64 * 1024"

lemmas frame_sizes = LENGTH_FIELD_SIZE_def TYPE_FIELD_SIZE_def MIN_FRAME_LENGTH_def MAX_FRAME_LENGTH_def

text \<open>\<open>encode\<close> returns false, with an empty frame, when the payload is too long: \<open>None\<close>.\<close>

definition Codec_encode :: "u16 \<Rightarrow> bytes \<Rightarrow> bytes option" where
  "Codec_encode type payload =
     (if length payload > MAX_FRAME_LENGTH - TYPE_FIELD_SIZE then None
      else let frame_length = (of_nat (TYPE_FIELD_SIZE + length payload) :: u32)
        in Some (be_write 4 frame_length @ be_write 2 type @ payload))"

text \<open>
  The callback gets a state \<open>'s\<close>, everything the \<open>std::function\<close> may change, and says
  whether to go on. The result is \<open>None\<close> only if an assertion of the buffer fails.
\<close>

function decode_loop ::
  "(u16 \<Rightarrow> bytes \<Rightarrow> 's \<Rightarrow> bool \<times> 's) \<Rightarrow> Buffer \<Rightarrow> 's \<Rightarrow> (bool \<times> Buffer \<times> 's) option" where
  "decode_loop callback buffer s =
     (if readable_bytes buffer < LENGTH_FIELD_SIZE then Some (True, buffer, s)
      else let frame_len = unat (be_read (take 4 (peek buffer)) :: u32) in
        if frame_len < MIN_FRAME_LENGTH \<or> frame_len > MAX_FRAME_LENGTH then Some (False, buffer, s)
        else if readable_bytes buffer < frame_len + LENGTH_FIELD_SIZE then Some (True, buffer, s)
        else let net_type = be_read (take 2 (drop LENGTH_FIELD_SIZE (peek buffer)));
                 net_payload = take (frame_len - TYPE_FIELD_SIZE)
                   (drop (LENGTH_FIELD_SIZE + TYPE_FIELD_SIZE) (peek buffer))
          in case retrieve (frame_len + LENGTH_FIELD_SIZE) buffer of
               None \<Rightarrow> None
             | Some buffer' \<Rightarrow>
                 (case callback net_type net_payload s of
                    (False, s') \<Rightarrow> Some (False, buffer', s')
                  | (True, s') \<Rightarrow> decode_loop callback buffer' s'))"
  by pat_completeness auto
termination
proof (relation "measure (\<lambda>(cb, b, s). readable_bytes b)", goal_cases)
  case 1
  show ?case by simp
next
  case (2 callback buffer s frame_len net_type net_payload buffer' ok s')
  then show ?case
    by (auto simp: retrieve_def retrieve_all_def readable_bytes_def frame_sizes split: if_splits)
qed

declare decode_loop.simps [simp del]

definition Codec_decode ::
  "(u16 \<Rightarrow> bytes \<Rightarrow> 's \<Rightarrow> bool \<times> 's) option \<Rightarrow> Buffer \<Rightarrow> 's \<Rightarrow> (bool \<times> Buffer \<times> 's) option" where
  "Codec_decode callback buffer s =
     (case callback of None \<Rightarrow> Some (False, buffer, s) | Some cb \<Rightarrow> decode_loop cb buffer s)"

section \<open>Specification on byte lists\<close>

datatype split = Incomplete | Illegal | Frame u16 bytes bytes

definition next_frame :: "bytes \<Rightarrow> split" where
  "next_frame bs =
     (if length bs < 4 then Incomplete
      else let n = unat (be_read (take 4 bs) :: u32) in
        if n < 2 \<or> n > 65536 then Illegal
        else if length bs < n + 4 then Incomplete
        else Frame (be_read (take 2 (drop 4 bs))) (take (n - 2) (drop 6 bs)) (drop (n + 4) bs))"

lemma next_frame_shorter: "next_frame bs = Frame t p r \<Longrightarrow> length r < length bs"
  by (auto simp: next_frame_def Let_def split: if_splits)

function run_frames ::
  "(u16 \<Rightarrow> bytes \<Rightarrow> 's \<Rightarrow> bool \<times> 's) \<Rightarrow> bytes \<Rightarrow> 's \<Rightarrow> bool \<times> bytes \<times> 's" where
  "run_frames cb bs s =
     (case next_frame bs of
        Incomplete \<Rightarrow> (True, bs, s)
      | Illegal \<Rightarrow> (False, bs, s)
      | Frame t p r \<Rightarrow>
          (case cb t p s of (False, s') \<Rightarrow> (False, r, s') | (True, s') \<Rightarrow> run_frames cb r s'))"
  by pat_completeness auto
termination
  by (relation "measure (\<lambda>(cb, bs, s). length bs)") (auto dest: next_frame_shorter)

declare run_frames.simps [simp del]

lemma next_frame_append:
  "next_frame x = Frame t p r \<Longrightarrow> next_frame (x @ y) = Frame t p (r @ y)"
  "next_frame x = Illegal \<Longrightarrow> next_frame (x @ y) = Illegal"
  by (auto simp: next_frame_def Let_def split: if_splits)

lemma run_frames_append:
  "run_frames cb (x @ y) s =
     (case run_frames cb x s of
        (True, r, s') \<Rightarrow> run_frames cb (r @ y) s'
      | (False, r, s') \<Rightarrow> (False, r @ y, s'))"
proof (induction cb x s rule: run_frames.induct)
  case (1 cb x s)
  show ?case
  proof (cases "next_frame x")
    case Incomplete
    then show ?thesis by (simp add: run_frames.simps [of cb x s])
  next
    case Illegal
    then show ?thesis
      by (simp add: run_frames.simps [of cb x s] run_frames.simps [of cb "x @ y" s] next_frame_append)
  next
    case (Frame t p r)
    obtain ok s' where cb: "cb t p s = (ok, s')" by fastforce
    show ?thesis
      using Frame cb 1 [OF Frame cb [symmetric]]
      by (cases ok)
        (simp_all add: run_frames.simps [of cb x s] run_frames.simps [of cb "x @ y" s] next_frame_append)
  qed
qed

lemma next_frame_encode:
  assumes "Codec_encode t p = Some e"
  shows "next_frame (e @ r) = Frame t p r"
proof -
  have len: "length p \<le> 65534"
    and e: "e = be_write 4 (of_nat (2 + length p) :: u32) @ be_write 2 t @ p"
    using assms by (auto simp: Codec_encode_def frame_sizes Let_def split: if_splits)
  have n: "unat (of_nat (2 + length p) :: u32) = 2 + length p"
    using len by (simp only: unat_of_nat) (simp add: take_bit_eq_mod)
  have "be_read (take 4 (e @ r)) = (of_nat (2 + length p) :: u32)"
    using be_read_write [of 4 "of_nat (2 + length p) :: u32"] by (simp add: e)
  moreover have "be_read (take 2 (drop 4 (e @ r))) = t"
    using be_read_write [of 2 t] by (simp add: e)
  ultimately show ?thesis
    using len by (simp only: next_frame_def Let_def n) (simp add: e)
qed

lemma next_frame_Nil: "next_frame [] = Incomplete"
  by (simp add: next_frame_def)

section \<open>The loop refines the specification\<close>

lemma decode_loop_refines:
  assumes "buffer_wf b"
  shows "\<exists>ok b' s'. decode_loop cb b s = Some (ok, b', s') \<and> buffer_wf b' \<and>
           run_frames cb (content b) s = (ok, content b', s')"
  using assms
proof (induction cb b s rule: decode_loop.induct)
  case (1 cb b s)
  note wf = "1.prems"
  let ?n = "unat (be_read (take 4 (peek b)) :: u32)"
  have len: "length (content b) = readable_bytes b" using wf by simp
  show ?case
  proof (cases "readable_bytes b < 4")
    case True
    then show ?thesis using wf len
      by (auto simp: decode_loop.simps [of cb b s] run_frames.simps [of cb "content b" s]
          next_frame_def frame_sizes)
  next
    case ge4: False
    have n: "unat (be_read (take 4 (content b)) :: u32) = ?n"
      using bq.front_slice [OF wf, of 0 4] ge4 by simp
    show ?thesis
    proof (cases "?n < 2 \<or> ?n > 65536 \<or> readable_bytes b < ?n + 4")
      case True
      then show ?thesis using wf len ge4 n
        by (auto simp: decode_loop.simps [of cb b s] run_frames.simps [of cb "content b" s]
            next_frame_def frame_sizes Let_def)
    next
      case False
      obtain b' where b': "retrieve (?n + 4) b = Some b'"
        using retrieve_Some [of "?n + 4" b] False by auto
      have wf': "buffer_wf b'" and c': "content b' = drop (?n + 4) (content b)"
        using retrieve_wf [OF wf b'] retrieve_content [OF wf b'] by simp_all
      let ?t = "be_read (take 2 (drop 4 (peek b))) :: u16"
      let ?p = "take (?n - 2) (drop 6 (peek b))"
      have nf: "next_frame (content b) = Frame ?t ?p (content b')"
        using bq.front_slice [OF wf, of 4 2] bq.front_slice [OF wf, of 6 "?n - 2"] False len ge4 n c'
        by (simp add: next_frame_def Let_def)
      obtain ok s' where cb: "cb ?t ?p s = (ok, s')" by fastforce
      have IH: "ok \<Longrightarrow> \<exists>ok b'' s''. decode_loop cb b' s' = Some (ok, b'', s'') \<and> buffer_wf b'' \<and>
           run_frames cb (content b') s' = (ok, content b'', s'')"
        using "1.IH" [OF _ refl _ _ refl refl, of b' ok s'] ge4 False b' cb wf'
        by (simp add: frame_sizes)
      have step: "decode_loop cb b s = (if ok then decode_loop cb b' s' else Some (False, b', s'))"
        using ge4 False b' cb
        by (simp add: decode_loop.simps [of cb b s] frame_sizes Let_def split: bool.splits)
      show ?thesis
        using IH wf' step nf cb
        by (cases ok) (auto simp: run_frames.simps [of cb "content b" s])
    qed
  qed
qed

section \<open>Reading a stream in chunks\<close>

text \<open>
  The receiving loop: each chunk read from the socket is appended to the read buffer and the
  buffer is decoded; the first decode that reports failure ends the connection.
\<close>

fun feed :: "(u16 \<Rightarrow> bytes \<Rightarrow> 's \<Rightarrow> bool \<times> 's) \<Rightarrow> bytes list \<Rightarrow> Buffer \<Rightarrow> 's \<Rightarrow> (bool \<times> Buffer \<times> 's) option" where
  "feed cb [] b s = Some (True, b, s)"
| "feed cb (c # cs) b s =
     (case Codec_decode (Some cb) (buffer_append c b) s of
        None \<Rightarrow> None
      | Some (False, b', s') \<Rightarrow> Some (False, b', s')
      | Some (True, b', s') \<Rightarrow> feed cb cs b' s')"

definition settled :: "Buffer \<Rightarrow> bool" where
  "settled b \<longleftrightarrow> buffer_wf b \<and> next_frame (content b) = Incomplete"

lemma run_frames_settles:
  "run_frames cb x s = (True, r, s') \<Longrightarrow> next_frame r = Incomplete"
proof (induction cb x s rule: run_frames.induct)
  case (1 cb x s)
  from "1.prems" show ?case
    by (subst (asm) run_frames.simps)
      (auto split: split.splits prod.splits bool.splits dest: "1.IH")
qed

lemma run_frames_incomplete: "next_frame x = Incomplete \<Longrightarrow> run_frames cb x s = (True, x, s)"
  by (simp add: run_frames.simps)

lemma feed_run_frames:
  assumes "settled b"
  shows "\<exists>ok b' s'. feed cb cs b s = Some (ok, b', s') \<and> buffer_wf b' \<and>
           fst (run_frames cb (content b @ concat cs) s) = ok \<and>
           snd (snd (run_frames cb (content b @ concat cs) s)) = s' \<and>
           (ok \<longrightarrow> settled b' \<and> run_frames cb (content b @ concat cs) s = (True, content b', s'))"
  using assms
proof (induction cs arbitrary: b s)
  case Nil
  then show ?case by (auto simp: settled_def run_frames_incomplete)
next
  case (Cons c cs)
  have wf: "buffer_wf (buffer_append c b)" "content (buffer_append c b) = content b @ c"
    using Cons.prems by (simp_all add: settled_def append_wf append_content)
  obtain ok b' s' where d: "decode_loop cb (buffer_append c b) s = Some (ok, b', s')"
      "buffer_wf b'" "run_frames cb (content b @ c) s = (ok, content b', s')"
    using decode_loop_refines [OF wf(1), of cb s] wf(2) by auto
  have split: "run_frames cb (content b @ concat (c # cs)) s =
      (if ok then run_frames cb (content b' @ concat cs) s' else (False, content b' @ concat cs, s'))"
    using run_frames_append [of cb "content b @ c" "concat cs" s] d(3) by simp
  show ?case
  proof (cases ok)
    case True
    then have "settled b'" using d by (auto simp: settled_def dest: run_frames_settles)
    from Cons.IH [OF this, of s'] show ?thesis
      using True d split by (simp add: Codec_decode_def)
  next
    case False
    then show ?thesis using d split by (auto simp: Codec_decode_def)
  qed
qed

lemma settled_new [simp]: "settled (Buffer_new n)"
  by (simp add: settled_def next_frame_Nil)

definition collect :: "u16 \<Rightarrow> bytes \<Rightarrow> (u16 \<times> bytes) list \<Rightarrow> bool \<times> (u16 \<times> bytes) list" where
  "collect t p acc = (True, acc @ [(t, p)])"

lemma run_frames_encoded:
  assumes "map (\<lambda>(t, p). Codec_encode t p) fs = map Some es"
  shows "run_frames collect (concat es) acc = (True, [], acc @ fs)"
  using assms
proof (induction fs arbitrary: es acc)
  case Nil
  then show ?case by (simp add: run_frames_incomplete next_frame_Nil)
next
  case (Cons f fs)
  then obtain e es' where es: "es = e # es'" by (cases es) auto
  obtain t p where f: "f = (t, p)" by (cases f)
  have "next_frame (e @ concat es') = Frame t p (concat es')"
    using Cons.prems by (intro next_frame_encode) (simp add: es f)
  then show ?case
    using Cons.prems Cons.IH [of es' "acc @ [f]"]
    by (simp add: run_frames.simps [of _ "e @ concat es'"] collect_def es f)
qed

section \<open>Properties\<close>

text \<open>C24: frames survive the network. Encode any list of messages whose payloads fit, put the
  frames on a byte stream, and let it arrive cut into any chunks: decoding each chunk as it
  arrives, from a fresh buffer of any size, hands the callback exactly those messages in
  order, reports no error, fails no assertion and leaves the buffer empty. Encoding fails
  exactly on payloads longer than 65534 bytes.\<close>

theorem frames_survive_any_segmentation:
  assumes "map (\<lambda>(t, p). Codec_encode t p) fs = map Some es" and "concat chunks = concat es"
  shows "(\<exists>b. feed collect chunks (Buffer_new n) [] = Some (True, b, fs) \<and> buffer_empty b) \<and>
    (Codec_encode t p = None \<longleftrightarrow> 65534 < length p)"
proof -
  have "run_frames collect (concat chunks) [] = (True, [], fs)"
    using run_frames_encoded [OF assms(1), of "[]"] assms(2) by simp
  then have "\<exists>b. feed collect chunks (Buffer_new n) [] = Some (True, b, fs) \<and> buffer_empty b"
    using feed_run_frames [of "Buffer_new n" collect chunks "[]"]
    by (auto simp: buffer_empty_content)
  moreover have "Codec_encode t p = None \<longleftrightarrow> 65534 < length p"
    by (simp add: Codec_encode_def frame_sizes Let_def)
  ultimately show ?thesis by simp
qed

theorem frames_survive_any_segmentation_witness:
  "\<exists>b. feed collect [[0, 0], [0, 3, 0, 6, 9]] (Buffer_new 1) [] = Some (True, b, [(6, [9])]) \<and> buffer_empty b"
proof (rule frames_survive_any_segmentation [THEN conjunct1])
  show "map (\<lambda>(t, p). Codec_encode t p) [(6, [9])] = map Some [[0, 0, 0, 3, 0, 6, 9]]"
    by code_simp
qed simp

text \<open>C25: what a connection does with the bytes it receives does not depend on how they were
  cut: for any callback, any bytes (well-formed or not) and any two ways of cutting them, the
  decoder hands over the same messages in the same order, ends with the same verdict and the
  same state, and never fails an assertion of the buffer.\<close>

theorem decoding_ignores_segmentation:
  assumes "concat cs = concat cs'"
  shows "\<exists>ok b b' s'. feed cb cs (Buffer_new n) s = Some (ok, b, s') \<and>
    feed cb cs' (Buffer_new n') s = Some (ok, b', s') \<and> (ok \<longrightarrow> content b = content b')"
proof -
  obtain ok b s' where f: "feed cb cs (Buffer_new n) s = Some (ok, b, s')"
      "fst (run_frames cb (concat cs) s) = ok" "snd (snd (run_frames cb (concat cs) s)) = s'"
      "ok \<longrightarrow> run_frames cb (concat cs) s = (True, content b, s')"
    using feed_run_frames [of "Buffer_new n" cb cs s] by auto
  obtain ok' b' s'' where f': "feed cb cs' (Buffer_new n') s = Some (ok', b', s'')"
      "fst (run_frames cb (concat cs') s) = ok'" "snd (snd (run_frames cb (concat cs') s)) = s''"
      "ok' \<longrightarrow> run_frames cb (concat cs') s = (True, content b', s'')"
    using feed_run_frames [of "Buffer_new n'" cb cs' s] by auto
  show ?thesis using f f' assms by auto
qed

theorem decoding_ignores_segmentation_witness:
  "\<exists>ok b b' s'. feed collect [[0, 0, 0, 9], [7]] (Buffer_new 4) [] = Some (ok, b, s') \<and>
    feed collect [[0], [0, 0, 9, 7]] (Buffer_new 8) [] = Some (ok, b', s') \<and> (ok \<longrightarrow> content b = content b')"
  by (rule decoding_ignores_segmentation) simp

text \<open>C31: an announced frame length outside 2 .. 65536 ends the decoding with failure as soon
  as the four length bytes are there, consuming nothing and calling no callback; a frame that
  is not complete yet is left untouched; so the buffer of a connection never has to hold more
  than one maximal frame before a message or an error comes out.\<close>

theorem decoder_bounds_what_it_waits_for:
  assumes "buffer_wf b"
  shows "\<exists>ok b' s'. Codec_decode (Some cb) b s = Some (ok, b', s') \<and>
    (4 \<le> readable_bytes b \<and> unat (be_read (take 4 (content b)) :: u32) \<notin> {2..65536} \<longrightarrow>
       \<not> ok \<and> b' = b \<and> s' = s) \<and>
    (ok \<longrightarrow> readable_bytes b' < 65536 + 4)"
proof -
  obtain ok b' s' where d: "decode_loop cb b s = Some (ok, b', s')" "buffer_wf b'"
      "run_frames cb (content b) s = (ok, content b', s')"
    using decode_loop_refines [OF assms, of cb s] by auto
  have "b' = b \<and> s' = s \<and> \<not> ok"
    if "4 \<le> readable_bytes b" "unat (be_read (take 4 (content b)) :: u32) \<notin> {2..65536}"
    using d(1) that bq.front_slice [OF assms, of 0 4]
    by (auto simp: decode_loop.simps [of cb b s] frame_sizes Let_def)
  moreover have "readable_bytes b' < 65536 + 4" if ok
  proof -
    have "next_frame (content b') = Incomplete"
      using d(3) that by (auto dest: run_frames_settles)
    then show ?thesis using d(2)
      by (auto simp: next_frame_def Let_def length_content [symmetric] simp del: length_content split: if_splits)
  qed
  ultimately show ?thesis using d(1) by (auto simp: Codec_decode_def)
qed

theorem decoder_bounds_what_it_waits_for_witness:
  "\<exists>ok b' s'. Codec_decode (Some collect) (buffer_append [0, 0, 0, 1] (Buffer_new 4)) [] = Some (ok, b', s') \<and>
     (ok \<longrightarrow> readable_bytes b' < 65536 + 4)"
  using decoder_bounds_what_it_waits_for [OF append_wf [OF buffer_wf_new], of collect "[0, 0, 0, 1]" 4 "[]"] by blast

end
