(* ===== verification/Game_State.thy ===== *)
theory Game_State
  imports LW_Prelude
begin

text \<open>
  \<open>Gamestate\<close> (\<open>src/game_state.cpp\<close>): the authoritative state of a running room, a map
  from player ids to position and hit points. Coordinates and hit points are 32-bit words
  read with \<open>sint\<close>; the specification is a board over unbounded integers, and the
  refinement lemmas show that no signed operation of the code overflows.
\<close>

record PlayerGameState =
  pgs_player_id :: u64
  pgs_x :: i32
  pgs_y :: i32
  pgs_hp :: i32

datatype GameStates =
    gs_success | gs_empty_players | gs_invalid_player_id | gs_duplicate_player
  | gs_too_many_players | gs_player_not_found | gs_invalid_move | gs_out_of_bounds
  | gs_invalid_target | gs_attacker_not_found | gs_target_not_found | gs_attacker_dead
  | gs_target_dead | gs_target_out_of_range

record Attackresult =
  ar_state :: GameStates
  ar_attacker_id :: u64
  ar_target_player_id :: u64
  ar_remaining_hp :: i32
  ar_target_eliminated :: bool

type_synonym Gamestate = "(u64, PlayerGameState) umap"

definition INITIAL_HP :: i32 where "INITIAL_HP = 100"
definition MIN_POSITION :: i32 where "MIN_POSITION = 0"
definition MAX_POSITION :: i32 where "MAX_POSITION = 100"
definition ATTACK_DAMAGE :: i32 where "ATTACK_DAMAGE = 10"
definition MAX_PLAYERS :: nat where "MAX_PLAYERS = 101"

lemmas game_constants = INITIAL_HP_def MIN_POSITION_def MAX_POSITION_def ATTACK_DAMAGE_def MAX_PLAYERS_def

section \<open>Operations\<close>

definition Gamestate_new :: Gamestate where
  "Gamestate_new = []"

definition player_count :: "Gamestate \<Rightarrow> nat" where
  "player_count g = length g"

definition gs_contains :: "u64 \<Rightarrow> Gamestate \<Rightarrow> bool" where
  "gs_contains player_id g = um_contains player_id g"

text \<open>The validation loop of \<open>initialize\<close>: the first offending id decides the error.\<close>

fun check_player_ids :: "u64 list \<Rightarrow> (u64, bool) umap \<Rightarrow> GameStates option" where
  "check_player_ids [] check = None"
| "check_player_ids (i # ids) check =
     (if i = 0 then Some gs_invalid_player_id
      else if um_find i check \<noteq> None then Some gs_duplicate_player
      else check_player_ids ids (um_emplace i True check))"

fun place_players :: "u64 list \<Rightarrow> nat \<Rightarrow> Gamestate \<Rightarrow> Gamestate" where
  "place_players [] location g = g"
| "place_players (i # ids) location g =
     place_players ids (Suc location)
       (um_assign i \<lparr>pgs_player_id = i, pgs_x = of_nat location, pgs_y = 0, pgs_hp = INITIAL_HP\<rparr> g)"

definition initialize :: "u64 list \<Rightarrow> Gamestate \<Rightarrow> GameStates \<times> Gamestate" where
  "initialize player_ids g =
     (if player_ids = [] then (gs_empty_players, g)
      else if length player_ids > MAX_PLAYERS then (gs_too_many_players, g)
      else case check_player_ids player_ids [] of
        Some err \<Rightarrow> (err, g)
      | None \<Rightarrow> (gs_success, place_players (sort player_ids) 0 []))"

definition remove_player :: "u64 \<Rightarrow> Gamestate \<Rightarrow> GameStates \<times> Gamestate" where
  "remove_player player_id g =
     (if player_id = 0 then (gs_invalid_player_id, g)
      else if um_find player_id g = None then (gs_player_not_found, g)
      else (gs_success, um_erase player_id g))"

definition out_of_board :: "i32 \<Rightarrow> bool" where
  "out_of_board v \<longleftrightarrow> sint v < sint MIN_POSITION \<or> sint v > sint MAX_POSITION"

definition move_player :: "u64 \<Rightarrow> i32 \<Rightarrow> i32 \<Rightarrow> Gamestate \<Rightarrow> GameStates \<times> Gamestate" where
  "move_player player_id dx dy g =
     (if player_id = 0 then (gs_invalid_player_id, g)
      else case um_find player_id g of
        None \<Rightarrow> (gs_player_not_found, g)
      | Some p \<Rightarrow>
          let valid_x_move = ((dx = 1 \<or> dx = - 1) \<and> dy = 0);
              valid_y_move = ((dy = 1 \<or> dy = - 1) \<and> dx = 0) in
          if \<not> valid_x_move \<and> \<not> valid_y_move then (gs_invalid_move, g)
          else let new_x = pgs_x p + dx; new_y = pgs_y p + dy in
            if out_of_board new_x \<or> out_of_board new_y then (gs_out_of_bounds, g)
            else (gs_success, um_assign player_id (p\<lparr>pgs_x := new_x, pgs_y := new_y\<rparr>) g))"

definition player_state :: "u64 \<Rightarrow> Gamestate \<Rightarrow> PlayerGameState option" where
  "player_state player_id g = um_find player_id g"

definition snapshot :: "Gamestate \<Rightarrow> PlayerGameState list" where
  "snapshot g = sort_key pgs_player_id (map snd g)"

fun restore_loop :: "PlayerGameState list \<Rightarrow> Gamestate \<Rightarrow> Gamestate option" where
  "restore_loop [] temp_players = Some temp_players"
| "restore_loop (s # states) temp_players =
     (if pgs_player_id s = 0 then None
      else if um_find (pgs_player_id s) temp_players \<noteq> None then None
      else if out_of_board (pgs_x s) \<or> out_of_board (pgs_y s) then None
      else if sint (pgs_hp s) < 0 \<or> sint (pgs_hp s) > sint INITIAL_HP then None
      else restore_loop states (um_emplace (pgs_player_id s) s temp_players))"

definition gs_restore :: "PlayerGameState list \<Rightarrow> Gamestate \<Rightarrow> bool \<times> Gamestate" where
  "gs_restore states g =
     (if length states > MAX_PLAYERS then (False, g)
      else case restore_loop states [] of
        None \<Rightarrow> (False, g)
      | Some temp_players \<Rightarrow> (True, temp_players))"

definition abs_i32 :: "i32 \<Rightarrow> i32" where
  "abs_i32 v = (if sint v < 0 then - v else v)"

definition attack_player :: "u64 \<Rightarrow> u64 \<Rightarrow> Gamestate \<Rightarrow> Attackresult \<times> Gamestate" where
  "attack_player attacker_id target_player_id g =
     (let result = \<lparr>ar_state = gs_success, ar_attacker_id = attacker_id,
            ar_target_player_id = target_player_id, ar_remaining_hp = 0, ar_target_eliminated = False\<rparr> in
      if attacker_id = 0 \<or> target_player_id = 0 then (result\<lparr>ar_state := gs_invalid_player_id\<rparr>, g)
      else if attacker_id = target_player_id then (result\<lparr>ar_state := gs_invalid_target\<rparr>, g)
      else case um_find attacker_id g of
        None \<Rightarrow> (result\<lparr>ar_state := gs_attacker_not_found\<rparr>, g)
      | Some attacker \<Rightarrow>
        (case um_find target_player_id g of
          None \<Rightarrow> (result\<lparr>ar_state := gs_target_not_found\<rparr>, g)
        | Some target \<Rightarrow>
          if sint (pgs_hp attacker) \<le> 0 then (result\<lparr>ar_state := gs_attacker_dead\<rparr>, g)
          else if sint (pgs_hp target) \<le> 0 then (result\<lparr>ar_state := gs_target_dead\<rparr>, g)
          else let distance = abs_i32 (pgs_x attacker - pgs_x target) + abs_i32 (pgs_y attacker - pgs_y target) in
            if sint distance > 1 then (result\<lparr>ar_state := gs_target_out_of_range\<rparr>, g)
            else let hp = pgs_hp target - ATTACK_DAMAGE in
              (result\<lparr>ar_remaining_hp := hp, ar_target_eliminated := (sint hp \<le> 0)\<rparr>,
               um_assign target_player_id (target\<lparr>pgs_hp := hp\<rparr>) g)))"

section \<open>Invariant\<close>

definition player_ok :: "u64 \<Rightarrow> PlayerGameState \<Rightarrow> bool" where
  "player_ok k p \<longleftrightarrow> pgs_player_id p = k \<and> k \<noteq> 0 \<and>
     0 \<le> sint (pgs_x p) \<and> sint (pgs_x p) \<le> 100 \<and> 0 \<le> sint (pgs_y p) \<and> sint (pgs_y p) \<le> 100 \<and>
     - 10 < sint (pgs_hp p) \<and> sint (pgs_hp p) \<le> 100"

definition gs_inv :: "Gamestate \<Rightarrow> bool" where
  "gs_inv g \<longleftrightarrow> um_wf g \<and> length g \<le> 101 \<and> (\<forall>k p. um_find k g = Some p \<longrightarrow> player_ok k p)"

text \<open>The hit points of a game that was started, not restored, are multiples of ten.\<close>

definition hp_tens :: "Gamestate \<Rightarrow> bool" where
  "hp_tens g \<longleftrightarrow> (\<forall>k p. um_find k g = Some p \<longrightarrow> 0 \<le> sint (pgs_hp p) \<and> sint (pgs_hp p) mod 10 = 0)"

lemma out_of_board_iff: "out_of_board v \<longleftrightarrow> sint v < 0 \<or> 100 < sint v"
  by (simp add: out_of_board_def game_constants)

lemma check_player_ids_None:
  "check_player_ids ids c = None \<longleftrightarrow>
     0 \<notin> set ids \<and> distinct ids \<and> (\<forall>i\<in>set ids. um_find i c = None)"
  by (induction ids c rule: check_player_ids.induct) auto

lemma place_players_find:
  "distinct ids \<Longrightarrow> um_find k (place_players ids n g) =
     (if k \<in> set ids
      then Some \<lparr>pgs_player_id = k, pgs_x = of_nat (n + length (takeWhile (\<lambda>i. i \<noteq> k) ids)),
                 pgs_y = 0, pgs_hp = INITIAL_HP\<rparr>
      else um_find k g)"
  by (induction ids n g rule: place_players.induct) auto

lemma place_players_wf: "um_wf g \<Longrightarrow> um_wf (place_players ids n g)"
  by (induction ids n g rule: place_players.induct) auto

lemma place_players_keys:
  "distinct ids \<Longrightarrow> {k. um_find k (place_players ids n []) \<noteq> None} = set ids"
  by (auto simp: place_players_find)

lemma length_place_players: "distinct ids \<Longrightarrow> length (place_players ids n []) = length ids"
  by (simp only: um.size_card [OF place_players_wf [OF um_wf_Nil]] place_players_keys distinct_card)

lemma takeWhile_index: "k \<in> set ids \<Longrightarrow> length (takeWhile (\<lambda>i. i \<noteq> k) ids) < length ids"
  by (induction ids) auto

lemma sint_of_small_nat: "n \<le> 101 \<Longrightarrow> sint (of_nat n :: i32) = int n"
  by (simp add: sint_uint uint_nat unat_of_nat take_bit_eq_mod signed_take_bit_int_eq_self)

lemma initialize_cases:
  "initialize ids g =
     (if ids = [] then (gs_empty_players, g)
      else if length ids > 101 then (gs_too_many_players, g)
      else case check_player_ids ids [] of Some e \<Rightarrow> (e, g)
        | None \<Rightarrow> (gs_success, place_players (sort ids) 0 []))"
  by (simp add: initialize_def game_constants)

lemma check_player_ids_not_success: "check_player_ids ids c \<noteq> Some gs_success"
  by (induction ids c rule: check_player_ids.induct) auto

lemma initialize_success:
  assumes "initialize ids g = (gs_success, g')"
  shows "ids \<noteq> [] \<and> length ids \<le> 101 \<and> 0 \<notin> set ids \<and> distinct ids \<and>
    g' = place_players (sort ids) 0 []"
  using assms check_player_ids_None [of ids "[]"] check_player_ids_not_success [of ids "[]"]
  by (auto simp: initialize_cases split: if_splits option.splits)

lemma initialize_inv:
  assumes "initialize ids g = (gs_success, g')"
  shows "gs_inv g' \<and> hp_tens g' \<and> (\<forall>k. um_find k g' \<noteq> None \<longleftrightarrow> k \<in> set ids)"
proof -
  note s = initialize_success [OF assms]
  have d: "distinct (sort ids)" using s by simp
  have find: "um_find k g' = (if k \<in> set ids
      then Some \<lparr>pgs_player_id = k, pgs_x = of_nat (length (takeWhile (\<lambda>i. i \<noteq> k) (sort ids))),
                 pgs_y = 0, pgs_hp = INITIAL_HP\<rparr> else None)" for k
    using s place_players_find [OF d, of k 0 "[]"] by simp
  have x: "sint (of_nat (length (takeWhile (\<lambda>i. i \<noteq> k) (sort ids))) :: i32) \<in> {0..100}"
    if "k \<in> set ids" for k
    using takeWhile_index [of k "sort ids"] that s by (simp add: sint_of_small_nat)
  have "um_wf g'" "length g' \<le> 101"
    using s d by (simp_all add: place_players_wf length_place_players)
  moreover have "0 \<notin> set ids" using s by simp
  ultimately show ?thesis
    using x by (auto simp: gs_inv_def hp_tens_def player_ok_def find game_constants split: if_splits)
qed

lemma remove_player_inv: "gs_inv g \<Longrightarrow> gs_inv (snd (remove_player i g))"
  using um.size_erase_le [of g i] by (auto simp: remove_player_def gs_inv_def)

lemma gs_inv_assign:
  assumes "gs_inv g" and "um_find i g \<noteq> None" and "player_ok i p"
  shows "gs_inv (um_assign i p g)"
  using assms um.size_assign [of g i p] by (auto simp: gs_inv_def)

lemma gs_inv_find: "gs_inv g \<Longrightarrow> um_find k g = Some p \<Longrightarrow> player_ok k p"
  by (simp add: gs_inv_def)

section \<open>The board: specification over unbounded integers\<close>

type_synonym board = "u64 \<Rightarrow> (int \<times> int \<times> int) option" \<comment> \<open>x, y, hit points\<close>

definition board_of :: "Gamestate \<Rightarrow> board" where
  "board_of g = (\<lambda>k. map_option (\<lambda>p. (sint (pgs_x p), sint (pgs_y p), sint (pgs_hp p))) (um_find k g))"

definition spec_move :: "u64 \<Rightarrow> int \<Rightarrow> int \<Rightarrow> board \<Rightarrow> GameStates \<times> board" where
  "spec_move i dx dy m =
     (if i = 0 then (gs_invalid_player_id, m)
      else case m i of
        None \<Rightarrow> (gs_player_not_found, m)
      | Some (x, y, hp) \<Rightarrow>
          if \<bar>dx\<bar> + \<bar>dy\<bar> \<noteq> 1 then (gs_invalid_move, m)
          else if x + dx \<in> {0..100} \<and> y + dy \<in> {0..100} then (gs_success, m(i \<mapsto> (x + dx, y + dy, hp)))
          else (gs_out_of_bounds, m))"

definition spec_attack :: "u64 \<Rightarrow> u64 \<Rightarrow> board \<Rightarrow> GameStates \<times> board" where
  "spec_attack a t m =
     (if a = 0 \<or> t = 0 then (gs_invalid_player_id, m)
      else if a = t then (gs_invalid_target, m)
      else case m a of
        None \<Rightarrow> (gs_attacker_not_found, m)
      | Some (ax, ay, ahp) \<Rightarrow>
        (case m t of
          None \<Rightarrow> (gs_target_not_found, m)
        | Some (tx, ty, thp) \<Rightarrow>
            if ahp \<le> 0 then (gs_attacker_dead, m)
            else if thp \<le> 0 then (gs_target_dead, m)
            else if \<bar>ax - tx\<bar> + \<bar>ay - ty\<bar> > 1 then (gs_target_out_of_range, m)
            else (gs_success, m(t \<mapsto> (tx, ty, thp - 10)))))"

lemma board_of_assign:
  "board_of (um_assign k p g) = (board_of g)(k \<mapsto> (sint (pgs_x p), sint (pgs_y p), sint (pgs_hp p)))"
  by (auto simp: board_of_def)

lemma unit_step_iff:
  fixes dx dy :: i32
  shows "((dx = 1 \<or> dx = - 1) \<and> dy = 0 \<or> (dy = 1 \<or> dy = - 1) \<and> dx = 0) \<longleftrightarrow> \<bar>sint dx\<bar> + \<bar>sint dy\<bar> = 1"
proof -
  have one: "v = 1 \<longleftrightarrow> sint v = 1" and minus: "v = - 1 \<longleftrightarrow> sint v = - 1"
    and zero: "v = 0 \<longleftrightarrow> sint v = 0" for v :: i32
    using signed_word_eqI [of v 1] signed_word_eqI [of v "- 1"] signed_word_eqI [of v 0] by auto
  show ?thesis unfolding one minus zero by linarith
qed

lemma sint_abs_i32: "- (2 ^ 31) < sint v \<Longrightarrow> sint (abs_i32 v) = \<bar>sint v\<bar>"
  using sint_diff_i32 [of 0 v] sint_i32_bounds [of v] by (auto simp: abs_i32_def)

lemma move_player_refines:
  assumes "gs_inv g"
  shows "spec_move i (sint dx) (sint dy) (board_of g) =
    (fst (move_player i dx dy g), board_of (snd (move_player i dx dy g)))"
proof (cases "um_find i g")
  case None
  then show ?thesis by (simp add: spec_move_def move_player_def board_of_def)
next
  case (Some p)
  then have ok: "player_ok i p" using assms by (rule gs_inv_find [rotated])
  have b: "board_of g i = Some (sint (pgs_x p), sint (pgs_y p), sint (pgs_hp p))"
    using Some by (simp add: board_of_def)
  show ?thesis
  proof (cases "\<bar>sint dx\<bar> + \<bar>sint dy\<bar> = 1")
    case False
    then have "\<not> ((dx = 1 \<or> dx = - 1) \<and> dy = 0)" "\<not> ((dy = 1 \<or> dy = - 1) \<and> dx = 0)"
      using unit_step_iff [of dx dy] by blast+
    with False Some b show ?thesis by (auto simp: spec_move_def move_player_def)
  next
    case True
    then have step: "\<not> (\<not> ((dx = 1 \<or> dx = - 1) \<and> dy = 0) \<and> \<not> ((dy = 1 \<or> dy = - 1) \<and> dx = 0))"
      using unit_step_iff [of dx dy] by blast
    have x: "sint (pgs_x p + dx) = sint (pgs_x p) + sint dx"
      and y: "sint (pgs_y p + dy) = sint (pgs_y p) + sint dy"
      using ok True by (auto intro!: sint_add_i32 simp: player_ok_def)
    have "move_player i dx dy g = (if i = 0 then (gs_invalid_player_id, g)
        else if out_of_board (pgs_x p + dx) \<or> out_of_board (pgs_y p + dy) then (gs_out_of_bounds, g)
        else (gs_success, um_assign i (p\<lparr>pgs_x := pgs_x p + dx, pgs_y := pgs_y p + dy\<rparr>) g))"
      unfolding move_player_def Let_def by (simp only: Some option.case step if_False)
    with True b show ?thesis
      by (simp add: spec_move_def out_of_board_iff x y board_of_assign not_less)
  qed
qed

lemma attack_distance:
  assumes "player_ok a p" and "player_ok t q"
  shows "sint (abs_i32 (pgs_x p - pgs_x q) + abs_i32 (pgs_y p - pgs_y q)) =
    \<bar>sint (pgs_x p) - sint (pgs_x q)\<bar> + \<bar>sint (pgs_y p) - sint (pgs_y q)\<bar>"
proof -
  have x: "sint (pgs_x p - pgs_x q) = sint (pgs_x p) - sint (pgs_x q)"
    and y: "sint (pgs_y p - pgs_y q) = sint (pgs_y p) - sint (pgs_y q)"
    using assms by (auto intro!: sint_diff_i32 simp: player_ok_def)
  have ax: "sint (abs_i32 (pgs_x p - pgs_x q)) = \<bar>sint (pgs_x p) - sint (pgs_x q)\<bar>"
    and ay: "sint (abs_i32 (pgs_y p - pgs_y q)) = \<bar>sint (pgs_y p) - sint (pgs_y q)\<bar>"
    using assms by (auto simp: sint_abs_i32 x y player_ok_def)
  show ?thesis
    using assms by (subst sint_add_i32) (auto simp: ax ay player_ok_def)
qed

lemma attack_hp: "player_ok k p \<Longrightarrow> sint (pgs_hp p - ATTACK_DAMAGE) = sint (pgs_hp p) - 10"
  by (subst sint_diff_i32) (auto simp: player_ok_def game_constants)

lemma attack_player_refines:
  assumes "gs_inv g"
  shows "spec_attack a t (board_of g) =
    (ar_state (fst (attack_player a t g)), board_of (snd (attack_player a t g)))"
proof (cases "um_find a g = None \<or> um_find t g = None \<or> a = 0 \<or> t = 0 \<or> a = t")
  case True
  then show ?thesis
    by (auto simp: spec_attack_def attack_player_def board_of_def Let_def split: option.splits)
next
  case False
  then obtain p q where p: "um_find a g = Some p" and q: "um_find t g = Some q" by auto
  have ok: "player_ok a p" "player_ok t q"
    using gs_inv_find [OF assms p] gs_inv_find [OF assms q] .
  have b: "board_of g a = Some (sint (pgs_x p), sint (pgs_y p), sint (pgs_hp p))"
    "board_of g t = Some (sint (pgs_x q), sint (pgs_y q), sint (pgs_hp q))"
    using p q by (simp_all add: board_of_def)
  show ?thesis
    using False p q b
    by (simp add: spec_attack_def attack_player_def Let_def attack_distance [OF ok]
        attack_hp [OF ok(2)] board_of_assign)
qed

section \<open>Preservation of the invariant\<close>

lemma move_player_cases:
  "snd (move_player i dx dy g) = g \<or>
   (\<exists>p. um_find i g = Some p \<and> \<not> out_of_board (pgs_x p + dx) \<and> \<not> out_of_board (pgs_y p + dy) \<and>
     snd (move_player i dx dy g) = um_assign i (p\<lparr>pgs_x := pgs_x p + dx, pgs_y := pgs_y p + dy\<rparr>) g)"
  unfolding move_player_def Let_def by (simp only: split: option.split if_split) simp

lemma move_player_inv:
  assumes "gs_inv g"
  shows "gs_inv (snd (move_player i dx dy g))"
proof (cases "um_find i g")
  case None
  then show ?thesis using assms by (simp add: move_player_def)
next
  case (Some p)
  then have "player_ok i p" using assms by (rule gs_inv_find [rotated])
  then have step: "\<not> out_of_board x \<Longrightarrow> \<not> out_of_board y \<Longrightarrow> gs_inv (um_assign i (p\<lparr>pgs_x := x, pgs_y := y\<rparr>) g)" for x y
    using assms Some by (intro gs_inv_assign) (auto simp: player_ok_def out_of_board_iff)
  show ?thesis
    using move_player_cases [of i dx dy g] assms Some step by auto
qed

lemma attack_player_inv:
  assumes "gs_inv g"
  shows "gs_inv (snd (attack_player a t g))"
proof (cases "um_find a g = None \<or> um_find t g = None")
  case True
  then show ?thesis using assms by (auto simp: attack_player_def Let_def split: option.splits)
next
  case False
  then obtain p q where p: "um_find a g = Some p" and q: "um_find t g = Some q" by auto
  have ok: "player_ok t q" using gs_inv_find [OF assms q] .
  have "0 < sint (pgs_hp q) \<Longrightarrow> gs_inv (um_assign t (q\<lparr>pgs_hp := pgs_hp q - ATTACK_DAMAGE\<rparr>) g)"
    using assms q ok attack_hp [OF ok] by (intro gs_inv_assign) (auto simp: player_ok_def)
  with assms p q show ?thesis by (simp add: attack_player_def Let_def)
qed

lemma move_player_keys: "um_find k (snd (move_player i dx dy g)) = None \<longleftrightarrow> um_find k g = None"
  by (auto simp: move_player_def Let_def split: option.splits)

lemma attack_player_keys: "um_find k (snd (attack_player a t g)) = None \<longleftrightarrow> um_find k g = None"
  by (auto simp: attack_player_def Let_def split: option.splits)

lemma move_player_tens: "hp_tens g \<Longrightarrow> hp_tens (snd (move_player i dx dy g))"
  by (auto simp: move_player_def hp_tens_def Let_def split: option.splits)

lemma remove_player_tens: "hp_tens g \<Longrightarrow> hp_tens (snd (remove_player i g))"
  by (auto simp: remove_player_def hp_tens_def)

lemma attack_player_tens:
  assumes "gs_inv g" and "hp_tens g"
  shows "hp_tens (snd (attack_player a t g))"
proof (cases "um_find a g = None \<or> um_find t g = None")
  case True
  then show ?thesis using assms by (auto simp: attack_player_def Let_def split: option.splits)
next
  case False
  then obtain p q where p: "um_find a g = Some p" and q: "um_find t g = Some q" by auto
  have ok: "player_ok t q" using gs_inv_find [OF assms(1) q] .
  have "0 \<le> sint (pgs_hp q) \<and> sint (pgs_hp q) mod 10 = 0"
    using assms(2) q by (simp add: hp_tens_def)
  then have "0 < sint (pgs_hp q) \<Longrightarrow>
      0 \<le> sint (pgs_hp q - ATTACK_DAMAGE) \<and> sint (pgs_hp q - ATTACK_DAMAGE) mod 10 = 0"
    unfolding attack_hp [OF ok] by presburger
  then have "0 < sint (pgs_hp q) \<Longrightarrow> hp_tens (um_assign t (q\<lparr>pgs_hp := pgs_hp q - ATTACK_DAMAGE\<rparr>) g)"
    using assms(2) by (simp add: hp_tens_def)
  with assms p q show ?thesis by (simp add: attack_player_def Let_def)
qed

section \<open>Snapshot and restore\<close>

definition restorable :: "PlayerGameState list \<Rightarrow> bool" where
  "restorable states \<longleftrightarrow> length states \<le> 101 \<and> distinct (map pgs_player_id states) \<and>
     (\<forall>s\<in>set states. player_ok (pgs_player_id s) s \<and> 0 \<le> sint (pgs_hp s))"

lemma restore_loop_Some:
  "restore_loop states g = Some g' \<longleftrightarrow>
     distinct (map pgs_player_id states) \<and>
     (\<forall>s\<in>set states. player_ok (pgs_player_id s) s \<and> 0 \<le> sint (pgs_hp s) \<and> um_find (pgs_player_id s) g = None) \<and>
     g' = g @ map (\<lambda>s. (pgs_player_id s, s)) states"
proof (induction states g rule: restore_loop.induct)
  case (1 g)
  then show ?case by auto
next
  case (2 s states g)
  have snoc: "um_find k (g @ [(pgs_player_id s, s)]) = None \<longleftrightarrow> um_find k g = None \<and> k \<noteq> pgs_player_id s" for k
    by (auto simp: um_find_def map_add_def split: option.splits)
  show ?case
  proof (cases "pgs_player_id s = 0 \<or> um_find (pgs_player_id s) g \<noteq> None \<or>
      out_of_board (pgs_x s) \<or> out_of_board (pgs_y s) \<or> sint (pgs_hp s) < 0 \<or> sint INITIAL_HP < sint (pgs_hp s)")
    case True
    then show ?thesis by (auto simp: player_ok_def out_of_board_iff game_constants)
  next
    case False
    then have "restore_loop (s # states) g = restore_loop states (g @ [(pgs_player_id s, s)])"
      by (simp add: um_emplace_def)
    moreover have "player_ok (pgs_player_id s) s \<and> 0 \<le> sint (pgs_hp s) \<and> um_find (pgs_player_id s) g = None"
      using False by (auto simp: player_ok_def out_of_board_iff game_constants)
    moreover have "pgs_player_id s \<notin> pgs_player_id ` set states \<longleftrightarrow>
        (\<forall>x\<in>set states. pgs_player_id x \<noteq> pgs_player_id s)"
      by (auto intro: rev_image_eqI)
    ultimately show ?thesis
      using "2.IH" False by (auto simp: um_emplace_def snoc)
  qed
qed

lemma gs_restore_iff:
  "gs_restore states g = (if restorable states
     then (True, map (\<lambda>s. (pgs_player_id s, s)) states) else (False, g))"
proof (cases "restore_loop states []")
  case None
  then have "\<not> (length states \<le> 101 \<and> restorable states)"
    using restore_loop_Some [of states "[]" "map (\<lambda>s. (pgs_player_id s, s)) states"]
    by (auto simp: restorable_def)
  then show ?thesis using None by (auto simp: gs_restore_def restorable_def)
next
  case (Some g')
  then show ?thesis
    using restore_loop_Some [of states "[]" g']
    by (auto simp: gs_restore_def restorable_def game_constants)
qed

lemma gs_restore_inv:
  assumes "gs_restore states g = (True, g')"
  shows "gs_inv g' \<and> (\<forall>k. um_find k g' \<noteq> None \<longleftrightarrow> k \<in> pgs_player_id ` set states)"
proof -
  have r: "restorable states" and g': "g' = map (\<lambda>s. (pgs_player_id s, s)) states"
    using assms by (auto simp: gs_restore_iff split: if_splits)
  have wf: "um_wf g'" using r by (simp add: g' um_wf_def restorable_def comp_def)
  have find: "um_find k g' = Some p \<longleftrightarrow> p \<in> set states \<and> pgs_player_id p = k" for k p
    using um_entries_find [OF wf, of k p] by (auto simp: g')
  then have "um_find k g' \<noteq> None \<longleftrightarrow> k \<in> pgs_player_id ` set states" for k
    by auto
  with r wf find show ?thesis by (auto simp: gs_inv_def restorable_def g')
qed

lemma set_snapshot: "set (snapshot g) = snd ` set g"
  and length_snapshot: "length (snapshot g) = length g"
  by (simp_all add: snapshot_def)

lemma values_keyed:
  assumes "gs_inv g"
  shows "map pgs_player_id (map snd g) = map fst g"
proof -
  have "pgs_player_id p = k" if "(k, p) \<in> set g" for k p
    using assms that um_entries_find [of g k p] by (auto simp: gs_inv_def player_ok_def)
  then show ?thesis by auto
qed

lemma in_snapshot:
  assumes "gs_inv g"
  shows "s \<in> set (snapshot g) \<longleftrightarrow> um_find (pgs_player_id s) g = Some s"
proof
  have wf: "um_wf g" using assms by (simp add: gs_inv_def)
  {
    assume "s \<in> set (snapshot g)"
    then obtain k where "(k, s) \<in> set g" by (auto simp: set_snapshot)
    then have k: "um_find k g = Some s" by (simp add: um_entries_find [OF wf])
    then have "pgs_player_id s = k"
      using gs_inv_find [OF assms k] by (simp add: player_ok_def)
    with k show "um_find (pgs_player_id s) g = Some s" by simp
  next
    assume "um_find (pgs_player_id s) g = Some s"
    then have "(pgs_player_id s, s) \<in> set g" by (rule um_find_in_set)
    then show "s \<in> set (snapshot g)"
      unfolding set_snapshot by (rule rev_image_eqI) simp
  }
qed

lemma distinct_snapshot: "gs_inv g \<Longrightarrow> distinct (map pgs_player_id (snapshot g))"
  unfolding snapshot_def distinct_map_sort_key values_keyed by (simp add: gs_inv_def um_wf_def)

lemma snapshot_sorted: "sorted (map pgs_player_id (snapshot g))"
  by (simp add: snapshot_def)

lemma snapshot_restorable:
  assumes "gs_inv g" and "\<forall>k p. um_find k g = Some p \<longrightarrow> 0 \<le> sint (pgs_hp p)"
  shows "restorable (snapshot g)"
  using assms distinct_snapshot [OF assms(1)]
  by (auto simp: restorable_def in_snapshot length_snapshot) (simp_all add: gs_inv_def)

lemma snapshot_restore_find:
  assumes "gs_inv g" and "\<forall>k p. um_find k g = Some p \<longrightarrow> 0 \<le> sint (pgs_hp p)"
  shows "fst (gs_restore (snapshot g) g0) \<and> um_find k (snd (gs_restore (snapshot g) g0)) = um_find k g"
proof -
  have r: "gs_restore (snapshot g) g0 = (True, map (\<lambda>s. (pgs_player_id s, s)) (snapshot g))"
    using snapshot_restorable [OF assms] by (simp add: gs_restore_iff)
  have "um_find k (map (\<lambda>s. (pgs_player_id s, s)) (snapshot g)) = Some p \<longleftrightarrow> um_find k g = Some p" for p
    using um_find_fold_emplace [OF distinct_snapshot [OF assms(1)], of k "\<lambda>s. s" p]
      in_snapshot [OF assms(1), of p] gs_inv_find [OF assms(1), of k p]
    by (auto simp: player_ok_def)
  then show ?thesis using r by (cases "um_find k g") (auto simp: option.expand)
qed

section \<open>Reachable states\<close>

datatype gs_op =
    GInit "u64 list" | GRemove u64 | GMove u64 i32 i32 | GAttack u64 u64 | GRestore "PlayerGameState list"

fun exec_gs :: "gs_op \<Rightarrow> Gamestate \<Rightarrow> Gamestate" where
  "exec_gs (GInit ids) g = snd (initialize ids g)"
| "exec_gs (GRemove i) g = snd (remove_player i g)"
| "exec_gs (GMove i dx dy) g = snd (move_player i dx dy g)"
| "exec_gs (GAttack a t) g = snd (attack_player a t g)"
| "exec_gs (GRestore states) g = snd (gs_restore states g)"

inductive gs_step :: "Gamestate \<Rightarrow> Gamestate \<Rightarrow> bool" where
  "gs_step g (exec_gs op g)"

inductive_cases gs_stepE: "gs_step g g'"

lemma initialize_failed: "fst (initialize ids g) \<noteq> gs_success \<Longrightarrow> snd (initialize ids g) = g"
  by (auto simp: initialize_cases split: option.splits)

lemma initialize_keeps_inv: "gs_inv g \<Longrightarrow> gs_inv (snd (initialize ids g))"
  using initialize_failed [of ids g] initialize_inv [of ids g]
  by (cases "initialize ids g"; cases "fst (initialize ids g) = gs_success") auto

lemma gs_restore_keeps_inv: "gs_inv g \<Longrightarrow> gs_inv (snd (gs_restore states g))"
  using gs_restore_inv [of states g] by (auto simp: gs_restore_iff)

lemma exec_gs_inv: "gs_inv g \<Longrightarrow> gs_inv (exec_gs op g)"
  by (cases op) (simp_all add: initialize_keeps_inv remove_player_inv move_player_inv attack_player_inv
      gs_restore_keeps_inv)

interpretation gs: invariant_system "\<lambda>g. g = Gamestate_new" gs_step gs_inv
proof
  show "gs_inv g" if "g = Gamestate_new" for g
    using that by (simp add: Gamestate_new_def gs_inv_def)
  show "gs_inv g'" if "gs_inv g" "gs_step g g'" for g g'
    using that(2, 1) by (auto simp: exec_gs_inv elim: gs_stepE)
qed

lemma exec_gs_tens:
  assumes "gs_inv g" and "hp_tens g" and "\<forall>states. op \<noteq> GRestore states"
  shows "hp_tens (exec_gs op g)"
proof (cases op)
  case (GInit ids)
  then show ?thesis using assms initialize_failed [of ids g] initialize_inv [of ids g]
    by (cases "initialize ids g"; cases "fst (initialize ids g) = gs_success") auto
qed (use assms in \<open>simp_all add: remove_player_tens move_player_tens attack_player_tens\<close>)

inductive gs_play :: "Gamestate \<Rightarrow> Gamestate \<Rightarrow> bool" where
  "\<forall>states. op \<noteq> GRestore states \<Longrightarrow> gs_play g (exec_gs op g)"

inductive_cases gs_playE: "gs_play g g'"

interpretation gs_live: invariant_system "\<lambda>g. g = Gamestate_new" gs_play "\<lambda>g. gs_inv g \<and> hp_tens g"
proof
  show "gs_inv g \<and> hp_tens g" if "g = Gamestate_new" for g
    using that by (simp add: Gamestate_new_def gs_inv_def hp_tens_def)
  show "gs_inv g' \<and> hp_tens g'" if "gs_inv g \<and> hp_tens g" "gs_play g g'" for g g'
    using that by (auto simp: exec_gs_inv exec_gs_tens elim!: gs_playE)
qed

lemma takeWhile_nth: "distinct xs \<Longrightarrow> n < length xs \<Longrightarrow> length (takeWhile (\<lambda>i. i \<noteq> xs ! n) xs) = n"
  by (induction xs arbitrary: n) (auto simp: nth_Cons' split: if_splits)

lemma board_bounds:
  assumes "gs_inv g" and "board_of g k = Some (x, y, hp)"
  shows "k \<noteq> 0 \<and> x \<in> {0..100} \<and> y \<in> {0..100} \<and> - 10 < hp \<and> hp \<le> 100"
  using assms by (auto simp: board_of_def gs_inv_def player_ok_def)

section \<open>Properties\<close>

text \<open>C18: in every game state reachable by any sequence of operations there are at most 101
  players, each with a nonzero id, on the 101 by 101 board and with hit points in (-10, 100];
  and there a move and an attack are the moves and attacks of the board over unbounded
  integers: status and successor agree with \<open>spec_move\<close> and \<open>spec_attack\<close>, so no signed
  operation of the code overflows.\<close>

theorem reachable_games_follow_the_board:
  assumes "reach (\<lambda>g. g = Gamestate_new) gs_step g"
  shows "player_count g \<le> 101 \<and>
    (\<forall>k x y hp. board_of g k = Some (x, y, hp) \<longrightarrow>
       k \<noteq> 0 \<and> x \<in> {0..100} \<and> y \<in> {0..100} \<and> - 10 < hp \<and> hp \<le> 100) \<and>
    (fst (move_player i dx dy g), board_of (snd (move_player i dx dy g))) =
       spec_move i (sint dx) (sint dy) (board_of g) \<and>
    (ar_state (fst (attack_player a t g)), board_of (snd (attack_player a t g))) =
       spec_attack a t (board_of g)"
proof -
  have inv: "gs_inv g" using assms by (rule gs.reach_inv)
  then show ?thesis
    using board_bounds [OF inv] move_player_refines [OF inv] attack_player_refines [OF inv]
    by (simp add: player_count_def gs_inv_def)
qed

text \<open>The operation \<open>initialize\<close> succeeds exactly on a nonempty list of at most 101 distinct nonzero
  ids, whatever state it is called in; then the player with the \<open>n\<close>-th smallest id stands at
  (n, 0) with 100 hit points and nobody else is on the board, and a failure changes nothing.\<close>

theorem initialize_places_players_in_id_order:
  "(fst (initialize ids g) = gs_success \<longleftrightarrow> ids \<noteq> [] \<and> length ids \<le> 101 \<and> 0 \<notin> set ids \<and> distinct ids) \<and>
   (fst (initialize ids g) \<noteq> gs_success \<longrightarrow> snd (initialize ids g) = g) \<and>
   (fst (initialize ids g) = gs_success \<longrightarrow>
      (\<forall>n<length ids. board_of (snd (initialize ids g)) (sort ids ! n) = Some (int n, 0, 100)) \<and>
      (\<forall>k. k \<notin> set ids \<longrightarrow> board_of (snd (initialize ids g)) k = None))"
proof -
  have iff: "fst (initialize ids g) = gs_success \<longleftrightarrow>
      ids \<noteq> [] \<and> length ids \<le> 101 \<and> 0 \<notin> set ids \<and> distinct ids"
    using check_player_ids_None [of ids "[]"] check_player_ids_not_success [of ids "[]"]
    by (auto simp: initialize_cases split: option.splits)
  have "board_of (snd (initialize ids g)) (sort ids ! n) = Some (int n, 0, 100)"
    if s: "fst (initialize ids g) = gs_success" and n: "n < length ids" for n
  proof -
    have d: "distinct (sort ids)" and le: "length ids \<le> 101" using s iff by simp_all
    have g': "snd (initialize ids g) = place_players (sort ids) 0 []"
      using initialize_success [of ids g] s by (metis prod.collapse)
    have "length (takeWhile (\<lambda>i. i \<noteq> sort ids ! n) (sort ids)) = n"
      using takeWhile_nth [OF d, of n] n by simp
    then show ?thesis
      using n le nth_mem [of n "sort ids"]
      by (simp add: g' board_of_def place_players_find [OF d] sint_of_small_nat game_constants del: nth_mem)
  qed
  moreover have "board_of (snd (initialize ids g)) k = None"
    if "fst (initialize ids g) = gs_success" "k \<notin> set ids" for k
    using initialize_inv [of ids g] that by (cases "initialize ids g") (auto simp: board_of_def)
  ultimately show ?thesis using iff initialize_failed [of ids g] by blast
qed

theorem initialize_places_players_in_id_order_witness:
  "board_of (snd (initialize [7, 3] [])) 7 = Some (1, 0, 100)"
proof -
  have s: "sort [7, 3 :: u64] = [3, 7]" by simp
  show ?thesis
    using initialize_places_players_in_id_order [of "[7, 3]" "[]", unfolded s]
    by (auto simp: less_Suc_eq)
qed


text \<open>C29: a game that was only started, moved and fought in, never restored from outside
  data, has hit points that are multiples of ten and never negative, so its snapshot can
  always be restored.\<close>

theorem played_games_stay_restorable:
  assumes "reach (\<lambda>g. g = Gamestate_new) gs_play g"
  shows "(\<forall>k x y hp. board_of g k = Some (x, y, hp) \<longrightarrow> 0 \<le> hp \<and> hp mod 10 = 0) \<and>
    fst (gs_restore (snapshot g) g0)"
proof -
  have inv: "gs_inv g" and t: "hp_tens g" using gs_live.reach_inv [OF assms] by simp_all
  show ?thesis
    using snapshot_restore_find [OF inv] t by (auto simp: hp_tens_def board_of_def)
qed

lemma restorable_snapshot_iff:
  assumes "gs_inv g"
  shows "fst (gs_restore (snapshot g) g0) \<longleftrightarrow> (\<forall>k x y hp. board_of g k = Some (x, y, hp) \<longrightarrow> 0 \<le> hp)"
proof -
  have "(\<forall>s\<in>set (snapshot g). 0 \<le> sint (pgs_hp s)) \<longleftrightarrow> (\<forall>k p. um_find k g = Some p \<longrightarrow> 0 \<le> sint (pgs_hp p))"
    using gs_inv_find [OF assms] by (auto simp: in_snapshot [OF assms] player_ok_def)
  moreover have "\<forall>s\<in>set (snapshot g). player_ok (pgs_player_id s) s"
    using gs_inv_find [OF assms] by (auto simp: in_snapshot [OF assms])
  moreover have "length (snapshot g) \<le> 101" using assms by (simp add: length_snapshot gs_inv_def)
  moreover have "(\<forall>k p. um_find k g = Some p \<longrightarrow> 0 \<le> sint (pgs_hp p)) \<longleftrightarrow> (\<forall>k x y hp. board_of g k = Some (x, y, hp) \<longrightarrow> 0 \<le> hp)"
    unfolding board_of_def by fastforce
  ultimately show ?thesis
    using distinct_snapshot [OF assms] by (simp add: gs_restore_iff restorable_def)
qed

text \<open>C30: one attack can make a game unloadable. \<open>gs_restore\<close> accepts any hit points from 0 to 100, and
  an attack takes ten from a living target however few it has left: in every reachable game
  whose snapshot can be restored, the snapshot after a successful attack can be restored exactly
  if the target had at least ten. With one to nine it is left with negative hit points, and a
  checkpoint the server then writes cannot be loaded.\<close>

theorem attacked_games_restore_iff_ten_points:
  assumes "reach (\<lambda>g. g = Gamestate_new) gs_step g" and "fst (gs_restore (snapshot g) g0)"
    and "ar_state (fst (attack_player a t g)) = gs_success"
  shows "\<exists>x y hp. board_of g t = Some (x, y, hp) \<and> 0 < hp \<and>
    (fst (gs_restore (snapshot (snd (attack_player a t g))) g0) \<longleftrightarrow> 10 \<le> hp)"
proof -
  have inv: "gs_inv g" using assms(1) by (rule gs.reach_inv)
  have sp: "spec_attack a t (board_of g) = (gs_success, board_of (snd (attack_player a t g)))"
    using attack_player_refines [OF inv] assms(3) by simp
  then obtain x y hp where t: "board_of g t = Some (x, y, hp)" "0 < hp"
      "board_of (snd (attack_player a t g)) = (board_of g)(t \<mapsto> (x, y, hp - 10))"
    by (auto simp: spec_attack_def split: option.splits if_splits)
  have "fst (gs_restore (snapshot (snd (attack_player a t g))) g0) \<longleftrightarrow> 10 \<le> hp"
    using assms(2) unfolding restorable_snapshot_iff [OF inv] restorable_snapshot_iff [OF attack_player_inv [OF inv]] t(3)
    by auto
  then show ?thesis using t by blast
qed

theorem reachable_games_follow_the_board_witness:
  "board_of (snd (move_player 3 1 0 (snd (initialize [7, 3] Gamestate_new)))) =
     snd (spec_move 3 1 0 (board_of (snd (initialize [7, 3] Gamestate_new))))"
proof -
  have "reach (\<lambda>g. g = Gamestate_new) gs_step (snd (initialize [7, 3] Gamestate_new))"
    using gs_step.intros [of Gamestate_new "GInit [7, 3]"] by (auto intro: reach.intros)
  from reachable_games_follow_the_board [OF this, of 3 1 0 3 7]
  show ?thesis by (simp add: prod_eq_iff)
qed


theorem played_games_stay_restorable_witness:
  "fst (gs_restore (snapshot (snd (initialize [7, 3] Gamestate_new))) [])"
proof -
  have "reach (\<lambda>g. g = Gamestate_new) gs_play (snd (initialize [7, 3] Gamestate_new))"
    using gs_play.intros [of "GInit [7, 3]" Gamestate_new] by (auto intro: reach.intros)
  then show ?thesis using played_games_stay_restorable by blast
qed

definition wounded :: "PlayerGameState list" where
  "wounded = [\<lparr>pgs_player_id = 1, pgs_x = 0, pgs_y = 0, pgs_hp = 100\<rparr>, \<lparr>pgs_player_id = 2, pgs_x = 1, pgs_y = 0, pgs_hp = 5\<rparr>]"

theorem attacked_games_restore_iff_ten_points_witness:
  "fst (gs_restore wounded Gamestate_new) \<and>
   \<not> fst (gs_restore (snapshot (snd (attack_player 1 2 (snd (gs_restore wounded Gamestate_new))))) [])"
proof -
  let ?g = "snd (gs_restore wounded Gamestate_new)"
  have c: "fst (gs_restore wounded Gamestate_new)" "fst (gs_restore (snapshot ?g) [])" "ar_state (fst (attack_player 1 2 ?g)) = gs_success"
    "board_of ?g 2 = Some (1, 0, 5)" by code_simp+
  have "reach (\<lambda>g. g = Gamestate_new) gs_step ?g"
    using gs_step.intros [of Gamestate_new "GRestore wounded"] by (auto intro: reach.intros)
  from attacked_games_restore_iff_ten_points [OF this c(2,3)] c show ?thesis by auto
qed

end
