(* ===== verification/Room_State_Machine.thy ===== *)
theory Room_State_Machine
  imports LW_Prelude
begin

text \<open>
  \<open>Roomstatemachine\<close> (\<open>src/room_state_machine.cpp\<close>): a room waits for players, runs, and
  finishes. The phases are ordered by their place in that life cycle (an instance of
  \<open>linorder\<close>), so that ``a room never goes back'' is monotonicity.
\<close>

datatype RoomStates = waiting | running | finished

datatype Transitionstates = tr_success | tr_invalid_state | tr_condition_not_met

text \<open>The enumerators' values, as \<open>static_cast\<close> to an integer type gives them.\<close>

fun room_state_value :: "RoomStates \<Rightarrow> nat" where
  "room_state_value waiting = 0"
| "room_state_value running = 1"
| "room_state_value finished = 2"

record Roomstatemachine =
  rsm_state :: RoomStates

definition Roomstatemachine_new :: Roomstatemachine where
  "Roomstatemachine_new = \<lparr>rsm_state = waiting\<rparr>"

definition can_join :: "Roomstatemachine \<Rightarrow> bool" where
  "can_join m \<longleftrightarrow> rsm_state m = waiting"

definition rsm_start :: "bool \<Rightarrow> Roomstatemachine \<Rightarrow> Transitionstates \<times> Roomstatemachine" where
  "rsm_start ready_to_start m =
     (if rsm_state m \<noteq> waiting then (tr_invalid_state, m)
      else if \<not> ready_to_start then (tr_condition_not_met, m)
      else (tr_success, m\<lparr>rsm_state := running\<rparr>))"

definition rsm_finish :: "bool \<Rightarrow> Roomstatemachine \<Rightarrow> Transitionstates \<times> Roomstatemachine" where
  "rsm_finish should_finish m =
     (if rsm_state m \<noteq> running then (tr_invalid_state, m)
      else if \<not> should_finish then (tr_condition_not_met, m)
      else (tr_success, m\<lparr>rsm_state := finished\<rparr>))"

section \<open>Phases in order\<close>

lemma room_state_value_inject: "room_state_value a = room_state_value b \<Longrightarrow> a = b"
  by (cases a; cases b) simp_all

instantiation RoomStates :: linorder
begin

definition less_eq_RoomStates :: "RoomStates \<Rightarrow> RoomStates \<Rightarrow> bool" where
  "less_eq_RoomStates a b \<longleftrightarrow> room_state_value a \<le> room_state_value b"

definition less_RoomStates :: "RoomStates \<Rightarrow> RoomStates \<Rightarrow> bool" where
  "less_RoomStates a b \<longleftrightarrow> room_state_value a < room_state_value b"

instance
  by intro_classes
    (auto simp: less_eq_RoomStates_def less_RoomStates_def intro: room_state_value_inject)

end

inductive rsm_step :: "Roomstatemachine \<Rightarrow> Roomstatemachine \<Rightarrow> bool" where
  start_step: "rsm_step m (snd (rsm_start ready m))"
| finish_step: "rsm_step m (snd (rsm_finish should m))"

inductive_cases rsm_stepE: "rsm_step m m'"

lemma rsm_step_monotone: "rsm_step m m' \<Longrightarrow> rsm_state m \<le> rsm_state m'"
  by (erule rsm_stepE) (auto simp: rsm_start_def rsm_finish_def less_eq_RoomStates_def)

interpretation rsm: invariant_system "\<lambda>m. m = Roomstatemachine_new" rsm_step "\<lambda>m. True"
  by unfold_locales simp_all

text \<open>Along any sequence of \<open>start\<close> and \<open>finish\<close> calls the phase of a room only moves
  forward (waiting, running, finished), and a transition reports success exactly when it
  takes the next phase from the phase it requires with its condition met.\<close>

theorem phase_only_advances:
  "(rsm_step\<^sup>*\<^sup>* m m' \<longrightarrow> rsm_state m \<le> rsm_state m') \<and>
   (fst (rsm_start ready m) = tr_success \<longleftrightarrow> rsm_state m = waiting \<and> ready) \<and>
   (fst (rsm_finish should m) = tr_success \<longleftrightarrow> rsm_state m = running \<and> should) \<and>
   (fst (rsm_start ready m) = tr_success \<longrightarrow> rsm_state (snd (rsm_start ready m)) = running) \<and>
   (fst (rsm_start ready m) \<noteq> tr_success \<longrightarrow> snd (rsm_start ready m) = m) \<and>
   (fst (rsm_finish should m) = tr_success \<longrightarrow> rsm_state (snd (rsm_finish should m)) = finished) \<and>
   (fst (rsm_finish should m) \<noteq> tr_success \<longrightarrow> snd (rsm_finish should m) = m)"
  using rsm.reach_monotone [of rsm_state m m'] rsm_step_monotone
  by (auto simp: rsm_start_def rsm_finish_def)

theorem phase_only_advances_witness:
  "rsm_state (snd (rsm_start True Roomstatemachine_new)) = running"
  using phase_only_advances [of Roomstatemachine_new "Roomstatemachine_new" True True]
  by (simp add: rsm_start_def Roomstatemachine_new_def)

end
