(* ===== verification/Wire_Format.thy ===== *)
theory Wire_Format
  imports LW_Prelude
begin

text \<open>
  Field formats and their contract. A format is an encoder into bytes and a decoder that
  consumes a prefix; the locale \<open>field_codec\<close> states that decoding an encoding gives the
  value and the rest, \<open>canonical_codec\<close> adds that nothing else decodes. Fixed-width words,
  length-prefixed strings, pairs and counted sequences are provided here; the message
  payloads of the protocol are built from them.
\<close>

locale field_codec =
  fixes enc :: "'a \<Rightarrow> bytes"
    and dec :: "bytes \<Rightarrow> ('a \<times> bytes) option"
    and ok :: "'a \<Rightarrow> bool"
  assumes dec_enc: "ok x \<Longrightarrow> dec (enc x @ r) = Some (x, r)"
begin

lemma enc_inject:
  assumes "ok x" and "ok y" and "enc x @ r = enc y @ r'"
  shows "x = y \<and> r = r'"
proof -
  have "Some (x, r) = Some (y, r')"
    using dec_enc [OF assms(1), of r] dec_enc [OF assms(2), of r'] unfolding assms(3) by (rule trans [OF sym])
  then show ?thesis by simp
qed

lemma dec_enc_all: "ok x \<Longrightarrow> dec (enc x) = Some (x, [])"
  using dec_enc [of x "[]"] by simp

end

locale canonical_codec = field_codec +
  assumes dec_sound: "dec bs = Some (x, r) \<Longrightarrow> ok x \<and> bs = enc x @ r"
begin

lemma dec_iff: "dec bs = Some (x, r) \<longleftrightarrow> ok x \<and> bs = enc x @ r"
  using dec_sound dec_enc by blast

lemma dec_shorter: "dec bs = Some (x, r) \<Longrightarrow> length bs = length (enc x) + length r"
  by (auto dest: dec_sound)

end

fun dec_seq :: "(bytes \<Rightarrow> ('a \<times> bytes) option) \<Rightarrow> nat \<Rightarrow> bytes \<Rightarrow> ('a list \<times> bytes) option" where
  "dec_seq d 0 bs = Some ([], bs)"
| "dec_seq d (Suc n) bs =
     (case d bs of None \<Rightarrow> None
      | Some (x, r) \<Rightarrow>
          (case dec_seq d n r of None \<Rightarrow> None | Some (xs, r') \<Rightarrow> Some (x # xs, r')))"

definition dec_pair ::
  "(bytes \<Rightarrow> ('a \<times> bytes) option) \<Rightarrow> (bytes \<Rightarrow> ('b \<times> bytes) option) \<Rightarrow> bytes \<Rightarrow> (('a \<times> 'b) \<times> bytes) option" where
  "dec_pair d1 d2 bs =
     (case d1 bs of None \<Rightarrow> None
      | Some (x, r) \<Rightarrow> (case d2 r of None \<Rightarrow> None | Some (y, r') \<Rightarrow> Some ((x, y), r')))"

context canonical_codec
begin

lemma dec_seq_enc:
  "list_all ok xs \<Longrightarrow> dec_seq dec (length xs) (concat (map enc xs) @ r) = Some (xs, r)"
  by (induction xs) (simp_all add: dec_enc)

lemma dec_seq_sound:
  "dec_seq dec n bs = Some (xs, r) \<Longrightarrow> length xs = n \<and> list_all ok xs \<and> bs = concat (map enc xs) @ r"
  by (induction n arbitrary: bs xs) (auto split: option.splits dest!: dec_sound)

end

locale codec_seq = elem: canonical_codec enc dec ok
  for enc :: "'a \<Rightarrow> bytes" and dec ok +
  fixes n :: nat
begin

sublocale seq: canonical_codec "\<lambda>xs. concat (map enc xs)" "dec_seq dec n"
  "\<lambda>xs. length xs = n \<and> list_all ok xs"
  by unfold_locales (auto simp: elem.dec_seq_enc dest: elem.dec_seq_sound)

end

locale codec_pair = a: canonical_codec enca deca oka + b: canonical_codec encb decb okb
  for enca :: "'a \<Rightarrow> bytes" and deca oka and encb :: "'b \<Rightarrow> bytes" and decb okb
begin

sublocale pair: canonical_codec "\<lambda>(x, y). enca x @ encb y" "dec_pair deca decb"
  "\<lambda>(x, y). oka x \<and> okb y"
proof
  fix p r
  assume "(\<lambda>(x, y). oka x \<and> okb y) p"
  then show "dec_pair deca decb ((\<lambda>(x, y). enca x @ encb y) p @ r) = Some (p, r)"
    by (cases p) (simp add: dec_pair_def a.dec_enc b.dec_enc)
next
  fix bs p r
  assume "dec_pair deca decb bs = Some (p, r)"
  then show "(\<lambda>(x, y). oka x \<and> okb y) p \<and> bs = (\<lambda>(x, y). enca x @ encb y) p @ r"
    by (auto simp: dec_pair_def split: option.splits dest!: a.dec_sound b.dec_sound)
qed

end

section \<open>Words\<close>

definition dec_word :: "nat \<Rightarrow> bytes \<Rightarrow> ('a::len word \<times> bytes) option" where
  "dec_word n bs = (if length bs < n then None else Some (be_read (take n bs), drop n bs))"

lemma dec_word_enc:
  fixes v :: "'a::len word"
  assumes "LENGTH('a) = 8 * n"
  shows "dec_word n (be_write n v @ r) = Some (v, r)"
  using be_read_write [OF assms, of v] by (simp add: dec_word_def)

lemma dec_word_sound:
  fixes v :: "'a::len word"
  assumes "LENGTH('a) = 8 * n" and "dec_word n bs = Some (v, r)"
  shows "bs = be_write n v @ r"
proof -
  have "length (take n bs) = n" and v: "v = be_read (take n bs)" and r: "r = drop n bs"
    using assms(2) by (auto simp: dec_word_def split: if_splits)
  then have "be_write n v = take n bs"
    using be_write_read [OF _ assms(1), of "take n bs"] by simp
  then show ?thesis by (simp add: r)
qed

interpretation w16: canonical_codec "be_write 2 :: u16 \<Rightarrow> bytes" "dec_word 2" "\<lambda>_. True"
  by unfold_locales (simp_all add: dec_word_enc dec_word_sound)

interpretation w32: canonical_codec "be_write 4 :: u32 \<Rightarrow> bytes" "dec_word 4" "\<lambda>_. True"
  by unfold_locales (simp_all add: dec_word_enc dec_word_sound)

interpretation w64: canonical_codec "be_write 8 :: u64 \<Rightarrow> bytes" "dec_word 8" "\<lambda>_. True"
  by unfold_locales (simp_all add: dec_word_enc dec_word_sound)

section \<open>Length-prefixed strings\<close>

definition enc_str16 :: "bytes \<Rightarrow> bytes" where
  "enc_str16 s = be_write 2 (of_nat (length s) :: u16) @ s"

definition dec_str16 :: "bytes \<Rightarrow> (bytes \<times> bytes) option" where
  "dec_str16 bs =
     (case (dec_word 2 bs :: (u16 \<times> bytes) option) of None \<Rightarrow> None
      | Some (n, r) \<Rightarrow> if length r < unat n then None else Some (take (unat n) r, drop (unat n) r))"

lemma unat_of_nat_u16: "n < 65536 \<Longrightarrow> unat (of_nat n :: u16) = n"
  by (simp add: unat_of_nat take_bit_eq_mod)

lemma unat_u16_less: "unat (n :: u16) < 65536"
  using unsigned_less [where ?'a = nat, of n] by simp

lemma unat_of_nat_u32: "n < 2 ^ 32 \<Longrightarrow> unat (of_nat n :: u32) = n"
  by (simp add: unat_of_nat take_bit_eq_mod)

interpretation str16: canonical_codec enc_str16 dec_str16 "\<lambda>s. length s < 65536"
proof
  fix s r :: bytes
  assume "length s < 65536"
  then show "dec_str16 (enc_str16 s @ r) = Some (s, r)"
    by (simp add: dec_str16_def enc_str16_def w16.dec_enc unat_of_nat_u16)
next
  fix bs s r
  assume a: "dec_str16 bs = Some (s, r)"
  then obtain n :: u16 and t where w: "dec_word 2 bs = Some (n, t)"
      and le: "unat n \<le> length t" and s: "s = take (unat n) t" and r: "r = drop (unat n) t"
    by (auto simp: dec_str16_def not_less split: option.splits if_splits)
  have bs: "bs = be_write 2 n @ t" using w16.dec_sound [OF w] by simp
  have len: "length s = unat n" using le s by simp
  moreover have "unat n < 65536" by (rule unat_u16_less)
  ultimately show "length s < 65536 \<and> bs = enc_str16 s @ r"
    using bs by (simp add: enc_str16_def len) (simp add: s r)
qed

section \<open>Counted sequences\<close>

definition enc_counted16 :: "('a \<Rightarrow> bytes) \<Rightarrow> 'a list \<Rightarrow> bytes" where
  "enc_counted16 e xs = be_write 2 (of_nat (length xs) :: u16) @ concat (map e xs)"

definition dec_counted16 :: "(bytes \<Rightarrow> ('a \<times> bytes) option) \<Rightarrow> bytes \<Rightarrow> ('a list \<times> bytes) option" where
  "dec_counted16 d bs =
     (case (dec_word 2 bs :: (u16 \<times> bytes) option) of None \<Rightarrow> None
      | Some (n, r) \<Rightarrow> dec_seq d (unat n) r)"

locale codec_counted = elem: canonical_codec enc dec ok
  for enc :: "'a \<Rightarrow> bytes" and dec ok
begin

sublocale counted: canonical_codec "enc_counted16 enc" "dec_counted16 dec"
  "\<lambda>xs. length xs < 65536 \<and> list_all ok xs"
proof
  fix xs r
  assume "length xs < 65536 \<and> list_all ok xs"
  then show "dec_counted16 dec (enc_counted16 enc xs @ r) = Some (xs, r)"
    by (simp add: dec_counted16_def enc_counted16_def w16.dec_enc unat_of_nat_u16 elem.dec_seq_enc)
next
  fix bs xs r
  assume "dec_counted16 dec bs = Some (xs, r)"
  then obtain n :: u16 and t where w: "dec_word 2 bs = Some (n, t)"
      and s: "dec_seq dec (unat n) t = Some (xs, r)"
    by (auto simp: dec_counted16_def split: option.splits)
  have "bs = be_write 2 n @ t" using w16.dec_sound [OF w] by simp
  moreover note elem.dec_seq_sound [OF s]
  moreover have "unat n < 65536" by (rule unat_u16_less)
  ultimately show "(length xs < 65536 \<and> list_all ok xs) \<and> bs = enc_counted16 enc xs @ r"
    by (auto simp: enc_counted16_def)
qed

end

end
