(* ===== verification/Protocol.thy ===== *)
theory Protocol
  imports Wire_Format Game_State Room_State_Machine
begin

text \<open>
  \<open>Protocol\<close> (\<open>src/protocol.cpp\<close>): encoding and decoding of message payloads. Each
  \<open>decode_\<dots>\<close> returns \<open>None\<close> where the code returns false, each \<open>encode_\<dots>\<close> returns
  \<open>None\<close> where the code returns false with a cleared payload. The payload layouts of
  \<open>docs/protocol.md\<close> are stated as formats (compositions of the codecs of
  \<open>Wire_Format\<close>), and the encoders are shown to produce exactly them.
\<close>

datatype MessageType =
    mt_join | mt_leave | mt_chat | mt_move | mt_attack | mt_heartbeat | mt_resume
  | mt_join_ok | mt_player_joined | mt_leave_ok | mt_player_left | mt_chat_event
  | mt_state_snapshot | mt_error | mt_heartbeat_ack | mt_resume_ok

fun message_code :: "MessageType \<Rightarrow> u16" where
  "message_code mt_join = 1"
| "message_code mt_leave = 2"
| "message_code mt_chat = 3"
| "message_code mt_move = 4"
| "message_code mt_attack = 5"
| "message_code mt_heartbeat = 6"
| "message_code mt_resume = 7"
| "message_code mt_join_ok = 101"
| "message_code mt_player_joined = 102"
| "message_code mt_leave_ok = 103"
| "message_code mt_player_left = 104"
| "message_code mt_chat_event = 105"
| "message_code mt_state_snapshot = 106"
| "message_code mt_error = 107"
| "message_code mt_heartbeat_ack = 108"
| "message_code mt_resume_ok = 109"

datatype ErrorCode =
    ec_room_not_found | ec_room_full | ec_already_in_room | ec_not_in_room
  | ec_invalid_player_name | ec_invalid_message | ec_player_id_exhausted
  | ec_room_not_joinable | ec_room_not_running | ec_already_submitted | ec_invalid_token
  | ec_session_online | ec_session_expired | ec_resume_failed

fun error_code_value :: "ErrorCode \<Rightarrow> u16" where
  "error_code_value ec_room_not_found = 1"
| "error_code_value ec_room_full = 2"
| "error_code_value ec_already_in_room = 3"
| "error_code_value ec_not_in_room = 4"
| "error_code_value ec_invalid_player_name = 5"
| "error_code_value ec_invalid_message = 6"
| "error_code_value ec_player_id_exhausted = 7"
| "error_code_value ec_room_not_joinable = 8"
| "error_code_value ec_room_not_running = 9"
| "error_code_value ec_already_submitted = 10"
| "error_code_value ec_invalid_token = 11"
| "error_code_value ec_session_online = 12"
| "error_code_value ec_session_expired = 13"
| "error_code_value ec_resume_failed = 14"

record JoinRequest = jq_room_id :: u32 jq_player_name :: bytes
record MoveRequest = mq_dx :: i32 mq_dy :: i32
record MemberInfo = mi_player_id :: u64 mi_player_name :: bytes

definition MAX_PLAYER_NAME_SIZE :: nat where "MAX_PLAYER_NAME_SIZE = 32"
definition MAX_CHAT_MESSAGE_SIZE :: nat where "MAX_CHAT_MESSAGE_SIZE = 1024"
definition MAX_TOKEN_SIZE :: nat where "MAX_TOKEN_SIZE = 128"
definition UINT16_MAX :: nat where "UINT16_MAX = 65535"

lemmas protocol_sizes = MAX_PLAYER_NAME_SIZE_def MAX_CHAT_MESSAGE_SIZE_def MAX_TOKEN_SIZE_def UINT16_MAX_def

section \<open>Reading and appending integers\<close>

text \<open>\<open>memcpy\<close> of the bytes followed by \<open>ntohs\<close>/\<open>ntohl\<close> reads them as big-endian.\<close>

definition read_u16 :: "bytes \<Rightarrow> nat \<Rightarrow> u16 option" where
  "read_u16 d offset =
     (if offset > length d \<or> length d - offset < 2 then None else Some (be_read (take 2 (drop offset d))))"

definition read_u32 :: "bytes \<Rightarrow> nat \<Rightarrow> u32 option" where
  "read_u32 d offset =
     (if offset > length d \<or> length d - offset < 4 then None else Some (be_read (take 4 (drop offset d))))"

definition read_i32 :: "bytes \<Rightarrow> nat \<Rightarrow> i32 option" where
  "read_i32 d offset =
     (case read_u32 d offset of
        None \<Rightarrow> None
      | Some raw_value \<Rightarrow>
          if raw_value \<le> 0x7FFFFFFF then Some raw_value
          else let magnitude = 0xFFFFFFFF - raw_value in Some (- 1 - magnitude))"

definition read_u64 :: "bytes \<Rightarrow> nat \<Rightarrow> u64 option" where
  "read_u64 d offset =
     (if offset > length d \<or> length d - offset < 8 then None
      else case (read_u32 d offset, read_u32 d (offset + 4)) of
        (Some high, Some low) \<Rightarrow> Some (push_bit 32 (ucast high) OR ucast low)
      | _ \<Rightarrow> None)"

definition append_u16 :: "u16 \<Rightarrow> bytes \<Rightarrow> bytes" where
  "append_u16 v d = d @ be_write 2 v"

definition append_u32 :: "u32 \<Rightarrow> bytes \<Rightarrow> bytes" where
  "append_u32 v d = d @ be_write 4 v"

definition append_u64 :: "u64 \<Rightarrow> bytes \<Rightarrow> bytes" where
  "append_u64 v d =
     append_u32 (ucast (v AND 0xFFFFFFFF)) (append_u32 (ucast (drop_bit 32 v)) d)"

definition append_i32 :: "i32 \<Rightarrow> bytes \<Rightarrow> bytes" where
  "append_i32 v d = d @ be_write 4 v"

section \<open>Decoding requests\<close>

definition decode_join_request :: "bytes \<Rightarrow> JoinRequest option" where
  "decode_join_request payload =
     (case read_u32 payload 0 of
        None \<Rightarrow> None
      | Some room_id \<Rightarrow>
          (case read_u16 payload 4 of
             None \<Rightarrow> None
           | Some name_size \<Rightarrow>
               if length payload - 6 \<noteq> unat name_size then None
               else Some \<lparr>jq_room_id = room_id, jq_player_name = take (unat name_size) (drop 6 payload)\<rparr>))"

definition decode_leave_request :: "bytes \<Rightarrow> bool" where
  "decode_leave_request payload \<longleftrightarrow> payload = []"

definition decode_chat_request :: "bytes \<Rightarrow> bytes option" where
  "decode_chat_request payload =
     (case read_u16 payload 0 of
        None \<Rightarrow> None
      | Some message_size \<Rightarrow>
          if length payload - 2 \<noteq> unat message_size then None
          else Some (take (unat message_size) (drop 2 payload)))"

definition decode_move_request :: "bytes \<Rightarrow> MoveRequest option" where
  "decode_move_request payload =
     (if length payload \<noteq> 8 then None
      else case (read_i32 payload 0, read_i32 payload 4) of
        (Some dx, Some dy) \<Rightarrow> Some \<lparr>mq_dx = dx, mq_dy = dy\<rparr>
      | _ \<Rightarrow> None)"

definition decode_attack_request :: "bytes \<Rightarrow> u64 option" where
  "decode_attack_request payload = (if length payload \<noteq> 8 then None else read_u64 payload 0)"

definition decode_heartbeat_request :: "bytes \<Rightarrow> u64 option" where
  "decode_heartbeat_request payload = (if length payload \<noteq> 8 then None else read_u64 payload 0)"

definition decode_resume_request :: "bytes \<Rightarrow> bytes option" where
  "decode_resume_request payload =
     (case read_u16 payload 0 of
        None \<Rightarrow> None
      | Some token_size \<Rightarrow>
          if token_size = 0 \<or> unat token_size > MAX_TOKEN_SIZE \<or> length payload - 2 \<noteq> unat token_size
          then None
          else Some (take (unat token_size) (drop 2 payload)))"

section \<open>Encoding responses and events\<close>

definition name_ok :: "bytes \<Rightarrow> bool" where
  "name_ok s \<longleftrightarrow> \<not> (s = [] \<or> length s > MAX_PLAYER_NAME_SIZE)"

definition append_member :: "MemberInfo \<Rightarrow> bytes \<Rightarrow> bytes" where
  "append_member m d =
     append_u16 (of_nat (length (mi_player_name m))) (append_u64 (mi_player_id m) d) @ mi_player_name m"

definition append_game_state :: "PlayerGameState \<Rightarrow> bytes \<Rightarrow> bytes" where
  "append_game_state s d =
     append_i32 (pgs_hp s) (append_i32 (pgs_y s) (append_i32 (pgs_x s) (append_u64 (pgs_player_id s) d)))"

definition encode_join_ok :: "u32 \<Rightarrow> u64 \<Rightarrow> bytes \<Rightarrow> MemberInfo list \<Rightarrow> bytes option" where
  "encode_join_ok room_id self_player_id token members =
     (if token = [] \<or> length token > MAX_TOKEN_SIZE then None
      else if length members > UINT16_MAX then None
      else if \<exists>m\<in>set members. \<not> name_ok (mi_player_name m) then None
      else let temp = append_u16 (of_nat (length token)) (append_u64 self_player_id (append_u32 room_id [])) @ token;
               temp = append_u16 (of_nat (length members)) temp
        in Some (fold append_member members temp))"

definition encode_resume_ok ::
  "u32 \<Rightarrow> u64 \<Rightarrow> RoomStates \<Rightarrow> u64 \<Rightarrow> MemberInfo list \<Rightarrow> PlayerGameState list \<Rightarrow> bytes option" where
  "encode_resume_ok room_id self_player_id room_state tick_id members states =
     (if length members > UINT16_MAX \<or> length states > UINT16_MAX then None
      else if \<exists>m\<in>set members. \<not> name_ok (mi_player_name m) then None
      else if \<exists>s\<in>set states. pgs_player_id s = 0 then None
      else let temp = append_u16 (of_nat (room_state_value room_state)) (append_u64 self_player_id (append_u32 room_id []));
               temp = append_u16 (of_nat (length members)) (append_u64 tick_id temp);
               temp = fold append_member members temp;
               temp = append_u16 (of_nat (length states)) temp
        in Some (fold append_game_state states temp))"

definition encode_player_joined :: "u32 \<Rightarrow> u64 \<Rightarrow> bytes \<Rightarrow> bytes option" where
  "encode_player_joined room_id player_id player_name =
     (if \<not> name_ok player_name then None
      else Some (append_u16 (of_nat (length player_name)) (append_u64 player_id (append_u32 room_id [])) @ player_name))"

definition encode_leave_ok :: "u32 \<Rightarrow> bytes option" where
  "encode_leave_ok room_id = Some (append_u32 room_id [])"

definition encode_player_left :: "u32 \<Rightarrow> u64 \<Rightarrow> bytes option" where
  "encode_player_left room_id player_id = Some (append_u64 player_id (append_u32 room_id []))"

definition encode_chat_event :: "u32 \<Rightarrow> u64 \<Rightarrow> bytes \<Rightarrow> bytes option" where
  "encode_chat_event room_id player_id message =
     (if message = [] \<or> length message > MAX_CHAT_MESSAGE_SIZE then None
      else Some (append_u16 (of_nat (length message)) (append_u64 player_id (append_u32 room_id [])) @ message))"

definition encode_error :: "MessageType \<Rightarrow> ErrorCode \<Rightarrow> bytes option" where
  "encode_error request_type error_code =
     (if request_type \<in> {mt_join, mt_leave, mt_chat, mt_move, mt_attack, mt_resume}
      then Some (append_u16 (error_code_value error_code) (append_u16 (message_code request_type) []))
      else None)"

definition encode_heartbeat_ack :: "u64 \<Rightarrow> bytes option" where
  "encode_heartbeat_ack seq = Some (append_u64 seq [])"

definition encode_state_snapshot :: "u32 \<Rightarrow> u64 \<Rightarrow> PlayerGameState list \<Rightarrow> bytes option" where
  "encode_state_snapshot room_id tick_id states =
     (if length states > UINT16_MAX then None
      else if \<exists>s\<in>set states. pgs_player_id s = 0 then None
      else Some (fold append_game_state states
             (append_u16 (of_nat (length states)) (append_u64 tick_id (append_u32 room_id [])))))"

section \<open>The appended bytes\<close>

lemma be_write_64_halves:
  "be_write 8 (v :: u64) = be_write 4 (ucast (drop_bit 32 v) :: u32) @ be_write 4 (ucast (v AND 0xFFFFFFFF) :: u32)"
proof -
  have idx: "rev [0..<8] = [7, 6, 5, 4, 3, 2, 1, 0]" "rev [0..<4] = [3, 2, 1, 0 :: nat]"
    by (simp_all add: upt_rec)
  have m: "(0xFFFFFFFF :: u64) = mask 32" by (simp add: mask_eq_exp_minus_1)
  have hi: "(ucast (drop_bit (32 + k) v) :: u8) = ucast (drop_bit k (ucast (drop_bit 32 v) :: u32))"
    if "k \<le> 24" for k
    by (rule bit_word_eqI) (use that in \<open>auto simp: bit_simps ac_simps\<close>)
  have lo: "(ucast (drop_bit k v) :: u8) = ucast (drop_bit k (ucast (v AND mask 32) :: u32))"
    if "k \<le> 24" for k
    by (rule bit_word_eqI) (use that in \<open>auto simp: bit_simps ac_simps\<close>)
  show ?thesis
    unfolding m be_write_def idx
    using hi [of 24] hi [of 16] hi [of 8] hi [of 0] lo [of 24] lo [of 16] lo [of 8] lo [of 0]
    by simp
qed

lemma append_word_eqs [wire_simps]:
  "append_u16 a d = d @ be_write 2 a"
  "append_u32 b d = d @ be_write 4 b"
  "append_u64 c d = d @ be_write 8 c"
  "append_i32 e d = d @ be_write 4 e"
  by (simp_all add: append_u16_def append_u32_def append_i32_def append_u64_def be_write_64_halves)

lemma be_read_64_halves:
  assumes "length h = 4" and "length l = 4"
  shows "be_read (h @ l) = (push_bit 32 (ucast (be_read h :: u32)) OR ucast (be_read l :: u32) :: u64)"
proof (rule bit_word_eqI)
  fix j assume j: "j < LENGTH(64)"
  show "bit (be_read (h @ l) :: u64) j =
      bit (push_bit 32 (ucast (be_read h :: u32)) OR ucast (be_read l :: u32) :: u64) j"
  proof (cases "32 \<le> j")
    case True
    then obtain k where k: "j = 32 + k" by (auto simp: le_iff_add)
    have "(32 + k) div 8 = 4 + k div 8" "(32 + k) mod 8 = k mod 8" by presburger+
    with j assms show ?thesis
      by (simp add: k bit_be_read bit_simps nth_append)
  next
    case False
    with j assms show ?thesis
      by (auto simp: bit_be_read bit_simps nth_append)
  qed
qed

lemma read_word_eqs:
  "read_u16 d n = (if length d < n + 2 then None else Some (be_read (take 2 (drop n d))))"
  "read_u32 d n = (if length d < n + 4 then None else Some (be_read (take 4 (drop n d))))"
  by (auto simp: read_u16_def read_u32_def)

lemma read_i32_eq: "read_i32 d n = read_u32 d n"
proof -
  have "(- 1 - (0xFFFFFFFF - v) :: u32) = v" for v by simp
  then show ?thesis by (simp add: read_i32_def Let_def split: option.split)
qed

lemma read_u64_eq: "read_u64 d n = (if length d < n + 8 then None else Some (be_read (take 8 (drop n d))))"
proof (cases "length d < n + 8")
  case True
  then show ?thesis by (auto simp: read_u64_def)
next
  case False
  have "take 8 (drop n d) = take 4 (drop n d) @ take 4 (drop (n + 4) d)"
    using take_add [of 4 4 "drop n d"] by (simp add: add.commute)
  with False show ?thesis
    by (simp add: read_u64_def read_word_eqs be_read_64_halves)
qed

section \<open>Requests: the decoders accept exactly the documented layouts\<close>

text \<open>Layouts of \<open>docs/protocol.md\<close>, section 3.\<close>

definition join_layout :: "u32 \<Rightarrow> bytes \<Rightarrow> bytes" where
  "join_layout room_id name = be_write 4 room_id @ enc_str16 name"

definition move_layout :: "i32 \<Rightarrow> i32 \<Rightarrow> bytes" where
  "move_layout dx dy = be_write 4 dx @ be_write 4 dy"

lemma read_then_rest:
  assumes "length p - n = unat (be_read (take 2 (drop k p)) :: u16)" and "n = k + 2" and "n \<le> length p"
  shows "p = take k p @ enc_str16 (drop n p)"
proof -
  have "be_write 2 (be_read (take 2 (drop k p)) :: u16) = take 2 (drop k p)"
    by (rule be_write_read) (use assms in simp_all)
  moreover have "of_nat (length (drop n p)) = (be_read (take 2 (drop k p)) :: u16)"
    using assms by simp
  moreover have "p = take k p @ take 2 (drop k p) @ drop n p"
    using assms by (metis append_take_drop_id drop_drop add.commute)
  ultimately show ?thesis by (simp add: enc_str16_def)
qed

lemma decode_join_request_iff:
  "decode_join_request p = Some q \<longleftrightarrow>
     length (jq_player_name q) < 65536 \<and> p = join_layout (jq_room_id q) (jq_player_name q)"
proof
  assume a: "decode_join_request p = Some q"
  then have len: "6 \<le> length p" and r: "jq_room_id q = be_read (take 4 p)"
    and sz: "length p - 6 = unat (be_read (take 2 (drop 4 p)) :: u16)"
    and n: "jq_player_name q = drop 6 p"
    by (auto simp: decode_join_request_def read_word_eqs split: if_splits)
  have w: "be_write 4 (be_read (take 4 p) :: u32) = take 4 p"
    by (rule be_write_read) (use len in simp_all)
  have "p = join_layout (jq_room_id q) (jq_player_name q)"
    unfolding join_layout_def r n w by (rule read_then_rest [OF sz]) (use len in simp_all)
  moreover have "length (jq_player_name q) < 65536"
    using n sz unat_u16_less by simp
  ultimately show "length (jq_player_name q) < 65536 \<and> p = join_layout (jq_room_id q) (jq_player_name q)"
    by simp
next
  assume a: "length (jq_player_name q) < 65536 \<and> p = join_layout (jq_room_id q) (jq_player_name q)"
  then have p: "p = be_write 4 (jq_room_id q) @ be_write 2 (of_nat (length (jq_player_name q)) :: u16) @ jq_player_name q"
    by (simp add: join_layout_def enc_str16_def)
  have "read_u32 p 0 = Some (jq_room_id q)"
    and "read_u16 p 4 = Some (of_nat (length (jq_player_name q)))"
    by (simp_all add: read_word_eqs p)
  moreover have "length p = 6 + length (jq_player_name q)" and "drop 6 p = jq_player_name q"
    by (simp_all add: p)
  ultimately show "decode_join_request p = Some q"
    using a by (simp add: decode_join_request_def unat_of_nat_u16)
qed

lemma decode_chat_request_iff:
  "decode_chat_request p = Some m \<longleftrightarrow> length m < 65536 \<and> p = enc_str16 m"
proof
  assume "decode_chat_request p = Some m"
  then have len: "2 \<le> length p" and sz: "length p - 2 = unat (be_read (take 2 p) :: u16)"
    and m: "m = drop 2 p"
    by (auto simp: decode_chat_request_def read_word_eqs split: if_splits)
  then have "length m < 65536" using unat_u16_less by simp
  moreover have "p = take 0 p @ enc_str16 m"
    unfolding m by (rule read_then_rest) (use sz len in simp_all)
  ultimately show "length m < 65536 \<and> p = enc_str16 m" by simp
qed (simp add: decode_chat_request_def read_word_eqs enc_str16_def unat_of_nat_u16)

lemma decode_resume_request_iff:
  "decode_resume_request p = Some t \<longleftrightarrow> t \<noteq> [] \<and> length t \<le> 128 \<and> p = enc_str16 t"
proof
  assume "decode_resume_request p = Some t"
  then have len: "2 \<le> length p" and sz: "length p - 2 = unat (be_read (take 2 p) :: u16)"
    and t: "t = drop 2 p" and b: "(be_read (take 2 p) :: u16) \<noteq> 0" "unat (be_read (take 2 p) :: u16) \<le> 128"
    by (auto simp: decode_resume_request_def read_word_eqs protocol_sizes split: if_splits)
  moreover have "length t \<noteq> 0" using b(1) sz t by (simp add: unat_eq_zero)
  moreover have "p = take 0 p @ enc_str16 t"
    unfolding t by (rule read_then_rest) (use sz len in simp_all)
  ultimately show "t \<noteq> [] \<and> length t \<le> 128 \<and> p = enc_str16 t" by simp
next
  assume a: "t \<noteq> [] \<and> length t \<le> 128 \<and> p = enc_str16 t"
  then have "unat (of_nat (length t) :: u16) = length t" by (simp add: unat_of_nat_u16)
  moreover from this a have "(of_nat (length t) :: u16) \<noteq> 0" by (auto simp: unat_eq_zero [symmetric])
  ultimately show "decode_resume_request p = Some t"
    using a by (simp add: decode_resume_request_def read_word_eqs enc_str16_def protocol_sizes)
qed

lemma decode_move_request_iff:
  "decode_move_request p = Some q \<longleftrightarrow> p = move_layout (mq_dx q) (mq_dy q)"
proof
  assume "decode_move_request p = Some q"
  then have len: "length p = 8" and q: "mq_dx q = be_read (take 4 p)" "mq_dy q = be_read (drop 4 p)"
    by (auto simp: decode_move_request_def read_i32_eq read_word_eqs split: if_splits)
  have "be_write 4 (be_read (take 4 p) :: u32) = take 4 p" "be_write 4 (be_read (drop 4 p) :: u32) = drop 4 p"
    by (rule be_write_read; simp add: len)+
  then show "p = move_layout (mq_dx q) (mq_dy q)" by (simp add: move_layout_def q)
qed (simp add: decode_move_request_def read_i32_eq read_word_eqs move_layout_def)

lemma decode_u64_iff:
  "(if length p \<noteq> 8 then None else read_u64 p 0) = Some v \<longleftrightarrow> p = be_write 8 v"
  using be_write_read [of p 8, where ?'a = 64] by (auto simp: read_u64_eq)

lemmas decode_attack_request_iff = decode_u64_iff [folded decode_attack_request_def]
lemmas decode_heartbeat_request_iff = decode_u64_iff [folded decode_heartbeat_request_def]

section \<open>Responses: a client reading the documented layout gets the values back\<close>

definition dec_member :: "bytes \<Rightarrow> ((u64 \<times> bytes) \<times> bytes) option" where
  "dec_member = dec_pair (dec_word 8) dec_str16"

definition enc_member :: "u64 \<times> bytes \<Rightarrow> bytes" where
  "enc_member = (\<lambda>(i, n). be_write 8 i @ enc_str16 n)"

definition dec_state :: "bytes \<Rightarrow> ((u64 \<times> i32 \<times> i32 \<times> i32) \<times> bytes) option" where
  "dec_state = dec_pair (dec_word 8) (dec_pair (dec_word 4) (dec_pair (dec_word 4) (dec_word 4)))"

definition enc_state :: "u64 \<times> i32 \<times> i32 \<times> i32 \<Rightarrow> bytes" where
  "enc_state = (\<lambda>(i, x, y, h). be_write 8 i @ be_write 4 x @ be_write 4 y @ be_write 4 h)"

interpretation member_pair: codec_pair "be_write 8 :: u64 \<Rightarrow> bytes" "dec_word 8" "\<lambda>_. True"
  enc_str16 dec_str16 "\<lambda>s. length s < 65536"
  by unfold_locales

interpretation member: canonical_codec enc_member dec_member "\<lambda>(i, n). length n < 65536"
  using member_pair.pair.canonical_codec_axioms by (simp add: enc_member_def dec_member_def)

interpretation members: codec_counted enc_member dec_member "\<lambda>(i, n). length n < 65536"
  by unfold_locales

interpretation state: canonical_codec enc_state dec_state "\<lambda>_. True"
proof
  show "dec_state (enc_state s @ r) = Some (s, r)" for s r
    by (cases s) (simp add: enc_state_def dec_state_def dec_pair_def w64.dec_enc w32.dec_enc)
  show "True \<and> bs = enc_state s @ r" if "dec_state bs = Some (s, r)" for bs s r
    using that by (auto simp: enc_state_def dec_state_def dec_pair_def
        split: option.splits dest!: w64.dec_sound w32.dec_sound)
qed

interpretation states: codec_counted enc_state dec_state "\<lambda>_. True"
  by unfold_locales

definition member_tuple :: "MemberInfo \<Rightarrow> u64 \<times> bytes" where
  "member_tuple m = (mi_player_id m, mi_player_name m)"

definition state_tuple :: "PlayerGameState \<Rightarrow> u64 \<times> i32 \<times> i32 \<times> i32" where
  "state_tuple s = (pgs_player_id s, pgs_x s, pgs_y s, pgs_hp s)"

text \<open>Layouts of \<open>docs/protocol.md\<close>, section 4, as readers of a client.\<close>

definition dec_join_ok :: "bytes \<Rightarrow> ((u32 \<times> u64 \<times> bytes \<times> (u64 \<times> bytes) list) \<times> bytes) option" where
  "dec_join_ok = dec_pair (dec_word 4) (dec_pair (dec_word 8) (dec_pair dec_str16 (dec_counted16 dec_member)))"

definition dec_snapshot :: "bytes \<Rightarrow> ((u32 \<times> u64 \<times> (u64 \<times> i32 \<times> i32 \<times> i32) list) \<times> bytes) option" where
  "dec_snapshot = dec_pair (dec_word 4) (dec_pair (dec_word 8) (dec_counted16 dec_state))"

definition dec_resume_ok ::
  "bytes \<Rightarrow> ((u32 \<times> u64 \<times> u16 \<times> u64 \<times> (u64 \<times> bytes) list \<times> (u64 \<times> i32 \<times> i32 \<times> i32) list) \<times> bytes) option" where
  "dec_resume_ok = dec_pair (dec_word 4) (dec_pair (dec_word 8) (dec_pair (dec_word 2)
     (dec_pair (dec_word 8) (dec_pair (dec_counted16 dec_member) (dec_counted16 dec_state)))))"

definition dec_event :: "bytes \<Rightarrow> ((u32 \<times> u64 \<times> bytes) \<times> bytes) option" where
  "dec_event = dec_pair (dec_word 4) (dec_pair (dec_word 8) dec_str16)"

lemma fold_append_member:
  "fold append_member ms d = d @ concat (map enc_member (map member_tuple ms))"
  by (induction ms arbitrary: d)
    (simp_all add: append_member_def wire_simps enc_member_def member_tuple_def enc_str16_def)

lemma fold_append_game_state:
  "fold append_game_state ss d = d @ concat (map enc_state (map state_tuple ss))"
  by (induction ss arbitrary: d)
    (simp_all add: append_game_state_def wire_simps enc_state_def state_tuple_def)

lemma name_ok_bound: "name_ok n \<Longrightarrow> length n < 65536"
  by (auto simp: name_ok_def protocol_sizes)

lemma encode_join_ok_bytes:
  assumes "encode_join_ok rid pid tok ms = Some p"
  shows "p = be_write 4 rid @ be_write 8 pid @ enc_str16 tok @ enc_counted16 enc_member (map member_tuple ms)"
    and "length tok < 65536" and "length ms < 65536" and "\<forall>m\<in>set ms. length (mi_player_name m) < 65536"
  using assms by (auto simp: encode_join_ok_def Let_def wire_simps fold_append_member enc_str16_def
      enc_counted16_def protocol_sizes comp_def dest: name_ok_bound split: if_splits)

lemma encode_state_snapshot_bytes:
  assumes "encode_state_snapshot rid tid ss = Some p"
  shows "p = be_write 4 rid @ be_write 8 tid @ enc_counted16 enc_state (map state_tuple ss)"
    and "length ss < 65536"
  using assms by (auto simp: encode_state_snapshot_def wire_simps fold_append_game_state
      enc_counted16_def protocol_sizes comp_def split: if_splits)

lemma encode_resume_ok_bytes:
  assumes "encode_resume_ok rid pid st tid ms ss = Some p"
  shows "p = be_write 4 rid @ be_write 8 pid @ be_write 2 (of_nat (room_state_value st) :: u16) @ be_write 8 tid @
      enc_counted16 enc_member (map member_tuple ms) @ enc_counted16 enc_state (map state_tuple ss)"
    and "length ms < 65536" and "\<forall>m\<in>set ms. length (mi_player_name m) < 65536" and "length ss < 65536"
  using assms by (auto simp: encode_resume_ok_def Let_def wire_simps fold_append_member fold_append_game_state
      enc_counted16_def protocol_sizes comp_def dest: name_ok_bound split: if_splits)

lemma members_dec:
  assumes "length ms < 65536" and "\<forall>m\<in>set ms. length (mi_player_name m) < 65536"
  shows "dec_counted16 dec_member (enc_counted16 enc_member (map member_tuple ms) @ r) = Some (map member_tuple ms, r)"
  by (rule members.counted.dec_enc) (use assms in \<open>simp add: list_all_iff member_tuple_def\<close>)

lemma states_dec:
  assumes "length ss < 65536"
  shows "dec_counted16 dec_state (enc_counted16 enc_state (map state_tuple ss) @ r) = Some (map state_tuple ss, r)"
  by (rule states.counted.dec_enc) (use assms in \<open>simp add: list_all_iff\<close>)

section \<open>What a client reads\<close>

lemma join_ok_reads:
  assumes "encode_join_ok rid pid tok ms = Some p"
  shows "dec_join_ok p = Some ((rid, pid, tok, map member_tuple ms), [])"
proof -
  note b = encode_join_ok_bytes [OF assms]
  show ?thesis
    using members_dec [OF b(3,4), of "[]"] b(2)
    by (simp add: b(1) dec_join_ok_def dec_pair_def w32.dec_enc w64.dec_enc str16.dec_enc)
qed

lemma resume_ok_reads:
  assumes "encode_resume_ok rid pid st tid ms ss = Some p"
  shows "dec_resume_ok p = Some ((rid, pid, of_nat (room_state_value st), tid, map member_tuple ms, map state_tuple ss), [])"
proof -
  note b = encode_resume_ok_bytes [OF assms]
  show ?thesis
    using members_dec [OF b(2,3), of "enc_counted16 enc_state (map state_tuple ss)"] states_dec [OF b(4), of "[]"]
    by (simp add: b(1) dec_resume_ok_def dec_pair_def w32.dec_enc w64.dec_enc w16.dec_enc)
qed

lemma snapshot_reads:
  assumes "encode_state_snapshot rid tid ss = Some p"
  shows "dec_snapshot p = Some ((rid, tid, map state_tuple ss), [])"
proof -
  note b = encode_state_snapshot_bytes [OF assms]
  show ?thesis
    using states_dec [OF b(2), of "[]"] by (simp add: b(1) dec_snapshot_def dec_pair_def w32.dec_enc w64.dec_enc)
qed

lemma chat_event_reads:
  assumes "encode_chat_event rid pid msg = Some p"
  shows "dec_event p = Some ((rid, pid, msg), [])"
proof -
  have "p = be_write 4 rid @ be_write 8 pid @ enc_str16 msg" "length msg < 65536"
    using assms by (auto simp: encode_chat_event_def wire_simps enc_str16_def protocol_sizes split: if_splits)
  then show ?thesis by (simp add: dec_event_def dec_pair_def w32.dec_enc w64.dec_enc str16.dec_enc_all)
qed

lemma player_joined_reads:
  assumes "encode_player_joined rid pid name = Some p"
  shows "dec_event p = Some ((rid, pid, name), [])"
proof -
  have "p = be_write 4 rid @ be_write 8 pid @ enc_str16 name" "length name < 65536"
    using assms by (auto simp: encode_player_joined_def wire_simps enc_str16_def dest: name_ok_bound split: if_splits)
  then show ?thesis by (simp add: dec_event_def dec_pair_def w32.dec_enc w64.dec_enc str16.dec_enc_all)
qed

lemma player_left_reads:
  "encode_player_left rid pid = Some p \<Longrightarrow> dec_pair (dec_word 4) (dec_word 8) p = Some ((rid, pid), [])"
  by (auto simp: encode_player_left_def wire_simps dec_pair_def w32.dec_enc w64.dec_enc_all)

lemma leave_ok_reads: "encode_leave_ok rid = Some p \<Longrightarrow> dec_word 4 p = Some (rid, [])"
  by (auto simp: encode_leave_ok_def wire_simps w32.dec_enc_all)

lemma heartbeat_ack_reads: "encode_heartbeat_ack seq = Some p \<Longrightarrow> dec_word 8 p = Some (seq, [])"
  by (auto simp: encode_heartbeat_ack_def wire_simps w64.dec_enc_all)

lemma error_reads:
  "encode_error mt ec = Some p \<Longrightarrow>
   dec_pair (dec_word 2) (dec_word 2) p = Some ((message_code mt, error_code_value ec), [])"
  by (auto simp: encode_error_def wire_simps dec_pair_def w16.dec_enc w16.dec_enc_all split: if_splits)

lemmas responses_read = join_ok_reads resume_ok_reads snapshot_reads chat_event_reads player_joined_reads player_left_reads
  leave_ok_reads heartbeat_ack_reads error_reads

section \<open>Properties\<close>

text \<open>C26: each request decoder accepts exactly the payloads of the documented layout and
  returns the values they carry: room id, 16-bit length and name for a join; a length-prefixed
  message for a chat; two signed 32-bit steps for a move; a 64-bit id for an attack or a
  heartbeat; a nonempty token of at most 128 bytes for a resume; nothing for a leave. In
  particular a truncated payload, a wrong inner length and trailing bytes are all refused.\<close>

theorem requests_decode_exactly_their_layout:
  "(decode_join_request p = Some q \<longleftrightarrow>
      length (jq_player_name q) < 65536 \<and> p = be_write 4 (jq_room_id q) @ enc_str16 (jq_player_name q)) \<and>
   (decode_chat_request p = Some m \<longleftrightarrow> length m < 65536 \<and> p = enc_str16 m) \<and>
   (decode_move_request p = Some mv \<longleftrightarrow> p = be_write 4 (mq_dx mv) @ be_write 4 (mq_dy mv)) \<and>
   (decode_attack_request p = Some v \<longleftrightarrow> p = be_write 8 v) \<and>
   (decode_heartbeat_request p = Some v \<longleftrightarrow> p = be_write 8 v) \<and>
   (decode_resume_request p = Some t \<longleftrightarrow> t \<noteq> [] \<and> length t \<le> 128 \<and> p = enc_str16 t) \<and>
   (decode_leave_request p \<longleftrightarrow> p = [])"
  by (simp only: decode_join_request_iff decode_chat_request_iff decode_move_request_iff
      decode_attack_request_iff decode_heartbeat_request_iff decode_resume_request_iff
      decode_leave_request_def join_layout_def move_layout_def simp_thms)

text \<open>C27: whatever response or event the server encodes, a client that reads the documented
  layout gets back exactly the values that were encoded, with nothing left over: the join
  confirmation with its token and member list, the resume confirmation with members and game
  states, the state snapshot, chat and player-joined events, and error replies.\<close>

theorem responses_read_back:
  "(encode_join_ok rid pid tok ms = Some p \<longrightarrow> dec_join_ok p = Some ((rid, pid, tok, map member_tuple ms), [])) \<and>
   (encode_resume_ok rid pid st tid ms ss = Some p \<longrightarrow> dec_resume_ok p =
      Some ((rid, pid, of_nat (room_state_value st), tid, map member_tuple ms, map state_tuple ss), [])) \<and>
   (encode_state_snapshot rid tid ss = Some p \<longrightarrow> dec_snapshot p = Some ((rid, tid, map state_tuple ss), [])) \<and>
   (encode_chat_event rid pid msg = Some p \<longrightarrow> dec_event p = Some ((rid, pid, msg), [])) \<and>
   (encode_player_joined rid pid name = Some p \<longrightarrow> dec_event p = Some ((rid, pid, name), [])) \<and>
   (encode_player_left rid pid = Some p \<longrightarrow> dec_pair (dec_word 4) (dec_word 8) p = Some ((rid, pid), [])) \<and>
   (encode_error mt ec = Some p \<longrightarrow>
      dec_pair (dec_word 2) (dec_word 2) p = Some ((message_code mt, error_code_value ec), []))"
  by (simp add: responses_read)

theorem responses_read_back_witness:
  "dec_event (be_write 4 (9 :: u32) @ be_write 8 (7 :: u64) @ enc_str16 [104, 105]) = Some ((9, 7, [104, 105]), [])"
proof -
  have "encode_chat_event 9 7 [104, 105] = Some (be_write 4 (9 :: u32) @ be_write 8 (7 :: u64) @ enc_str16 [104, 105])"
    by (simp add: encode_chat_event_def wire_simps enc_str16_def protocol_sizes)
  then show ?thesis using responses_read_back by blast
qed

end
