(* ===== verification/Checkpoint.thy ===== *)
theory Checkpoint
  imports Protocol
begin

text \<open>
  The persisted data (\<open>include/checkpoint.h\<close>): what survives a restart. Connections, pending
  commands and bindings are not part of it.
\<close>

record CheckpointMember =
  cm_player_id :: u64
  cm_player_name :: bytes

record RoomCheckpoint =
  rc_room_id :: u32
  rc_capacity :: u64
  rc_next_player_id :: u64
  rc_state :: RoomStates
  rc_tick_id :: u64
  rc_members :: "CheckpointMember list"
  rc_game_states :: "PlayerGameState list"

record SessionCheckpoint =
  sc_token :: bytes
  sc_room_id :: u32
  sc_player_id :: u64

record ServerCheckpoint =
  sv_generation :: u64
  sv_rooms :: "RoomCheckpoint list"
  sv_sessions :: "SessionCheckpoint list"

end
