(* ===== verification/Room.thy ===== *)
theory Room
  imports Checkpoint
begin

text \<open>
  \<open>Room\<close> (\<open>src/room.cpp\<close>): members, state machine, pending commands and authoritative
  game state of one room. A \<open>Connection::ConnectionPtr\<close> is a \<open>conn option\<close> (\<open>None\<close> is the
  null pointer), where \<open>conn\<close> names the connection object; a member's \<open>weak_ptr\<close> is a
  \<open>conn option\<close> that \<open>weak_lock\<close> resolves against the set of objects still alive.
\<close>

type_synonym conn = nat

definition weak_lock :: "(conn \<Rightarrow> bool) \<Rightarrow> conn option \<Rightarrow> conn option" where
  "weak_lock alive w = (case w of None \<Rightarrow> None | Some c \<Rightarrow> if alive c then Some c else None)"

datatype Gamecommand = Movecommand u64 i32 i32 | Attackcommand u64 u64

fun command_player :: "Gamecommand \<Rightarrow> u64" where
  "command_player (Movecommand player_id dx dy) = player_id"
| "command_player (Attackcommand player_id target_player_id) = player_id"

record Member =
  m_player_id :: u64
  m_player_name :: bytes
  m_connection :: "conn option"

record Room =
  r_id :: u32
  r_capacity :: u64
  r_next_player_id :: u64
  r_machine :: Roomstatemachine
  r_game :: Gamestate
  r_tick_id :: u64
  r_members :: "(u64, Member) umap"
  r_pending :: "Gamecommand list"

datatype Joinstates =
    js_success | js_invalid_connection | js_invalid_player_name | js_invalid_state
  | js_room_full | js_player_id_exhausted

datatype Commandstates = cs_success | cs_invalid_state | cs_player_not_found | cs_already_submitted

datatype RoomBindingstates =
    rb_success | rb_invalid_connection | rb_player_not_found | rb_already_bound
  | rb_not_bound | rb_connection_mismatch

datatype Tickstates = ts_success | ts_invalid_state

record RoomJoinResult =
  rj_state :: Joinstates
  rj_player_id :: u64
  rj_members :: "MemberInfo list"

record RoomTickResult =
  rt_state :: Tickstates
  rt_tick_id :: u64
  rt_processed_commands :: nat
  rt_successful_commands :: nat
  rt_snapshot :: "PlayerGameState list"

section \<open>Operations\<close>

definition Room_new :: "u32 \<Rightarrow> u64 \<Rightarrow> Room" where
  "Room_new room_id capacity =
     \<lparr>r_id = room_id, r_capacity = capacity, r_next_player_id = 1, r_machine = Roomstatemachine_new,
      r_game = Gamestate_new, r_tick_id = 0, r_members = [], r_pending = []\<rparr>"

definition member_count :: "Room \<Rightarrow> nat" where
  "member_count r = length (r_members r)"

definition room_state :: "Room \<Rightarrow> RoomStates" where
  "room_state r = rsm_state (r_machine r)"

definition room_start :: "bool \<Rightarrow> Room \<Rightarrow> Transitionstates \<times> Room" where
  "room_start ready_to_start r =
     (if rsm_state (r_machine r) \<noteq> waiting then (tr_invalid_state, r)
      else if \<not> ready_to_start then (tr_condition_not_met, r)
      else let player_ids = map (\<lambda>(k, user). m_player_id user) (r_members r) in
        case initialize player_ids Gamestate_new of
          (st, temp_state) \<Rightarrow>
            if st \<noteq> gs_success then (tr_condition_not_met, r)
            else (tr_success, r\<lparr>r_machine := snd (rsm_start True (r_machine r)), r_game := temp_state,
                                r_tick_id := 0, r_pending := []\<rparr>))"

definition room_finish :: "bool \<Rightarrow> Room \<Rightarrow> Transitionstates \<times> Room" where
  "room_finish should_finish r =
     (if rsm_state (r_machine r) \<noteq> running then (tr_invalid_state, r)
      else if \<not> should_finish then (tr_condition_not_met, r)
      else case rsm_finish should_finish (r_machine r) of
        (st, m) \<Rightarrow>
          if st \<noteq> tr_success then (tr_invalid_state, r\<lparr>r_machine := m\<rparr>)
          else (tr_success, r\<lparr>r_machine := m, r_pending := []\<rparr>))"

definition pending_command_count :: "Room \<Rightarrow> nat" where
  "pending_command_count r = length (r_pending r)"

definition game_snapshot :: "Room \<Rightarrow> PlayerGameState list" where
  "game_snapshot r = snapshot (r_game r)"

definition room_contains :: "u64 \<Rightarrow> Room \<Rightarrow> bool" where
  "room_contains player_id r \<longleftrightarrow> um_find player_id (r_members r) \<noteq> None"

definition room_join :: "conn option \<Rightarrow> bytes \<Rightarrow> Room \<Rightarrow> RoomJoinResult \<times> Room" where
  "room_join connection player_name r =
     (let failed = (\<lambda>st. \<lparr>rj_state = st, rj_player_id = 0, rj_members = []\<rparr>) in
      if connection = None then (failed js_invalid_connection, r)
      else if player_name = [] \<or> length player_name > MAX_PLAYER_NAME_SIZE then (failed js_invalid_player_name, r)
      else if \<not> can_join (r_machine r) then (failed js_invalid_state, r)
      else if length (r_members r) \<ge> unat (r_capacity r) then (failed js_room_full, r)
      else if r_next_player_id r = 0 then (failed js_player_id_exhausted, r)
      else let members = map (\<lambda>(k, user). \<lparr>mi_player_id = m_player_id user, mi_player_name = m_player_name user\<rparr>) (r_members r);
               player_id = r_next_player_id r
        in (\<lparr>rj_state = js_success, rj_player_id = player_id, rj_members = members\<rparr>,
            r\<lparr>r_members := um_emplace player_id
                  \<lparr>m_player_id = player_id, m_player_name = player_name, m_connection = connection\<rparr> (r_members r),
              r_next_player_id := r_next_player_id r + 1\<rparr>))"

definition room_leave :: "u64 \<Rightarrow> Room \<Rightarrow> bool \<times> Room" where
  "room_leave player_id r =
     (if um_find player_id (r_members r) = None then (False, r)
      else if rsm_state (r_machine r) \<noteq> waiting then
        (case remove_player player_id (r_game r) of
           (st, g) \<Rightarrow>
             if st \<noteq> gs_success then (False, r\<lparr>r_game := g\<rparr>)
             else (True, r\<lparr>r_game := g, r_members := um_erase player_id (r_members r)\<rparr>))
      else (True, r\<lparr>r_members := um_erase player_id (r_members r)\<rparr>))"

definition room_connections :: "(conn \<Rightarrow> bool) \<Rightarrow> u64 \<Rightarrow> Room \<Rightarrow> conn list" where
  "room_connections alive excluded_player_id r =
     concat (map (\<lambda>(k, m). if k = excluded_player_id then []
                   else case weak_lock alive (m_connection m) of None \<Rightarrow> [] | Some c \<Rightarrow> [c]) (r_members r))"

definition has_pending_command :: "u64 \<Rightarrow> Room \<Rightarrow> bool" where
  "has_pending_command player_id r \<longleftrightarrow> find (\<lambda>c. command_player c = player_id) (r_pending r) \<noteq> None"

definition submit_move :: "u64 \<Rightarrow> i32 \<Rightarrow> i32 \<Rightarrow> Room \<Rightarrow> Commandstates \<times> Room" where
  "submit_move player_id dx dy r =
     (if rsm_state (r_machine r) \<noteq> running then (cs_invalid_state, r)
      else if \<not> room_contains player_id r then (cs_player_not_found, r)
      else if has_pending_command player_id r then (cs_already_submitted, r)
      else (cs_success, r\<lparr>r_pending := r_pending r @ [Movecommand player_id dx dy]\<rparr>))"

definition submit_attack :: "u64 \<Rightarrow> u64 \<Rightarrow> Room \<Rightarrow> Commandstates \<times> Room" where
  "submit_attack player_id target_player_id r =
     (if rsm_state (r_machine r) \<noteq> running then (cs_invalid_state, r)
      else if \<not> room_contains player_id r then (cs_player_not_found, r)
      else if has_pending_command player_id r then (cs_already_submitted, r)
      else (cs_success, r\<lparr>r_pending := r_pending r @ [Attackcommand player_id target_player_id]\<rparr>))"

definition take_pending_commands :: "Room \<Rightarrow> Gamecommand list \<times> Room" where
  "take_pending_commands r = (r_pending r, r\<lparr>r_pending := []\<rparr>)"

fun process_command :: "Gamecommand \<Rightarrow> Gamestate \<Rightarrow> bool \<times> Gamestate" where
  "process_command (Movecommand player_id dx dy) g =
     (case move_player player_id dx dy g of (st, g') \<Rightarrow> (st = gs_success, g'))"
| "process_command (Attackcommand player_id target_player_id) g =
     (case attack_player player_id target_player_id g of (res, g') \<Rightarrow> (ar_state res = gs_success, g'))"

fun process_commands :: "Gamecommand list \<Rightarrow> nat \<Rightarrow> Gamestate \<Rightarrow> nat \<times> Gamestate" where
  "process_commands [] pos g = (pos, g)"
| "process_commands (c # cs) pos g =
     (case process_command c g of (ok, g') \<Rightarrow> process_commands cs (if ok then Suc pos else pos) g')"

definition room_tick :: "Room \<Rightarrow> RoomTickResult \<times> Room" where
  "room_tick r =
     (if rsm_state (r_machine r) \<noteq> running then
        (\<lparr>rt_state = ts_invalid_state, rt_tick_id = r_tick_id r, rt_processed_commands = 0,
          rt_successful_commands = 0, rt_snapshot = []\<rparr>, r)
      else case take_pending_commands r of
        (commands, r1) \<Rightarrow>
          (case process_commands commands 0 (r_game r1) of
             (pos, g) \<Rightarrow>
               let r2 = r1\<lparr>r_game := g, r_tick_id := r_tick_id r1 + 1\<rparr> in
               (\<lparr>rt_state = ts_success, rt_tick_id = r_tick_id r2, rt_processed_commands = length commands,
                 rt_successful_commands = pos, rt_snapshot = snapshot (r_game r2)\<rparr>, r2)))"

definition member_snapshot :: "Room \<Rightarrow> MemberInfo list" where
  "member_snapshot r = sort_key mi_player_id
     (map (\<lambda>(k, user). \<lparr>mi_player_id = m_player_id user, mi_player_name = m_player_name user\<rparr>) (r_members r))"

definition room_bind_connection ::
  "(conn \<Rightarrow> bool) \<Rightarrow> u64 \<Rightarrow> conn option \<Rightarrow> Room \<Rightarrow> RoomBindingstates \<times> Room" where
  "room_bind_connection alive player_id connection r =
     (if connection = None then (rb_invalid_connection, r)
      else case um_find player_id (r_members r) of
        None \<Rightarrow> (rb_player_not_found, r)
      | Some m \<Rightarrow>
          if weak_lock alive (m_connection m) \<noteq> None then (rb_already_bound, r)
          else (rb_success, r\<lparr>r_members := um_assign player_id (m\<lparr>m_connection := connection\<rparr>) (r_members r)\<rparr>))"

definition room_detach_connection ::
  "(conn \<Rightarrow> bool) \<Rightarrow> u64 \<Rightarrow> conn option \<Rightarrow> Room \<Rightarrow> RoomBindingstates \<times> Room" where
  "room_detach_connection alive player_id connection r =
     (if connection = None then (rb_invalid_connection, r)
      else case um_find player_id (r_members r) of
        None \<Rightarrow> (rb_player_not_found, r)
      | Some m \<Rightarrow>
          (case weak_lock alive (m_connection m) of
             None \<Rightarrow> (rb_not_bound, r)
           | Some existing \<Rightarrow>
               if Some existing \<noteq> connection then (rb_connection_mismatch, r)
               else (rb_success, r\<lparr>r_members := um_assign player_id (m\<lparr>m_connection := None\<rparr>) (r_members r)\<rparr>)))"

definition room_make_checkpoint :: "Room \<Rightarrow> RoomCheckpoint" where
  "room_make_checkpoint r =
     \<lparr>rc_room_id = r_id r, rc_capacity = r_capacity r, rc_next_player_id = r_next_player_id r,
      rc_state = rsm_state (r_machine r), rc_tick_id = r_tick_id r,
      rc_members = sort_key cm_player_id
        (map (\<lambda>(k, member). \<lparr>cm_player_id = m_player_id member, cm_player_name = m_player_name member\<rparr>) (r_members r)),
      rc_game_states = snapshot (r_game r)\<rparr>"

fun restore_members :: "CheckpointMember list \<Rightarrow> (u64, Member) umap \<Rightarrow> (u64, Member) umap option" where
  "restore_members [] temp_members = Some temp_members"
| "restore_members (m # ms) temp_members =
     (if cm_player_id m = 0 then None
      else if um_find (cm_player_id m) temp_members \<noteq> None then None
      else if cm_player_name m = [] \<or> length (cm_player_name m) > MAX_PLAYER_NAME_SIZE then None
      else restore_members ms (um_emplace (cm_player_id m)
             \<lparr>m_player_id = cm_player_id m, m_player_name = cm_player_name m, m_connection = None\<rparr> temp_members))"

definition restore_machine :: "RoomCheckpoint \<Rightarrow> Roomstatemachine option" where
  "restore_machine checkpoint =
     (case rc_state checkpoint of
        waiting \<Rightarrow>
          if rc_tick_id checkpoint \<noteq> 0 then None
          else if rc_game_states checkpoint \<noteq> [] then None
          else Some Roomstatemachine_new
      | running \<Rightarrow>
          (case rsm_start True Roomstatemachine_new of
             (st, m) \<Rightarrow> if st \<noteq> tr_success then None else Some m)
      | finished \<Rightarrow>
          (case rsm_start True Roomstatemachine_new of
             (st, m) \<Rightarrow> if st \<noteq> tr_success then None
               else (case rsm_finish True m of (st', m') \<Rightarrow> if st' \<noteq> tr_success then None else Some m')))"

definition room_restore_checkpoint :: "RoomCheckpoint \<Rightarrow> Room \<Rightarrow> bool \<times> Room" where
  "room_restore_checkpoint checkpoint r =
     (if rc_room_id checkpoint \<noteq> r_id r then (False, r)
      else if rc_capacity checkpoint \<noteq> r_capacity r then (False, r)
      else if length (rc_members checkpoint) > unat (r_capacity r) then (False, r)
      else case restore_members (rc_members checkpoint) [] of
        None \<Rightarrow> (False, r)
      | Some temp_members \<Rightarrow>
        if rc_next_player_id checkpoint \<noteq> 0 \<and>
           (\<exists>(k, m)\<in>set temp_members. rc_next_player_id checkpoint \<le> k) then (False, r)
        else case restore_machine checkpoint of
          None \<Rightarrow> (False, r)
        | Some temp_state_machine \<Rightarrow>
          if (rc_state checkpoint = running \<or> rc_state checkpoint = finished) \<and>
             (length (rc_game_states checkpoint) \<noteq> length temp_members \<or>
              (\<exists>s\<in>set (rc_game_states checkpoint). um_find (pgs_player_id s) temp_members = None)) then (False, r)
          else case gs_restore (rc_game_states checkpoint) Gamestate_new of
            (ok, temp_game_state) \<Rightarrow>
              if \<not> ok then (False, r)
              else (True, r\<lparr>r_members := temp_members, r_game := temp_game_state,
                    r_machine := temp_state_machine, r_next_player_id := rc_next_player_id checkpoint,
                    r_tick_id := rc_tick_id checkpoint, r_pending := []\<rparr>))"

end
