(* ===== verification/Room_Laws.thy ===== *)
theory Room_Laws
  imports Room
begin

text \<open>
  What a room keeps true. \<open>room_inv\<close> ties the member table, the authoritative game state,
  the phase, the pending commands and the next player id together; every operation keeps it
  (\<open>exec_room\<close> runs one operation), so every reachable room satisfies it.
\<close>

definition member_ok :: "u64 \<Rightarrow> Member \<Rightarrow> bool" where
  "member_ok k m \<longleftrightarrow> m_player_id m = k \<and> k \<noteq> 0 \<and> name_ok (m_player_name m)"

definition members_inv :: "Room \<Rightarrow> bool" where
  "members_inv r \<longleftrightarrow> um_wf (r_members r) \<and>
     (\<forall>k m. um_find k (r_members r) = Some m \<longrightarrow> member_ok k m) \<and>
     length (r_members r) \<le> unat (r_capacity r) \<and>
     (r_next_player_id r = 0 \<or> (\<forall>k. um_find k (r_members r) \<noteq> None \<longrightarrow> k < r_next_player_id r))"

definition game_inv :: "Room \<Rightarrow> bool" where
  "game_inv r \<longleftrightarrow> gs_inv (r_game r) \<and>
     (room_state r = waiting \<longrightarrow> r_game r = [] \<and> r_tick_id r = 0) \<and>
     (room_state r \<noteq> waiting \<longrightarrow> (\<forall>k. um_find k (r_game r) = None \<longleftrightarrow> um_find k (r_members r) = None))"

definition pending_inv :: "Room \<Rightarrow> bool" where
  "pending_inv r \<longleftrightarrow> distinct (map command_player (r_pending r)) \<and> (room_state r \<noteq> running \<longrightarrow> r_pending r = [])"

definition room_inv :: "Room \<Rightarrow> bool" where
  "room_inv r \<longleftrightarrow> members_inv r \<and> game_inv r \<and> pending_inv r"

lemmas room_inv_defs = room_inv_def members_inv_def game_inv_def pending_inv_def room_state_def

datatype room_op =
    RStart bool | RFinish bool | RJoin "conn option" bytes | RLeave u64
  | RMove u64 i32 i32 | RAttack u64 u64 | RTick
  | RBind u64 "conn option" | RDetach u64 "conn option" | RRestore RoomCheckpoint

fun exec_room :: "(conn \<Rightarrow> bool) \<Rightarrow> room_op \<Rightarrow> Room \<Rightarrow> Room" where
  "exec_room alive (RStart b) r = snd (room_start b r)"
| "exec_room alive (RFinish b) r = snd (room_finish b r)"
| "exec_room alive (RJoin c n) r = snd (room_join c n r)"
| "exec_room alive (RLeave p) r = snd (room_leave p r)"
| "exec_room alive (RMove p dx dy) r = snd (submit_move p dx dy r)"
| "exec_room alive (RAttack p t) r = snd (submit_attack p t r)"
| "exec_room alive RTick r = snd (room_tick r)"
| "exec_room alive (RBind p c) r = snd (room_bind_connection alive p c r)"
| "exec_room alive (RDetach p c) r = snd (room_detach_connection alive p c r)"
| "exec_room alive (RRestore cp) r = snd (room_restore_checkpoint cp r)"

lemma gs_inv_Nil [simp]: "gs_inv []"
  by (simp add: gs_inv_def)

lemma hp_tens_Nil [simp]: "hp_tens []"
  by (simp add: hp_tens_def)

section \<open>Member table\<close>

lemma keyed_players: "members_inv r \<Longrightarrow> map (\<lambda>(k, m). m_player_id m) (r_members r) = map fst (r_members r)"
proof -
  assume inv: "members_inv r"
  have "m_player_id m = k" if "(k, m) \<in> set (r_members r)" for k m
    using inv that um_entries_find [of "r_members r" k m] by (auto simp: members_inv_def member_ok_def)
  then show ?thesis by auto
qed

lemma distinct_keys: "members_inv r \<Longrightarrow> distinct (map fst (r_members r))"
  by (simp add: members_inv_def um_wf_def)

lemma next_id_fresh:
  assumes "members_inv r" and "r_next_player_id r \<noteq> 0"
  shows "um_find (r_next_player_id r) (r_members r) = None"
  using assms by (auto simp: members_inv_def)

lemma less_Suc_word:
  assumes "(k :: u64) < n"
  shows "n + 1 = 0 \<or> k < n + 1"
proof (cases "n + 1 = 0")
  case False
  then have "unat (n + 1) = Suc (unat n)" using unatSuc [of n] by (simp add: add.commute)
  then show ?thesis using assms by (simp add: word_less_nat_alt)
qed simp

lemma Suc_word_greater: "(n :: u64) + 1 = 0 \<or> n < n + 1"
proof (cases "n + 1 = 0")
  case False
  then have "unat (n + 1) = Suc (unat n)" using unatSuc [of n] by (simp add: add.commute)
  then show ?thesis by (simp add: word_less_nat_alt)
qed simp

lemma members_inv_assign:
  assumes "members_inv r" and "um_find k (r_members r) = Some m" and "member_ok k m'"
    and "r' = r\<lparr>r_members := um_assign k m' (r_members r)\<rparr>"
  shows "members_inv r'"
  using assms um.size_assign [of "r_members r" k m']
  by (auto simp: members_inv_def)

lemma room_join_cases:
  "(snd (room_join c n r) = r \<and> rj_state (fst (room_join c n r)) \<noteq> js_success) \<or>
   (c \<noteq> None \<and> name_ok n \<and> room_state r = waiting \<and> length (r_members r) < unat (r_capacity r) \<and>
    r_next_player_id r \<noteq> 0 \<and>
    rj_state (fst (room_join c n r)) = js_success \<and> rj_player_id (fst (room_join c n r)) = r_next_player_id r \<and>
    snd (room_join c n r) = r\<lparr>r_members := um_emplace (r_next_player_id r)
        \<lparr>m_player_id = r_next_player_id r, m_player_name = n, m_connection = c\<rparr> (r_members r),
      r_next_player_id := r_next_player_id r + 1\<rparr>)"
  by (auto simp: room_join_def Let_def name_ok_def can_join_def room_state_def not_less not_le)

lemma room_join_inv:
  assumes "room_inv r"
  shows "room_inv (snd (room_join c n r))"
proof (cases "snd (room_join c n r) = r")
  case True
  then show ?thesis using assms by simp
next
  case False
  let ?i = "r_next_player_id r"
  let ?m = "\<lparr>m_player_id = ?i, m_player_name = n, m_connection = c\<rparr>"
  let ?r = "r\<lparr>r_members := um_emplace ?i ?m (r_members r), r_next_player_id := ?i + 1\<rparr>"
  have c: "name_ok n" "room_state r = waiting" "length (r_members r) < unat (r_capacity r)" "?i \<noteq> 0"
    and r': "snd (room_join c n r) = ?r"
    using room_join_cases [of c n r] False by auto
  have mi: "members_inv r" using assms by (simp add: room_inv_def)
  have fresh: "um_find ?i (r_members r) = None" using next_id_fresh [OF mi c(4)] .
  have wf: "um_wf (r_members r)" using mi by (simp add: members_inv_def)
  have "?i + 1 = 0 \<or> k < ?i + 1" if "um_find k (um_emplace ?i ?m (r_members r)) \<noteq> None" for k
    using that mi c(4) less_Suc_word [of k ?i] Suc_word_greater [of ?i]
    by (auto simp: members_inv_def fresh split: if_splits)
  then have "members_inv ?r"
    using mi c fresh wf um.size_emplace [OF wf, of ?i ?m]
    by (auto simp: members_inv_def member_ok_def)
  moreover have "game_inv ?r \<and> pending_inv ?r"
    using assms c(2) by (simp add: room_inv_defs)
  ultimately show ?thesis by (simp add: r' room_inv_def)
qed

section \<open>Starting, finishing, leaving\<close>

lemma room_start_cases:
  "(snd (room_start b r) = r \<and> fst (room_start b r) \<noteq> tr_success) \<or>
   (b \<and> room_state r = waiting \<and> fst (room_start b r) = tr_success \<and>
    (\<exists>g. initialize (map (\<lambda>(k, m). m_player_id m) (r_members r)) Gamestate_new = (gs_success, g) \<and>
      snd (room_start b r) = r\<lparr>r_machine := \<lparr>rsm_state = running\<rparr>, r_game := g, r_tick_id := 0, r_pending := []\<rparr>))"
  by (cases "initialize (map (\<lambda>(k, m). m_player_id m) (r_members r)) Gamestate_new"; cases "r_machine r")
    (auto simp: room_start_def Let_def room_state_def rsm_start_def)

lemma room_start_inv:
  assumes "room_inv r"
  shows "room_inv (snd (room_start b r))"
proof (cases "snd (room_start b r) = r")
  case True
  then show ?thesis using assms by simp
next
  case False
  then obtain g where g: "initialize (map (\<lambda>(k, m). m_player_id m) (r_members r)) Gamestate_new = (gs_success, g)"
    and r': "snd (room_start b r) = r\<lparr>r_machine := \<lparr>rsm_state = running\<rparr>, r_game := g, r_tick_id := 0, r_pending := []\<rparr>"
    using room_start_cases [of b r] by auto
  have mi: "members_inv r" using assms by (simp add: room_inv_def)
  have keys: "um_find k g \<noteq> None \<longleftrightarrow> um_find k (r_members r) \<noteq> None" for k
    using initialize_inv [OF g] um_find_None_iff [of k "r_members r"]
    by (simp add: keyed_players [OF mi])
  then have "um_find k g = None \<longleftrightarrow> um_find k (r_members r) = None" for k
    by blast
  then show ?thesis
    using initialize_inv [OF g] assms mi by (simp add: r' room_inv_defs)
qed

lemma room_finish_cases:
  "(snd (room_finish b r) = r \<and> fst (room_finish b r) \<noteq> tr_success) \<or>
   (b \<and> room_state r = running \<and> fst (room_finish b r) = tr_success \<and>
    snd (room_finish b r) = r\<lparr>r_machine := \<lparr>rsm_state = finished\<rparr>, r_pending := []\<rparr>)"
  by (cases "r_machine r") (auto simp: room_finish_def room_state_def rsm_finish_def)

lemma room_finish_inv:
  assumes "room_inv r"
  shows "room_inv (snd (room_finish b r))"
  using room_finish_cases [of b r] assms by (auto simp: room_inv_defs)

lemma remove_player_known:
  assumes "gs_inv g" and "um_find p g \<noteq> None"
  shows "remove_player p g = (gs_success, um_erase p g)"
  using assms gs_inv_find [OF assms(1), of p] by (auto simp: remove_player_def player_ok_def)

lemma room_leave_known:
  assumes "room_inv r" and "room_contains p r"
  shows "room_leave p r = (True, r\<lparr>r_members := um_erase p (r_members r), r_game := um_erase p (r_game r)\<rparr>)"
proof (cases "room_state r = waiting")
  case True
  then have "r_game r = []" using assms(1) by (simp add: room_inv_defs)
  then show ?thesis
    using True assms by (simp add: room_leave_def room_state_def room_contains_def um_erase_def)
next
  case False
  then have "remove_player p (r_game r) = (gs_success, um_erase p (r_game r))"
    using assms by (intro remove_player_known) (auto simp: room_inv_defs room_contains_def)
  then show ?thesis
    using False assms(2) by (simp add: room_leave_def room_state_def room_contains_def)
qed

lemma room_leave_unknown: "\<not> room_contains p r \<Longrightarrow> room_leave p r = (False, r)"
  by (simp add: room_leave_def room_contains_def)

lemma room_leave_inv:
  assumes "room_inv r"
  shows "room_inv (snd (room_leave p r))"
proof (cases "room_contains p r")
  case True
  have "length (um_erase p (r_members r)) \<le> length (r_members r)"
    and "length (um_erase p (r_game r)) \<le> length (r_game r)"
    by (rule um.size_erase_le; use assms in \<open>simp add: room_inv_defs gs_inv_def\<close>)+
  moreover have "um_erase p [] = ([] :: Gamestate)" by (simp add: um_erase_def)
  ultimately have "members_inv (r\<lparr>r_members := um_erase p (r_members r), r_game := um_erase p (r_game r)\<rparr>)"
    and "game_inv (r\<lparr>r_members := um_erase p (r_members r), r_game := um_erase p (r_game r)\<rparr>)"
    using assms by (auto simp: room_inv_def members_inv_def game_inv_def gs_inv_def room_state_def)
  moreover have "pending_inv (r\<lparr>r_members := um_erase p (r_members r), r_game := um_erase p (r_game r)\<rparr>)"
    using assms by (simp add: room_inv_def pending_inv_def room_state_def)
  ultimately show ?thesis
    by (simp add: room_leave_known [OF assms True] room_inv_def)
qed (use assms in \<open>simp add: room_leave_unknown\<close>)

section \<open>Commands and ticks\<close>

lemma has_pending_iff: "has_pending_command p r \<longleftrightarrow> p \<in> command_player ` set (r_pending r)"
  by (auto simp: has_pending_command_def find_None_iff)

lemma submit_move_inv: "room_inv r \<Longrightarrow> room_inv (snd (submit_move p dx dy r))"
  by (auto simp: submit_move_def room_inv_defs has_pending_iff)

lemma submit_attack_inv: "room_inv r \<Longrightarrow> room_inv (snd (submit_attack p t r))"
  by (auto simp: submit_attack_def room_inv_defs has_pending_iff)

lemma snd_process_command:
  "snd (process_command (Movecommand p dx dy) g) = snd (move_player p dx dy g)"
  "snd (process_command (Attackcommand p t) g) = snd (attack_player p t g)"
  by (simp_all split: prod.split)

lemma process_command_inv: "gs_inv g \<Longrightarrow> gs_inv (snd (process_command c g))"
  by (cases c) (simp_all only: snd_process_command move_player_inv attack_player_inv)

lemma process_command_keys: "um_find k (snd (process_command c g)) = None \<longleftrightarrow> um_find k g = None"
  by (cases c) (simp_all only: snd_process_command move_player_keys attack_player_keys)

lemma process_command_tens: "gs_inv g \<Longrightarrow> hp_tens g \<Longrightarrow> hp_tens (snd (process_command c g))"
  by (cases c) (simp_all only: snd_process_command move_player_tens attack_player_tens)

lemma process_commands_inv:
  assumes "gs_inv g"
  shows "gs_inv (snd (process_commands cs n g)) \<and>
    (\<forall>k. um_find k (snd (process_commands cs n g)) = None \<longleftrightarrow> um_find k g = None) \<and>
    (hp_tens g \<longrightarrow> hp_tens (snd (process_commands cs n g)))"
  using assms
proof (induction cs n g rule: process_commands.induct)
  case (2 c cs n g)
  obtain ok g' where c: "process_command c g = (ok, g')" by fastforce
  have "gs_inv g'" "um_find k g' = None \<longleftrightarrow> um_find k g = None" "hp_tens g \<longrightarrow> hp_tens g'" for k
    using process_command_inv [OF "2.prems", of c] process_command_keys [of k c g]
      process_command_tens [OF "2.prems", of c] c by simp_all
  then show ?case using "2.IH" [OF c [symmetric]] by (simp add: c)
qed simp

lemma room_tick_running:
  assumes "room_state r = running"
  shows "room_tick r =
    (\<lparr>rt_state = ts_success, rt_tick_id = r_tick_id r + 1, rt_processed_commands = length (r_pending r),
      rt_successful_commands = fst (process_commands (r_pending r) 0 (r_game r)),
      rt_snapshot = snapshot (snd (process_commands (r_pending r) 0 (r_game r)))\<rparr>,
     r\<lparr>r_pending := [], r_game := snd (process_commands (r_pending r) 0 (r_game r)), r_tick_id := r_tick_id r + 1\<rparr>)"
  using assms by (cases "process_commands (r_pending r) 0 (r_game r)")
    (simp add: room_tick_def room_state_def take_pending_commands_def Let_def)

lemma room_tick_idle: "room_state r \<noteq> running \<Longrightarrow> snd (room_tick r) = r \<and> rt_state (fst (room_tick r)) = ts_invalid_state"
  by (simp add: room_tick_def room_state_def)

lemma room_tick_inv:
  assumes "room_inv r"
  shows "room_inv (snd (room_tick r))"
proof (cases "room_state r = running")
  case True
  then have "gs_inv (r_game r)" using assms by (simp add: room_inv_defs)
  from process_commands_inv [OF this, of "r_pending r" 0] show ?thesis
    using assms True by (simp add: room_tick_running room_inv_defs)
qed (use assms in \<open>simp add: room_tick_idle\<close>)

section \<open>Binding connections\<close>

lemma room_bind_inv:
  assumes "room_inv r"
  shows "room_inv (snd (room_bind_connection alive p c r))"
proof (cases "um_find p (r_members r)")
  case None
  then show ?thesis using assms by (simp add: room_bind_connection_def)
next
  case (Some m)
  have "member_ok p m" using assms Some by (simp add: room_inv_defs)
  then have "member_ok p (m\<lparr>m_connection := c\<rparr>)" by (simp add: member_ok_def)
  from members_inv_assign [OF _ Some this refl] show ?thesis
    using assms Some by (auto simp: room_bind_connection_def room_inv_def game_inv_def pending_inv_def room_state_def)
qed

lemma room_detach_inv:
  assumes "room_inv r"
  shows "room_inv (snd (room_detach_connection alive p c r))"
proof (cases "um_find p (r_members r)")
  case None
  then show ?thesis using assms by (simp add: room_detach_connection_def)
next
  case (Some m)
  have "member_ok p m" using assms Some by (simp add: room_inv_defs)
  then have "member_ok p (m\<lparr>m_connection := None\<rparr>)" by (simp add: member_ok_def)
  from members_inv_assign [OF _ Some this refl] show ?thesis
    using assms Some
    by (auto simp: room_detach_connection_def room_inv_def game_inv_def pending_inv_def room_state_def split: option.split)
qed

section \<open>Restoring a checkpoint\<close>

definition restored_entry :: "CheckpointMember \<Rightarrow> u64 \<times> Member" where
  "restored_entry m = (cm_player_id m,
     \<lparr>m_player_id = cm_player_id m, m_player_name = cm_player_name m, m_connection = None\<rparr>)"

definition checkpoint_ok :: "RoomCheckpoint \<Rightarrow> bool" where
  "checkpoint_ok cp \<longleftrightarrow>
     length (rc_members cp) \<le> unat (rc_capacity cp) \<and>
     distinct (map cm_player_id (rc_members cp)) \<and>
     (\<forall>m\<in>set (rc_members cp). cm_player_id m \<noteq> 0 \<and> name_ok (cm_player_name m)) \<and>
     (rc_next_player_id cp = 0 \<or> (\<forall>m\<in>set (rc_members cp). cm_player_id m < rc_next_player_id cp)) \<and>
     (rc_state cp = waiting \<longrightarrow> rc_tick_id cp = 0 \<and> rc_game_states cp = []) \<and>
     (rc_state cp \<noteq> waiting \<longrightarrow> length (rc_game_states cp) = length (rc_members cp) \<and>
        (\<forall>s\<in>set (rc_game_states cp). pgs_player_id s \<in> cm_player_id ` set (rc_members cp))) \<and>
     restorable (rc_game_states cp)"

definition restored_room :: "RoomCheckpoint \<Rightarrow> Room \<Rightarrow> Room" where
  "restored_room cp r = r\<lparr>r_members := map restored_entry (rc_members cp),
     r_game := map (\<lambda>s. (pgs_player_id s, s)) (rc_game_states cp), r_machine := \<lparr>rsm_state = rc_state cp\<rparr>,
     r_next_player_id := rc_next_player_id cp, r_tick_id := rc_tick_id cp, r_pending := []\<rparr>"

lemma restore_members_Some:
  "restore_members ms t = Some t' \<longleftrightarrow>
     distinct (map cm_player_id ms) \<and>
     (\<forall>m\<in>set ms. cm_player_id m \<noteq> 0 \<and> name_ok (cm_player_name m) \<and> um_find (cm_player_id m) t = None) \<and>
     t' = t @ map restored_entry ms"
proof (induction ms t rule: restore_members.induct)
  case (1 t)
  then show ?case by auto
next
  case (2 m ms t)
  have snoc: "um_find k (t @ [restored_entry m]) = None \<longleftrightarrow> um_find k t = None \<and> k \<noteq> cm_player_id m" for k
    by (auto simp: um_find_def map_add_def restored_entry_def split: option.splits)
  have notin: "cm_player_id m \<notin> cm_player_id ` set ms \<longleftrightarrow> (\<forall>x\<in>set ms. cm_player_id x \<noteq> cm_player_id m)"
    by (auto intro: rev_image_eqI)
  show ?case
  proof (cases "cm_player_id m = 0 \<or> um_find (cm_player_id m) t \<noteq> None \<or> \<not> name_ok (cm_player_name m)")
    case True
    then show ?thesis by (auto simp: name_ok_def)
  next
    case False
    then have "restore_members (m # ms) t = restore_members ms (t @ [restored_entry m])"
      by (simp add: um_emplace_def restored_entry_def name_ok_def)
    with "2.IH" False notin show ?thesis
      by (auto simp: um_emplace_def snoc restored_entry_def [symmetric] name_ok_def)
  qed
qed

lemma restore_machine_eq:
  "restore_machine cp = (if rc_state cp = waiting \<and> (rc_tick_id cp \<noteq> 0 \<or> rc_game_states cp \<noteq> [])
     then None else Some \<lparr>rsm_state = rc_state cp\<rparr>)"
  by (cases "rc_state cp") (auto simp: restore_machine_def rsm_start_def rsm_finish_def Roomstatemachine_new_def)

lemma restored_keys:
  "um_find k (map restored_entry ms) = None \<longleftrightarrow> k \<notin> cm_player_id ` set ms"
  by (simp add: um_find_None_iff restored_entry_def image_image)

lemma room_restore_iff:
  "room_restore_checkpoint cp r =
     (if rc_room_id cp = r_id r \<and> rc_capacity cp = r_capacity r \<and> checkpoint_ok cp
      then (True, restored_room cp r) else (False, r))"
proof (cases "rc_room_id cp = r_id r \<and> rc_capacity cp = r_capacity r \<and>
    length (rc_members cp) \<le> unat (r_capacity r)")
  case False
  then show ?thesis by (auto simp: room_restore_checkpoint_def checkpoint_ok_def)
next
  case base: True
  show ?thesis
  proof (cases "restore_members (rc_members cp) []")
    case None
    then show ?thesis
      using restore_members_Some [of "rc_members cp" "[]" "map restored_entry (rc_members cp)"] base
      by (auto simp: room_restore_checkpoint_def checkpoint_ok_def)
  next
    case (Some t)
    then have t: "t = map restored_entry (rc_members cp)" "distinct (map cm_player_id (rc_members cp))"
      and names: "\<forall>m\<in>set (rc_members cp). cm_player_id m \<noteq> 0 \<and> name_ok (cm_player_name m)"
      by (auto simp: restore_members_Some)
    have nxt: "(\<exists>(k, m)\<in>set t. rc_next_player_id cp \<le> k) \<longleftrightarrow>
        \<not> (\<forall>m\<in>set (rc_members cp). cm_player_id m < rc_next_player_id cp)"
      by (auto simp: t restored_entry_def not_less)
    have keys: "(\<exists>s\<in>set (rc_game_states cp). um_find (pgs_player_id s) t = None) \<longleftrightarrow>
        \<not> (\<forall>s\<in>set (rc_game_states cp). pgs_player_id s \<in> cm_player_id ` set (rc_members cp))"
      by (simp add: t restored_keys)
    have len: "length t = length (rc_members cp)" by (simp add: t)
    have st: "rc_state cp = running \<or> rc_state cp = finished \<longleftrightarrow> rc_state cp \<noteq> waiting"
      by (cases "rc_state cp") auto
    show ?thesis
      unfolding room_restore_checkpoint_def Some option.case nxt keys len st restore_machine_eq gs_restore_iff
      using base t names
      by (auto simp: checkpoint_ok_def restored_room_def)
  qed
qed

lemma subset_same_length:
  assumes "distinct xs" and "distinct ys" and "length xs = length ys" and "set xs \<subseteq> set ys"
  shows "set xs = set ys"
  by (rule card_subset_eq) (use assms distinct_card [of xs] distinct_card [of ys] in simp_all)

lemma restored_room_inv:
  assumes "checkpoint_ok cp" and "rc_capacity cp = r_capacity r"
  shows "room_inv (restored_room cp r)"
proof -
  let ?ms = "map restored_entry (rc_members cp)"
  let ?g = "map (\<lambda>s. (pgs_player_id s, s)) (rc_game_states cp)"
  have d: "distinct (map cm_player_id (rc_members cp))" and r: "restorable (rc_game_states cp)"
    using assms(1) by (simp_all add: checkpoint_ok_def)
  have wf: "um_wf ?ms" using d by (simp add: um_wf_def restored_entry_def comp_def)
  have find: "um_find k ?ms = Some m \<longleftrightarrow> (\<exists>x\<in>set (rc_members cp). restored_entry x = (k, m))" for k m
    using um_entries_find [OF wf, of k m] by (auto simp: image_iff eq_commute [of "(k, m)"])
  have "gs_restore (rc_game_states cp) [] = (True, ?g)" using r by (simp add: gs_restore_iff)
  note gi = gs_restore_inv [OF this]
  have "members_inv (restored_room cp r)"
    using assms wf find restored_keys [of _ "rc_members cp"]
    by (auto simp: members_inv_def restored_room_def checkpoint_ok_def member_ok_def restored_entry_def)
  moreover have "game_inv (restored_room cp r)"
  proof (cases "rc_state cp = waiting")
    case True
    then show ?thesis using assms(1)
      by (simp add: game_inv_def restored_room_def checkpoint_ok_def room_state_def)
  next
    case False
    have "set (map pgs_player_id (rc_game_states cp)) = set (map cm_player_id (rc_members cp))"
      by (rule subset_same_length) (use assms(1) False in \<open>auto simp: checkpoint_ok_def restorable_def\<close>)
    then have "um_find k ?g = None \<longleftrightarrow> um_find k ?ms = None" for k
      using gi by (simp only: restored_keys) (auto simp: um_find_None_iff image_image)
    then show ?thesis using gi False
      by (simp add: game_inv_def restored_room_def room_state_def)
  qed
  moreover have "pending_inv (restored_room cp r)"
    by (simp add: pending_inv_def restored_room_def)
  ultimately show ?thesis by (simp add: room_inv_def)
qed

lemma room_restore_inv:
  assumes "room_inv r"
  shows "room_inv (snd (room_restore_checkpoint cp r))"
  using assms restored_room_inv [of cp r] by (simp add: room_restore_iff)

section \<open>Every operation keeps the invariant\<close>

lemma room_new_inv: "room_inv (Room_new i c)"
  by (simp add: room_inv_defs Room_new_def Gamestate_new_def Roomstatemachine_new_def)

lemma exec_room_inv: "room_inv r \<Longrightarrow> room_inv (exec_room alive op r)"
  by (cases op) (simp_all add: room_start_inv room_finish_inv room_join_inv room_leave_inv
      submit_move_inv submit_attack_inv room_tick_inv room_bind_inv room_detach_inv room_restore_inv)

inductive room_step :: "Room \<Rightarrow> Room \<Rightarrow> bool" where
  "room_step r (exec_room alive op r)"

inductive_cases room_stepE: "room_step r r'"

fun is_restore :: "room_op \<Rightarrow> bool" where
  "is_restore (RRestore cp) = True"
| "is_restore _ = False"

inductive live_step :: "Room \<Rightarrow> Room \<Rightarrow> bool" where
  "\<not> is_restore op \<Longrightarrow> live_step r (exec_room alive op r)"

inductive_cases live_stepE: "live_step r r'"

interpretation room: invariant_system "\<lambda>r. \<exists>i c. r = Room_new i c" room_step room_inv
  by unfold_locales (auto simp: room_new_inv exec_room_inv elim: room_stepE)

lemma exec_room_tens:
  assumes "room_inv r" and "hp_tens (r_game r)" and "\<not> is_restore op"
  shows "hp_tens (r_game (exec_room alive op r))"
proof (cases op)
  case (RStart b)
  then show ?thesis
    using assms room_start_cases [of b r] initialize_inv [of "map (\<lambda>(k, m). m_player_id m) (r_members r)"]
    by auto
next
  case (RFinish b)
  then show ?thesis using assms room_finish_cases [of b r] by auto
next
  case (RJoin c n)
  then show ?thesis using assms room_join_cases [of c n r] by auto
next
  case (RLeave p)
  then show ?thesis using assms
    by (cases "room_contains p r") (auto simp: room_leave_known room_leave_unknown hp_tens_def)
next
  case RTick
  have "gs_inv (r_game r)" using assms by (simp add: room_inv_defs)
  from process_commands_inv [OF this, of "r_pending r" 0] show ?thesis
    using assms RTick by (cases "room_state r = running") (simp_all add: room_tick_running room_tick_idle)
next
  case (RBind p c)
  then show ?thesis using assms by (simp add: room_bind_connection_def split: option.split)
next
  case (RDetach p c)
  then show ?thesis using assms by (simp add: room_detach_connection_def split: option.split)
qed (use assms in \<open>auto simp: submit_move_def submit_attack_def\<close>)

lemma room_new_tens: "hp_tens (r_game (Room_new i c))"
  by (simp add: Room_new_def Gamestate_new_def hp_tens_def)

interpretation live: invariant_system "\<lambda>r. \<exists>i c. r = Room_new i c" live_step
  "\<lambda>r. room_inv r \<and> hp_tens (r_game r)"
proof
  show "room_inv s \<and> hp_tens (r_game s)" if "\<exists>i c. s = Room_new i c" for s
    using that room_new_inv by (auto simp: room_new_tens)
  show "room_inv t \<and> hp_tens (r_game t)" if "room_inv s \<and> hp_tens (r_game s)" "live_step s t" for s t
    using that by (auto simp: exec_room_inv exec_room_tens elim!: live_stepE)
qed

section \<open>Checkpoints of live rooms\<close>

lemma checkpoint_members_map:
  assumes "members_inv r"
  shows "rc_members (room_make_checkpoint r) =
    sort_key cm_player_id (map (\<lambda>(k, m). \<lparr>cm_player_id = k, cm_player_name = m_player_name m\<rparr>) (r_members r))"
proof -
  have eq: "map (\<lambda>(k, m). \<lparr>cm_player_id = m_player_id m, cm_player_name = m_player_name m\<rparr>) (r_members r) =
      map (\<lambda>(k, m). \<lparr>cm_player_id = k, cm_player_name = m_player_name m\<rparr>) (r_members r)"
    using assms um_entries_find [of "r_members r"] by (auto simp: members_inv_def member_ok_def)
  show ?thesis unfolding room_make_checkpoint_def eq by simp
qed

lemma in_checkpoint_members:
  assumes "members_inv r"
  shows "m \<in> set (rc_members (room_make_checkpoint r)) \<longleftrightarrow>
    (\<exists>x. um_find (cm_player_id m) (r_members r) = Some x \<and> cm_player_name m = m_player_name x)"
proof -
  have wf: "um_wf (r_members r)" using assms by (simp add: members_inv_def)
  show ?thesis
    unfolding checkpoint_members_map [OF assms] set_sort um_entries_find [OF wf, symmetric]
    by (cases m) (auto simp: image_iff intro!: bexI [rotated])
qed

lemma checkpoint_member_ids:
  assumes "members_inv r"
  shows "cm_player_id ` set (rc_members (room_make_checkpoint r)) = fst ` set (r_members r)"
    and "distinct (map cm_player_id (rc_members (room_make_checkpoint r)))"
    and "length (rc_members (room_make_checkpoint r)) = length (r_members r)"
  unfolding checkpoint_members_map [OF assms] distinct_map_sort_key
  using distinct_keys [OF assms]
  by (simp_all add: image_image comp_def split_beta cong: map_cong)

lemma make_checkpoint_ok:
  assumes inv: "room_inv r" and hp: "hp_tens (r_game r)"
  shows "checkpoint_ok (room_make_checkpoint r)"
proof -
  have mi: "members_inv r" and gi: "game_inv r" using inv by (simp_all add: room_inv_def)
  have g: "gs_inv (r_game r)" using gi by (simp add: game_inv_def)
  note ids = checkpoint_member_ids [OF mi]
  have known: "um_find (cm_player_id m) (r_members r) \<noteq> None \<and> cm_player_id m \<noteq> 0 \<and> name_ok (cm_player_name m)"
    if "m \<in> set (rc_members (room_make_checkpoint r))" for m
    using that mi unfolding in_checkpoint_members [OF mi] by (auto simp: members_inv_def member_ok_def)
  have nxt: "r_next_player_id r = 0 \<or> cm_player_id m < r_next_player_id r"
    if "m \<in> set (rc_members (room_make_checkpoint r))" for m
    using known [OF that] mi by (auto simp: members_inv_def)
  have rest: "restorable (snapshot (r_game r))"
    using snapshot_restorable [OF g] hp by (auto simp: hp_tens_def)
  have same: "length (snapshot (r_game r)) = length (r_members r)"
    and sub: "\<forall>s\<in>set (snapshot (r_game r)). pgs_player_id s \<in> fst ` set (r_members r)"
    if "room_state r \<noteq> waiting"
  proof -
    have eq: "fst ` set (r_game r) = fst ` set (r_members r)"
      using gi that um_find_None_iff [of _ "r_game r"] um_find_None_iff [of _ "r_members r"]
      by (auto simp: game_inv_def)
    have d: "distinct (map fst (r_game r))" using g by (simp add: gs_inv_def um_wf_def)
    have "length (map fst (r_game r)) = length (map fst (r_members r))"
      using eq distinct_card [OF d] distinct_card [OF distinct_keys [OF mi]] by simp
    then show "length (snapshot (r_game r)) = length (r_members r)"
      by (simp add: length_snapshot)
    show "\<forall>s\<in>set (snapshot (r_game r)). pgs_player_id s \<in> fst ` set (r_members r)"
    proof
      fix s assume "s \<in> set (snapshot (r_game r))"
      then have "um_find (pgs_player_id s) (r_game r) = Some s" using in_snapshot [OF g] by blast
      then have "(pgs_player_id s, s) \<in> set (r_game r)" by (rule um_find_in_set)
      then have "pgs_player_id s \<in> fst ` set (r_game r)" by (auto intro: rev_image_eqI)
      then show "pgs_player_id s \<in> fst ` set (r_members r)" using eq by simp
    qed
  qed
  show ?thesis
    using mi gi known nxt rest ids same sub
    by (auto simp: checkpoint_ok_def room_make_checkpoint_def [of r] members_inv_def game_inv_def
        room_state_def snapshot_def)
qed

lemma checkpoint_member_eta [simp]:
  "\<lparr>cm_player_id = cm_player_id x, cm_player_name = cm_player_name x\<rparr> = x"
  by (cases x) simp

lemma make_restored:
  assumes "checkpoint_ok cp" and "sorted (map cm_player_id (rc_members cp))"
    and "sorted (map pgs_player_id (rc_game_states cp))"
    and "rc_room_id cp = r_id r" and "rc_capacity cp = r_capacity r"
  shows "room_make_checkpoint (restored_room cp r) = cp"
proof -
  have "map (\<lambda>(k, m). \<lparr>cm_player_id = m_player_id m, cm_player_name = m_player_name m\<rparr>)
      (map restored_entry (rc_members cp)) = rc_members cp"
    by (simp add: restored_entry_def comp_def)
  moreover have "map snd (map (\<lambda>s. (pgs_player_id s, s)) (rc_game_states cp)) = rc_game_states cp"
    by (simp add: comp_def)
  ultimately show ?thesis
    using assms(2-5) by (cases cp)
      (simp add: room_make_checkpoint_def restored_room_def snapshot_def sort_key_sorted_id)
qed

lemma checkpoint_sorted:
  "sorted (map cm_player_id (rc_members (room_make_checkpoint r)))"
  "sorted (map pgs_player_id (rc_game_states (room_make_checkpoint r)))"
  by (simp_all add: room_make_checkpoint_def snapshot_sorted)

lemma live_restart:
  assumes "room_inv r" and "hp_tens (r_game r)"
  shows "fst (room_restore_checkpoint (room_make_checkpoint r) (Room_new (r_id r) (r_capacity r)))"
    and "room_make_checkpoint (snd (room_restore_checkpoint (room_make_checkpoint r)
           (Room_new (r_id r) (r_capacity r)))) = room_make_checkpoint r"
  using make_checkpoint_ok [OF assms] make_restored [OF make_checkpoint_ok [OF assms] checkpoint_sorted, of "Room_new (r_id r) (r_capacity r)"]
  by (simp_all add: room_restore_iff Room_new_def room_make_checkpoint_def [of r])

section \<open>Player ids are never handed out twice\<close>

definition ids_issued :: "Room \<Rightarrow> nat" where
  "ids_issued r = (if r_next_player_id r = 0 then 2 ^ 64 else unat (r_next_player_id r))"

lemma exec_room_next_id:
  "\<not> is_restore op \<Longrightarrow>
     r_next_player_id (exec_room alive op r) = r_next_player_id r \<or>
     (\<exists>c n. op = RJoin c n \<and> r_next_player_id r \<noteq> 0 \<and> r_next_player_id (exec_room alive op r) = r_next_player_id r + 1)"
proof (cases op)
  case (RStart b)
  then show ?thesis using room_start_cases [of b r] by auto
next
  case (RFinish b)
  then show ?thesis using room_finish_cases [of b r] by auto
next
  case (RJoin c n)
  then show ?thesis using room_join_cases [of c n r] by auto
next
  case (RLeave p)
  then show ?thesis by (auto simp: room_leave_def split: prod.split)
next
  case RTick
  then show ?thesis
    by (cases "room_state r = running") (auto simp: room_tick_running room_tick_idle)
next
  case (RBind p c)
  then show ?thesis by (auto simp: room_bind_connection_def split: option.split)
next
  case (RDetach p c)
  then show ?thesis by (auto simp: room_detach_connection_def split: option.split)
qed (auto simp: submit_move_def submit_attack_def)

lemma ids_issued_Suc:
  assumes "r_next_player_id r \<noteq> 0" and "r_next_player_id r' = r_next_player_id r + 1"
  shows "unat (r_next_player_id r) < ids_issued r'"
proof -
  have "unat (r_next_player_id r) < 2 ^ 64" using unsigned_less [where ?'a = nat, of "r_next_player_id r"] by simp
  then show ?thesis
    using assms Suc_word_greater [of "r_next_player_id r"] by (auto simp: ids_issued_def word_less_nat_alt)
qed

lemma live_step_ids: "live_step r r' \<Longrightarrow> ids_issued r \<le> ids_issued r'"
proof (erule live_stepE)
  fix op alive assume op: "\<not> is_restore op" and r': "r' = exec_room alive op r"
  from exec_room_next_id [OF op, of alive r] show ?thesis
  proof (elim disjE exE conjE)
    assume "r_next_player_id (exec_room alive op r) = r_next_player_id r"
    then show ?thesis by (simp add: r' ids_issued_def)
  next
    assume n: "r_next_player_id r \<noteq> 0" "r_next_player_id (exec_room alive op r) = r_next_player_id r + 1"
    then show ?thesis using ids_issued_Suc [of r r'] by (simp add: r' ids_issued_def [of r])
  qed
qed

lemma join_issues:
  assumes "rj_state (fst (room_join c n r)) = js_success"
  shows "unat (rj_player_id (fst (room_join c n r))) = ids_issued r \<and>
    unat (rj_player_id (fst (room_join c n r))) < ids_issued (snd (room_join c n r))"
  using room_join_cases [of c n r] assms ids_issued_Suc [of r "snd (room_join c n r)"]
  by (auto simp: ids_issued_def [of r])

text \<open>The life of a room over restarts, with the checkpoints that were made of it.\<close>

inductive life_step :: "Room \<times> RoomCheckpoint list \<Rightarrow> Room \<times> RoomCheckpoint list \<Rightarrow> bool" where
  lf_live: "live_step r r' \<Longrightarrow> life_step (r, made) (r', made)"
| lf_save: "life_step (r, made) (r, room_make_checkpoint r # made)"
| lf_restore: "cp \<in> set made \<Longrightarrow> fst (room_restore_checkpoint cp (Room_new i cap)) \<Longrightarrow>
    life_step (r, made) (snd (room_restore_checkpoint cp (Room_new i cap)), made)"

definition ids_saved :: "RoomCheckpoint \<Rightarrow> nat" where
  "ids_saved cp = (if rc_next_player_id cp = 0 then 2 ^ 64 else unat (rc_next_player_id cp))"

lemma ids_saved_make: "ids_saved (room_make_checkpoint r) = ids_issued r"
  by (simp add: ids_saved_def ids_issued_def room_make_checkpoint_def)

lemma ids_issued_restore:
  "fst (room_restore_checkpoint cp r) \<Longrightarrow> ids_issued (snd (room_restore_checkpoint cp r)) = ids_saved cp"
  by (auto simp: room_restore_iff restored_room_def ids_issued_def ids_saved_def split: if_splits)

lemma life_ids:
  assumes "life_step\<^sup>*\<^sup>* (r, []) (r', made)"
  shows "ids_issued r \<le> ids_issued r'"
proof -
  have "ids_issued r \<le> ids_issued (fst x) \<and> (\<forall>cp\<in>set (snd x). ids_issued r \<le> ids_saved cp)" if "life_step\<^sup>*\<^sup>* (r, []) x" for x
    using that
  proof (induction rule: rtranclp_induct)
    case (step x y)
    from step.hyps(2) step.IH show ?case
      by cases (auto simp: ids_saved_make ids_issued_restore dest: live_step_ids)
  qed simp
  from this [OF assms] show ?thesis by simp
qed

section \<open>Ticks on the board\<close>

fun spec_command :: "Gamecommand \<Rightarrow> board \<Rightarrow> bool \<times> board" where
  "spec_command (Movecommand p dx dy) m = (case spec_move p (sint dx) (sint dy) m of (st, m') \<Rightarrow> (st = gs_success, m'))"
| "spec_command (Attackcommand p t) m = (case spec_attack p t m of (st, m') \<Rightarrow> (st = gs_success, m'))"

fun spec_commands :: "Gamecommand list \<Rightarrow> board \<Rightarrow> nat \<times> board" where
  "spec_commands [] m = (0, m)"
| "spec_commands (c # cs) m =
     (case spec_command c m of (ok, m') \<Rightarrow>
        (case spec_commands cs m' of (n, m'') \<Rightarrow> (if ok then Suc n else n, m'')))"

lemma process_command_refines:
  assumes "gs_inv g"
  shows "spec_command c (board_of g) = (fst (process_command c g), board_of (snd (process_command c g)))"
  using assms by (cases c) (simp_all add: move_player_refines attack_player_refines split: prod.split)

lemma process_commands_refines:
  assumes "gs_inv g"
  shows "fst (process_commands cs n g) = n + fst (spec_commands cs (board_of g)) \<and>
    board_of (snd (process_commands cs n g)) = snd (spec_commands cs (board_of g))"
  using assms
proof (induction cs n g rule: process_commands.induct)
  case (2 c cs n g)
  obtain ok g' where c: "process_command c g = (ok, g')" by fastforce
  have "gs_inv g'" using process_command_inv [OF "2.prems", of c] c by simp
  from "2.IH" [OF c [symmetric] this] process_command_refines [OF "2.prems", of c] show ?case
    by (simp add: c split: prod.split)
qed simp

section \<open>Properties\<close>

abbreviation "fresh_room \<equiv> \<lambda>r. \<exists>i c. r = Room_new i c"

text \<open>C19: in every room reachable by any sequence of operations, restores from arbitrary
  checkpoints included: there are at most \<open>capacity\<close> members, stored under their own nonzero
  ids with names of 1 to 32 bytes; every id is below the next one to be issued; the game has
  exactly the members as players once the room has left the waiting phase, and nobody and no
  tick before; commands are pending only while it runs, at most one per player.\<close>

theorem reachable_rooms_are_consistent:
  assumes "reach fresh_room room_step r"
  shows "member_count r \<le> unat (r_capacity r) \<and>
    (\<forall>k m. um_find k (r_members r) = Some m \<longrightarrow>
       m_player_id m = k \<and> k \<noteq> 0 \<and> m_player_name m \<noteq> [] \<and> length (m_player_name m) \<le> 32 \<and>
       (r_next_player_id r = 0 \<or> k < r_next_player_id r)) \<and>
    (room_state r = waiting \<longrightarrow> game_snapshot r = [] \<and> r_tick_id r = 0) \<and>
    (room_state r \<noteq> waiting \<longrightarrow> (\<forall>k. gs_contains k (r_game r) \<longleftrightarrow> room_contains k r)) \<and>
    (room_state r \<noteq> running \<longrightarrow> pending_command_count r = 0) \<and>
    distinct (map command_player (r_pending r))"
proof -
  have inv: "room_inv r" using assms by (rule room.reach_inv)
  have "member_ok k m \<and> (r_next_player_id r = 0 \<or> k < r_next_player_id r)"
    if "um_find k (r_members r) = Some m" for k m
    using inv that by (auto simp: room_inv_def members_inv_def)
  moreover have "gs_contains k (r_game r) \<longleftrightarrow> room_contains k r" if "room_state r \<noteq> waiting" for k
    using inv that by (simp add: room_inv_defs gs_contains_def um_contains_def room_contains_def)
  ultimately show ?thesis
    using inv by (simp add: room_inv_defs member_count_def member_ok_def name_ok_def protocol_sizes
        game_snapshot_def snapshot_def pending_command_count_def not_less)
qed

text \<open>C22: a player id is never handed out twice, restarts included. If one join of a room succeeds
  and, after any operations, checkpoints and restores of checkpoints that were made since that
  join, another join succeeds, the second id is strictly greater than the first - up to the
  exhaustion of the 64-bit ids, after which no join succeeds. Only restoring a checkpoint
  from before a join can hand its id out again: the next id is then that of the checkpoint.\<close>

theorem player_ids_are_never_reused:
  assumes "rj_state (fst (room_join c n r)) = js_success"
    and "life_step\<^sup>*\<^sup>* (snd (room_join c n r), []) (r', made)"
    and "rj_state (fst (room_join c' n' r')) = js_success"
  shows "rj_player_id (fst (room_join c n r)) < rj_player_id (fst (room_join c' n' r'))"
  using join_issues [OF assms(1)] join_issues [OF assms(3)] life_ids [OF assms(2)]
  by (simp add: word_less_nat_alt)

text \<open>A room with one member, and after a restart.\<close>

definition one_seated :: Room where
  "one_seated = (Room_new 1 2)\<lparr>r_members := [(1, \<lparr>m_player_id = 1, m_player_name = [97], m_connection = Some 4\<rparr>)], r_next_player_id := 2\<rparr>"

definition one_restored :: Room where
  "one_restored = (Room_new 1 2)\<lparr>r_members := [(1, \<lparr>m_player_id = 1, m_player_name = [97], m_connection = None\<rparr>)], r_next_player_id := 2\<rparr>"

lemma one_seated: "snd (room_join (Some 4) [97] (Room_new 1 2)) = one_seated"
  "rj_state (fst (room_join (Some 4) [97] (Room_new 1 2))) = js_success"
  by (simp_all add: room_join_def Room_new_def one_seated_def Roomstatemachine_new_def can_join_def Let_def MAX_PLAYER_NAME_SIZE_def
      um_emplace_def um_find_def)

lemma one_restored: "room_restore_checkpoint (room_make_checkpoint one_seated) (Room_new 1 2) = (True, one_restored)"
  by (simp add: room_restore_iff checkpoint_ok_def restored_room_def restored_entry_def room_make_checkpoint_def one_seated_def
      one_restored_def Room_new_def Roomstatemachine_new_def Gamestate_new_def snapshot_def restorable_def name_ok_def MAX_PLAYER_NAME_SIZE_def)

theorem player_ids_are_never_reused_witness:
  "rj_player_id (fst (room_join (Some 4) [97] (Room_new 1 2))) <
   rj_player_id (fst (room_join (Some 5) [98] (exec_room (\<lambda>_. True) (RLeave 1) one_restored)))"
proof (rule player_ids_are_never_reused [OF one_seated(2), unfolded one_seated(1)])
  let ?cp = "room_make_checkpoint one_seated"
  have s1: "life_step (one_seated, []) (one_seated, [?cp])" by (rule lf_save)
  have s2: "life_step (one_seated, [?cp]) (one_restored, [?cp])"
    using lf_restore [of ?cp "[?cp]" 1 2] one_restored by simp
  have s3: "life_step (one_restored, [?cp]) (exec_room (\<lambda>_. True) (RLeave 1) one_restored, [?cp])"
    by (rule lf_live) (rule live_step.intros, simp)
  show "life_step\<^sup>*\<^sup>* (one_seated, []) (exec_room (\<lambda>_. True) (RLeave 1) one_restored, [?cp])"
    by (rule rtranclp.rtrancl_into_rtrancl, rule rtranclp.rtrancl_into_rtrancl, rule r_into_rtranclp, rule s1, rule s2, rule s3)
  show "rj_state (fst (room_join (Some 5) [98] (exec_room (\<lambda>_. True) (RLeave 1) one_restored))) = js_success"
    by (simp add: room_join_def room_leave_def one_restored_def Room_new_def Roomstatemachine_new_def can_join_def Let_def
        MAX_PLAYER_NAME_SIZE_def um_erase_def um_find_def)
qed

text \<open>C21: a room survives a restart. For every room reachable by operations of the running
  server, a new room with the same id and capacity accepts its checkpoint and then has the
  same checkpoint: same members, phase, tick, next player id and player states; its members
  are detached and no command is pending.\<close>

theorem room_survives_restart:
  assumes "reach fresh_room live_step r"
  shows "let cp = room_make_checkpoint r; res = room_restore_checkpoint cp (Room_new (r_id r) (r_capacity r)) in
    fst res \<and> room_make_checkpoint (snd res) = cp \<and> pending_command_count (snd res) = 0 \<and>
    room_connections alive excluded (snd res) = []"
proof -
  have inv: "room_inv r" "hp_tens (r_game r)" using live.reach_inv [OF assms] by simp_all
  note l = live_restart [OF inv]
  have eq: "snd (room_restore_checkpoint (room_make_checkpoint r) (Room_new (r_id r) (r_capacity r))) =
      restored_room (room_make_checkpoint r) (Room_new (r_id r) (r_capacity r))"
    using l(1) by (auto simp: room_restore_iff split: if_splits)
  have "room_connections alive excluded (restored_room cp r0) = []" for cp r0
    by (auto simp: room_connections_def restored_room_def restored_entry_def weak_lock_def)
  then show ?thesis
    using l unfolding Let_def eq by (simp add: pending_command_count_def restored_room_def)
qed

text \<open>C23: a checkpoint is restored as a whole or not at all. \<open>room_restore_checkpoint\<close> returns
  true exactly when the room id and capacity match, members have distinct nonzero ids below
  the next id and proper names and fit the capacity, phase, tick and game states agree, and
  the game states themselves are restorable; otherwise the room is unchanged.\<close>

theorem room_restore_is_all_or_nothing:
  "(fst (room_restore_checkpoint cp r) \<longleftrightarrow>
      rc_room_id cp = r_id r \<and> rc_capacity cp = r_capacity r \<and>
      length (rc_members cp) \<le> unat (rc_capacity cp) \<and>
      distinct (map cm_player_id (rc_members cp)) \<and>
      (\<forall>m\<in>set (rc_members cp). cm_player_id m \<noteq> 0 \<and> cm_player_name m \<noteq> [] \<and> length (cm_player_name m) \<le> 32 \<and>
         (rc_next_player_id cp = 0 \<or> cm_player_id m < rc_next_player_id cp)) \<and>
      (rc_state cp = waiting \<longrightarrow> rc_tick_id cp = 0 \<and> rc_game_states cp = []) \<and>
      (rc_state cp \<noteq> waiting \<longrightarrow> length (rc_game_states cp) = length (rc_members cp) \<and>
         pgs_player_id ` set (rc_game_states cp) \<subseteq> cm_player_id ` set (rc_members cp)) \<and>
      fst (gs_restore (rc_game_states cp) Gamestate_new)) \<and>
   (\<not> fst (room_restore_checkpoint cp r) \<longrightarrow> snd (room_restore_checkpoint cp r) = r)"
proof -
  have ok: "checkpoint_ok cp \<longleftrightarrow>
      length (rc_members cp) \<le> unat (rc_capacity cp) \<and>
      distinct (map cm_player_id (rc_members cp)) \<and>
      (\<forall>m\<in>set (rc_members cp). cm_player_id m \<noteq> 0 \<and> cm_player_name m \<noteq> [] \<and> length (cm_player_name m) \<le> 32 \<and>
         (rc_next_player_id cp = 0 \<or> cm_player_id m < rc_next_player_id cp)) \<and>
      (rc_state cp = waiting \<longrightarrow> rc_tick_id cp = 0 \<and> rc_game_states cp = []) \<and>
      (rc_state cp \<noteq> waiting \<longrightarrow> length (rc_game_states cp) = length (rc_members cp) \<and>
         pgs_player_id ` set (rc_game_states cp) \<subseteq> cm_player_id ` set (rc_members cp)) \<and>
      fst (gs_restore (rc_game_states cp) Gamestate_new)"
    unfolding checkpoint_ok_def name_ok_def protocol_sizes image_subset_iff not_less de_Morgan_disj
      gs_restore_iff by auto
  show ?thesis unfolding ok [symmetric] room_restore_iff by simp
qed

text \<open>C20: a tick of a reachable running room applies the pending commands in the order they
  were submitted, as the commands of the board specification; it reports how many there were
  and how many succeeded, advances the tick id by one, clears the queue, changes nothing else,
  and its snapshot lists exactly the resulting players by id. In other phases it does nothing.\<close>

theorem tick_runs_the_pending_commands:
  assumes "reach fresh_room room_step r"
  shows "(room_state r = running \<longrightarrow>
      (rt_successful_commands (fst (room_tick r)), board_of (r_game (snd (room_tick r)))) =
        spec_commands (r_pending r) (board_of (r_game r)) \<and>
      rt_state (fst (room_tick r)) = ts_success \<and>
      rt_processed_commands (fst (room_tick r)) = pending_command_count r \<and>
      rt_tick_id (fst (room_tick r)) = r_tick_id r + 1 \<and>
      rt_snapshot (fst (room_tick r)) = game_snapshot (snd (room_tick r)) \<and>
      snd (room_tick r) = r\<lparr>r_pending := [], r_tick_id := r_tick_id r + 1, r_game := r_game (snd (room_tick r))\<rparr>) \<and>
    (room_state r \<noteq> running \<longrightarrow> snd (room_tick r) = r \<and> rt_state (fst (room_tick r)) = ts_invalid_state)"
proof -
  have "room_inv r" using assms by (rule room.reach_inv)
  then have "gs_inv (r_game r)" by (simp add: room_inv_defs)
  from process_commands_refines [OF this, of "r_pending r" 0] show ?thesis
    by (simp add: room_tick_running room_tick_idle prod_eq_iff pending_command_count_def game_snapshot_def)
qed

text \<open>A room with two players that was started: the witnesses run on it.\<close>

definition duel :: Room where
  "duel = fold (exec_room (\<lambda>_. True)) [RJoin (Some 4) [97], RJoin (Some 5) [98], RStart True, RMove 1 0 1] (Room_new 1 2)"

lemma reach_exec_live: "reach fresh_room live_step r \<Longrightarrow> \<not> is_restore op \<Longrightarrow> reach fresh_room live_step (exec_room alive op r)"
  by (rule reach_step) (auto intro: live_step.intros)

lemma reach_exec: "reach fresh_room room_step r \<Longrightarrow> reach fresh_room room_step (exec_room alive op r)"
  by (rule reach_step) (auto intro: room_step.intros)

lemma reach_new: "reach fresh_room live_step (Room_new i c)" "reach fresh_room room_step (Room_new i c)"
  by (auto intro: reach_init)

lemma duel_reachable: "reach fresh_room live_step duel" "reach fresh_room room_step duel"
  by (simp_all only: duel_def fold_simps reach_exec_live reach_exec reach_new is_restore.simps not_False_eq_True)

theorem reachable_rooms_are_consistent_witness: "member_count duel \<le> unat (r_capacity duel)"
  using reachable_rooms_are_consistent [OF duel_reachable(2)] by blast

theorem room_survives_restart_witness:
  "fst (room_restore_checkpoint (room_make_checkpoint duel) (Room_new (r_id duel) (r_capacity duel)))"
  using room_survives_restart [OF duel_reachable(1)] by (simp add: Let_def)

theorem room_restore_is_all_or_nothing_witness:
  "snd (room_restore_checkpoint (room_make_checkpoint duel) (Room_new 9 2)) = Room_new 9 2"
proof -
  have "rc_room_id (room_make_checkpoint duel) \<noteq> r_id (Room_new 9 2)" by code_simp
  then show ?thesis using room_restore_is_all_or_nothing by blast
qed

theorem tick_runs_the_pending_commands_witness:
  "rt_processed_commands (fst (room_tick duel)) = pending_command_count duel"
proof -
  have "room_state duel = running" by code_simp
  then show ?thesis using tick_runs_the_pending_commands [OF duel_reachable(2)] by blast
qed

end
