(* ===== verification/Room_Manager.thy ===== *)
theory Room_Manager
  imports Room_Laws
begin

text \<open>
  \<open>RoomManager\<close> (\<open>src/room_manager.cpp\<close>): the table of rooms by id, its operations in terms
  of the rooms' operations, and the invariant that every room is stored under its own id and
  is consistent. The argument \<open>alive\<close> says which connection objects still exist, for the
  weak pointers that rooms keep.
\<close>

datatype RmStates =
    rm_success | rm_invalid_connection | rm_room_not_found | rm_room_full | rm_room_not_joinable
  | rm_not_in_room | rm_invalid_player_name | rm_invalid_message | rm_player_id_exhausted
  | rm_room_not_running | rm_already_submitted | rm_internal_error

datatype RmBindingstates =
    mb_success | mb_invalid_connection | mb_room_not_found | mb_player_not_found
  | mb_already_bound | mb_not_bound | mb_connection_mismatch | mb_internal_error

record RmJoinResult =
  jr_state :: RmStates
  jr_room_id :: u32
  jr_player_id :: u64
  jr_members :: "MemberInfo list"
  jr_notify :: "conn list"

text \<open>\<open>LeaveResult\<close> and \<open>ChatResult\<close> have the same fields.\<close>

record RmNotifyResult =
  nr_state :: RmStates
  nr_room_id :: u32
  nr_player_id :: u64
  nr_notify :: "conn list"

record RmBindingResult =
  br_state :: RmBindingstates
  br_room_id :: u32
  br_player_id :: u64
  br_room_state :: RoomStates
  br_tick_id :: u64
  br_members :: "MemberInfo list"
  br_snapshot :: "PlayerGameState list"

record RmTickResult =
  tk_room_id :: u32
  tk_tick_id :: u64
  tk_processed :: nat
  tk_successful :: nat
  tk_snapshot :: "PlayerGameState list"
  tk_notify :: "conn list"

type_synonym RoomManager = "(u32, Room) umap"

section \<open>Operations\<close>

definition contains_room :: "u32 \<Rightarrow> RoomManager \<Rightarrow> bool" where
  "contains_room room_id rooms \<longleftrightarrow> um_find room_id rooms \<noteq> None"

definition room_count :: "RoomManager \<Rightarrow> nat" where
  "room_count rooms = length rooms"

definition rm_add_room :: "u32 \<Rightarrow> u64 \<Rightarrow> RoomManager \<Rightarrow> bool \<times> RoomManager" where
  "rm_add_room room_id capacity rooms =
     (if contains_room room_id rooms then (False, rooms)
      else (True, um_assign room_id (Room_new room_id capacity) rooms))"

fun join_failure :: "Joinstates \<Rightarrow> RmStates" where
  "join_failure js_success = rm_success"
| "join_failure js_invalid_connection = rm_invalid_connection"
| "join_failure js_room_full = rm_room_full"
| "join_failure js_invalid_state = rm_room_not_joinable"
| "join_failure js_invalid_player_name = rm_invalid_player_name"
| "join_failure js_player_id_exhausted = rm_player_id_exhausted"

text \<open>The fields of a result that an error path leaves at their defaults.\<close>

definition join_error :: "RmStates \<Rightarrow> RmJoinResult" where
  "join_error st = \<lparr>jr_state = st, jr_room_id = 0, jr_player_id = 0, jr_members = [], jr_notify = []\<rparr>"

definition notify_error :: "RmStates \<Rightarrow> RmNotifyResult" where
  "notify_error st = \<lparr>nr_state = st, nr_room_id = 0, nr_player_id = 0, nr_notify = []\<rparr>"

definition binding_error :: "RmBindingstates \<Rightarrow> RmBindingResult" where
  "binding_error st = \<lparr>br_state = st, br_room_id = 0, br_player_id = 0, br_room_state = waiting,
     br_tick_id = 0, br_members = [], br_snapshot = []\<rparr>"

definition rm_join ::
  "(conn \<Rightarrow> bool) \<Rightarrow> conn option \<Rightarrow> u32 \<Rightarrow> bytes \<Rightarrow> RoomManager \<Rightarrow> RmJoinResult \<times> RoomManager" where
  "rm_join alive connection room_id player_name rooms =
     (if connection = None then (join_error rm_invalid_connection, rooms)
      else case um_find room_id rooms of
        None \<Rightarrow> (join_error rm_room_not_found, rooms)
      | Some room \<Rightarrow>
          (case room_join connection player_name room of (room_result, room') \<Rightarrow>
             let rooms' = um_assign room_id room' rooms in
             if rj_state room_result = js_success then
               (\<lparr>jr_state = rm_success, jr_room_id = room_id, jr_player_id = rj_player_id room_result,
                 jr_members = rj_members room_result,
                 jr_notify = room_connections alive (rj_player_id room_result) room'\<rparr>, rooms')
             else (join_error (join_failure (rj_state room_result)), rooms')))"

definition start_if_full :: "u32 \<Rightarrow> RoomManager \<Rightarrow> RmStates \<times> RoomManager" where
  "start_if_full room_id rooms =
     (case um_find room_id rooms of
        None \<Rightarrow> (rm_room_not_found, rooms)
      | Some room \<Rightarrow>
          if member_count room < unat (r_capacity room) then (rm_success, rooms)
          else if member_count room > unat (r_capacity room) then (rm_internal_error, rooms)
          else (case room_start True room of (transition_state, room') \<Rightarrow>
            (case transition_state of
               tr_success \<Rightarrow> rm_success
             | tr_invalid_state \<Rightarrow> rm_room_not_joinable
             | tr_condition_not_met \<Rightarrow> rm_internal_error, um_assign room_id room' rooms)))"

text \<open>\<open>Room::connections\<close> has a default argument: no player has id 0.\<close>

definition rm_leave :: "(conn \<Rightarrow> bool) \<Rightarrow> u32 \<Rightarrow> u64 \<Rightarrow> RoomManager \<Rightarrow> RmNotifyResult \<times> RoomManager" where
  "rm_leave alive room_id player_id rooms =
     (case um_find room_id rooms of
        None \<Rightarrow> (notify_error rm_room_not_found, rooms)
      | Some room \<Rightarrow>
          if \<not> room_contains player_id room then (notify_error rm_not_in_room, rooms)
          else (case room_leave player_id room of (ok, room') \<Rightarrow>
            let rooms' = um_assign room_id room' rooms in
            if \<not> ok then (notify_error rm_internal_error, rooms')
            else (\<lparr>nr_state = rm_success, nr_room_id = room_id, nr_player_id = player_id,
                   nr_notify = room_connections alive 0 room'\<rparr>, rooms')))"

definition rm_chat :: "(conn \<Rightarrow> bool) \<Rightarrow> u32 \<Rightarrow> u64 \<Rightarrow> bytes \<Rightarrow> RoomManager \<Rightarrow> RmNotifyResult" where
  "rm_chat alive room_id player_id message rooms =
     (if message = [] \<or> length message > MAX_CHAT_MESSAGE_SIZE then notify_error rm_invalid_message
      else case um_find room_id rooms of
        None \<Rightarrow> notify_error rm_room_not_found
      | Some room \<Rightarrow>
          if \<not> room_contains player_id room then notify_error rm_not_in_room
          else \<lparr>nr_state = rm_success, nr_room_id = room_id, nr_player_id = player_id,
                nr_notify = room_connections alive 0 room\<rparr>)"

text \<open>\<open>CommandResult\<close> as (state, room id, player id); both commands share the mapping of
  \<open>Room::Commandstates\<close>.\<close>

definition command_result ::
  "u32 \<Rightarrow> u64 \<Rightarrow> Commandstates \<times> Room \<Rightarrow> RoomManager \<Rightarrow> (RmStates \<times> u32 \<times> u64) \<times> RoomManager" where
  "command_result room_id player_id res rooms =
     ((case fst res of
         cs_success \<Rightarrow> (rm_success, room_id, player_id)
       | cs_invalid_state \<Rightarrow> (rm_room_not_running, 0, 0)
       | cs_already_submitted \<Rightarrow> (rm_already_submitted, 0, 0)
       | cs_player_not_found \<Rightarrow> (rm_internal_error, 0, 0)), um_assign room_id (snd res) rooms)"

definition rm_move :: "u32 \<Rightarrow> u64 \<Rightarrow> i32 \<Rightarrow> i32 \<Rightarrow> RoomManager \<Rightarrow> (RmStates \<times> u32 \<times> u64) \<times> RoomManager" where
  "rm_move room_id player_id dx dy rooms =
     (case um_find room_id rooms of
        None \<Rightarrow> ((rm_room_not_found, 0, 0), rooms)
      | Some room \<Rightarrow>
          if \<not> room_contains player_id room then ((rm_not_in_room, 0, 0), rooms)
          else command_result room_id player_id (submit_move player_id dx dy room) rooms)"

definition rm_attack :: "u32 \<Rightarrow> u64 \<Rightarrow> u64 \<Rightarrow> RoomManager \<Rightarrow> (RmStates \<times> u32 \<times> u64) \<times> RoomManager" where
  "rm_attack room_id player_id target_player_id rooms =
     (case um_find room_id rooms of
        None \<Rightarrow> ((rm_room_not_found, 0, 0), rooms)
      | Some room \<Rightarrow>
          if \<not> room_contains player_id room then ((rm_not_in_room, 0, 0), rooms)
          else command_result room_id player_id (submit_attack player_id target_player_id room) rooms)"

fun tick_rooms :: "(conn \<Rightarrow> bool) \<Rightarrow> RoomManager \<Rightarrow> RmTickResult list \<times> RoomManager" where
  "tick_rooms alive [] = ([], [])"
| "tick_rooms alive ((k, room) # rest) =
     (case tick_rooms alive rest of (results, rest') \<Rightarrow>
        if room_state room \<noteq> running then (results, (k, room) # rest')
        else (case room_tick room of (tick_result, room') \<Rightarrow>
          if rt_state tick_result \<noteq> ts_success then (results, (k, room') # rest')
          else (\<lparr>tk_room_id = r_id room', tk_tick_id = rt_tick_id tick_result,
                 tk_processed = rt_processed_commands tick_result,
                 tk_successful = rt_successful_commands tick_result,
                 tk_snapshot = rt_snapshot tick_result,
                 tk_notify = room_connections alive 0 room'\<rparr> # results, (k, room') # rest')))"

definition rm_bind_connection ::
  "(conn \<Rightarrow> bool) \<Rightarrow> u32 \<Rightarrow> u64 \<Rightarrow> conn option \<Rightarrow> RoomManager \<Rightarrow> RmBindingResult \<times> RoomManager" where
  "rm_bind_connection alive room_id player_id connection rooms =
     (if connection = None then (binding_error mb_invalid_connection, rooms)
      else case um_find room_id rooms of
        None \<Rightarrow> (binding_error mb_room_not_found, rooms)
      | Some room \<Rightarrow>
          (case room_bind_connection alive player_id connection room of (st, room') \<Rightarrow>
            (case st of
               rb_success \<Rightarrow> \<lparr>br_state = mb_success, br_room_id = room_id, br_player_id = player_id,
                   br_room_state = room_state room', br_tick_id = r_tick_id room',
                   br_members = member_snapshot room', br_snapshot = game_snapshot room'\<rparr>
             | rb_invalid_connection \<Rightarrow> binding_error mb_invalid_connection
             | rb_player_not_found \<Rightarrow> binding_error mb_player_not_found
             | rb_already_bound \<Rightarrow> binding_error mb_already_bound
             | rb_not_bound \<Rightarrow> binding_error mb_internal_error
             | rb_connection_mismatch \<Rightarrow> binding_error mb_internal_error,
             um_assign room_id room' rooms)))"

definition rm_detach_connection ::
  "(conn \<Rightarrow> bool) \<Rightarrow> u32 \<Rightarrow> u64 \<Rightarrow> conn option \<Rightarrow> RoomManager \<Rightarrow> (RmBindingstates \<times> u32 \<times> u64) \<times> RoomManager" where
  "rm_detach_connection alive room_id player_id connection rooms =
     (if connection = None then ((mb_invalid_connection, 0, 0), rooms)
      else case um_find room_id rooms of
        None \<Rightarrow> ((mb_room_not_found, 0, 0), rooms)
      | Some room \<Rightarrow>
          (case room_detach_connection alive player_id connection room of (st, room') \<Rightarrow>
            (case st of
               rb_success \<Rightarrow> (mb_success, room_id, player_id)
             | rb_invalid_connection \<Rightarrow> (mb_invalid_connection, 0, 0)
             | rb_player_not_found \<Rightarrow> (mb_player_not_found, 0, 0)
             | rb_not_bound \<Rightarrow> (mb_not_bound, 0, 0)
             | rb_connection_mismatch \<Rightarrow> (mb_connection_mismatch, 0, 0)
             | rb_already_bound \<Rightarrow> (mb_internal_error, 0, 0),
             um_assign room_id room' rooms)))"

definition rm_make_checkpoint :: "RoomManager \<Rightarrow> RoomCheckpoint list" where
  "rm_make_checkpoint rooms = sort_key rc_room_id (map (\<lambda>(k, room). room_make_checkpoint room) rooms)"

text \<open>A capacity of 64 bits always fits \<open>std::size_t\<close> on the 64-bit target, so the first check
  of the loop never fails.\<close>

fun rm_restore_loop :: "RoomCheckpoint list \<Rightarrow> RoomManager \<Rightarrow> RoomManager option" where
  "rm_restore_loop [] temp_rooms = Some temp_rooms"
| "rm_restore_loop (cp # cps) temp_rooms =
     (if um_find (rc_room_id cp) temp_rooms \<noteq> None then None
      else case room_restore_checkpoint cp (Room_new (rc_room_id cp) (rc_capacity cp)) of
        (ok, room) \<Rightarrow>
          if \<not> ok then None
          else rm_restore_loop cps (um_emplace (rc_room_id cp) room temp_rooms))"

definition rm_restore_checkpoint :: "RoomCheckpoint list \<Rightarrow> RoomManager \<Rightarrow> bool \<times> RoomManager" where
  "rm_restore_checkpoint checkpoints rooms =
     (case rm_restore_loop checkpoints [] of None \<Rightarrow> (False, rooms) | Some temp_rooms \<Rightarrow> (True, temp_rooms))"

section \<open>The table invariant\<close>

lemma exec_room_ident: "r_id (exec_room alive op r) = r_id r"
proof (cases op)
  case (RStart b)
  then show ?thesis using room_start_cases [of b r] by auto
next
  case (RFinish b)
  then show ?thesis using room_finish_cases [of b r] by auto
next
  case (RJoin c n)
  then show ?thesis using room_join_cases [of c n r] by auto
next
  case (RLeave p)
  then show ?thesis by (simp add: room_leave_def split: prod.split)
next
  case RTick
  then show ?thesis by (cases "room_state r = running") (simp_all add: room_tick_running room_tick_idle)
next
  case (RRestore cp)
  then show ?thesis by (simp add: room_restore_iff restored_room_def)
qed (simp_all add: submit_move_def submit_attack_def room_bind_connection_def room_detach_connection_def
    split: option.split)

interpretation rooms: object_table room_inv r_id room_step
  by unfold_locales (auto simp: exec_room_inv exec_room_ident elim!: room_stepE)

interpretation live_rooms: object_table "\<lambda>r. room_inv r \<and> hp_tens (r_game r)" r_id live_step
  by unfold_locales (auto simp: exec_room_inv exec_room_tens exec_room_ident elim!: live_stepE)

abbreviation rooms_inv :: "RoomManager \<Rightarrow> bool" where
  "rooms_inv \<equiv> live_rooms.table_inv"

lemmas rooms_find = live_rooms.table_find [rotated]

text \<open>What an operation of the manager does to its table: nothing, or one operation of one room.\<close>

definition touches :: "(conn \<Rightarrow> bool) \<Rightarrow> u32 \<Rightarrow> room_op \<Rightarrow> RoomManager \<Rightarrow> RoomManager \<Rightarrow> bool" where
  "touches alive k op m m' \<longleftrightarrow> m' = m \<or> (\<exists>r. um_find k m = Some r \<and> m' = um_assign k (exec_room alive op r) m)"

lemma touches_inv: "touches alive k op m m' \<Longrightarrow> \<not> is_restore op \<Longrightarrow> rooms_inv m \<Longrightarrow> rooms_inv m'"
  by (auto simp: touches_def intro!: live_rooms.table_update live_step.intros)

lemma rm_touches:
  "touches alive k (RJoin c n) m (snd (rm_join alive c k n m))"
  "touches alive k (RStart True) m (snd (start_if_full k m))"
  "touches alive k (RLeave p) m (snd (rm_leave alive k p m))"
  "touches alive k (RMove p dx dy) m (snd (rm_move k p dx dy m))"
  "touches alive k (RAttack p t) m (snd (rm_attack k p t m))"
  "touches alive k (RBind p c) m (snd (rm_bind_connection alive k p c m))"
  "touches alive k (RDetach p c) m (snd (rm_detach_connection alive k p c m))"
  by (auto simp: touches_def rm_join_def start_if_full_def rm_leave_def rm_move_def rm_attack_def
      command_result_def rm_bind_connection_def rm_detach_connection_def Let_def split: option.split prod.split)

lemmas rm_inv = rm_touches [THEN touches_inv, simplified is_restore.simps not_False_eq_True, OF TrueI]

lemma rm_add_room_inv: "rooms_inv m \<Longrightarrow> rooms_inv (snd (rm_add_room k c m))"
  using live_rooms.table_add [of m "Room_new k c" k] room_new_inv [of k c] room_new_tens [of k c]
  by (simp add: rm_add_room_def Room_new_def)

definition ticked :: "Room \<Rightarrow> Room" where
  "ticked r = (if room_state r = running then snd (room_tick r) else r)"

lemma snd_tick_rooms: "snd (tick_rooms alive m) = map (\<lambda>(k, r). (k, ticked r)) m"
  by (induction alive m rule: tick_rooms.induct) (auto simp: ticked_def split: prod.split)

lemma tick_rooms_inv: "rooms_inv m \<Longrightarrow> rooms_inv (snd (tick_rooms alive m))"
  unfolding snd_tick_rooms
  by (rule live_rooms.table_pass) (auto simp: ticked_def intro: live_step.intros [of RTick, simplified])

section \<open>The roster: who is in which room, with which connection\<close>

type_synonym roster = "u32 \<times> u64 \<Rightarrow> conn option option"

definition room_roster :: "Room \<Rightarrow> u64 \<Rightarrow> conn option option" where
  "room_roster r p = map_option m_connection (um_find p (r_members r))"

definition roster :: "RoomManager \<Rightarrow> roster" where
  "roster m = (\<lambda>(k, p). case um_find k m of None \<Rightarrow> None | Some r \<Rightarrow> room_roster r p)"

lemma roster_find: "um_find k m = Some r \<Longrightarrow> roster m (k, p) = room_roster r p"
  by (simp add: roster_def)

lemma room_contains_roster: "room_contains p r \<longleftrightarrow> room_roster r p \<noteq> None"
  by (simp add: room_contains_def room_roster_def)

lemma roster_assign:
  "roster (um_assign k r m) = (\<lambda>(k', p). if k' = k then room_roster r p else roster m (k', p))"
  by (auto simp: roster_def)

lemma roster_same: "um_find k m = Some r \<Longrightarrow> room_roster r' = room_roster r \<Longrightarrow> roster (um_assign k r' m) = roster m"
  by (auto simp: roster_assign roster_find)

lemma roster_change:
  "um_find k m = Some r \<Longrightarrow> room_roster r' = (room_roster r)(p := v) \<Longrightarrow>
     roster (um_assign k r' m) = (roster m)((k, p) := v)"
  by (auto simp: roster_assign roster_find)

lemma roster_start: "room_roster (snd (room_start b r)) = room_roster r"
  using room_start_cases [of b r] by (auto simp: room_roster_def)

lemma roster_submit:
  "room_roster (snd (submit_move p dx dy r)) = room_roster r"
  "room_roster (snd (submit_attack p t r)) = room_roster r"
  by (simp_all add: fun_eq_iff submit_move_def submit_attack_def room_roster_def)

lemma roster_ticked: "room_roster (ticked r) = room_roster r"
  by (simp add: fun_eq_iff ticked_def room_tick_running room_roster_def)

lemma roster_tick: "roster (snd (tick_rooms alive m)) = roster m"
  by (auto simp: snd_tick_rooms roster_def um_find_map roster_ticked split: option.split)

text \<open>Joining.\<close>

lemma rm_join_success:
  assumes "rooms_inv m" and "jr_state (fst (rm_join alive c k n m)) = rm_success"
  shows "\<exists>r. um_find k m = Some r \<and> c \<noteq> None \<and> name_ok n \<and> room_state r = waiting \<and>
    length (r_members r) < unat (r_capacity r) \<and> r_next_player_id r \<noteq> 0 \<and>
    jr_room_id (fst (rm_join alive c k n m)) = k \<and>
    jr_player_id (fst (rm_join alive c k n m)) = r_next_player_id r \<and>
    roster m (k, r_next_player_id r) = None \<and>
    roster (snd (rm_join alive c k n m)) = (roster m)((k, r_next_player_id r) := Some c)"
proof -
  obtain r where r: "um_find k m = Some r" and c: "c \<noteq> None"
    using assms(2) by (auto simp: rm_join_def join_error_def split: option.splits if_splits)
  obtain res r' where j: "room_join c n r = (res, r')" by fastforce
  have s: "rj_state res = js_success"
    using assms(2) r c j by (cases "rj_state res") (auto simp: rm_join_def join_error_def Let_def)
  have mi: "members_inv r" using rooms_find [OF r assms(1)] by (simp add: room_inv_def)
  note rc = room_join_cases [of c n r]
  have "room_roster r' = (room_roster r)(r_next_player_id r := Some c)"
    using rc s j next_id_fresh [OF mi] by (auto simp: room_roster_def)
  then have "roster (um_assign k r' m) = (roster m)((k, r_next_player_id r) := Some c)"
    by (rule roster_change [OF r])
  moreover have "roster m (k, r_next_player_id r) = None"
    using rc s j next_id_fresh [OF mi] by (auto simp: roster_find [OF r] room_roster_def)
  ultimately show ?thesis
    using rc s j r c by (auto simp: rm_join_def Let_def)
qed

lemma rm_join_failed:
  assumes "jr_state (fst (rm_join alive c k n m)) \<noteq> rm_success"
  shows "roster (snd (rm_join alive c k n m)) = roster m"
proof (cases "c = None \<or> um_find k m = None")
  case True
  then show ?thesis by (auto simp: rm_join_def)
next
  case False
  then obtain r where r: "um_find k m = Some r" by auto
  obtain res r' where j: "room_join c n r = (res, r')" by fastforce
  have "rj_state res \<noteq> js_success" using assms False r j by (auto simp: rm_join_def Let_def)
  then have "r' = r" using room_join_cases [of c n r] j by auto
  then show ?thesis using False r j by (simp add: rm_join_def Let_def roster_same)
qed

lemma roster_start_if_full: "roster (snd (start_if_full k m)) = roster m"
proof (cases "um_find k m")
  case (Some r)
  obtain st r' where s: "room_start True r = (st, r')" by fastforce
  then have "room_roster r' = room_roster r" using roster_start [of True r] by simp
  from roster_same [OF Some this] show ?thesis using Some s by (simp add: start_if_full_def)
qed (simp add: start_if_full_def)

lemma roster_commands:
  "roster (snd (rm_move k p dx dy m)) = roster m"
  "roster (snd (rm_attack k p t m)) = roster m"
  by (cases "um_find k m";
      simp add: rm_move_def rm_attack_def command_result_def roster_same roster_submit)+

text \<open>Leaving.\<close>

lemma rm_leave_cases:
  assumes "rooms_inv m"
  shows "(roster m (k, p) = None \<and> snd (rm_leave alive k p m) = m \<and> nr_state (fst (rm_leave alive k p m)) \<noteq> rm_success) \<or>
    (roster m (k, p) \<noteq> None \<and> nr_state (fst (rm_leave alive k p m)) = rm_success \<and>
     nr_room_id (fst (rm_leave alive k p m)) = k \<and> nr_player_id (fst (rm_leave alive k p m)) = p \<and>
     roster (snd (rm_leave alive k p m)) = (roster m)((k, p) := None))"
proof (cases "um_find k m")
  case None
  then show ?thesis by (simp add: rm_leave_def notify_error_def roster_def)
next
  case (Some r)
  have inv: "room_inv r" using rooms_find [OF Some assms] by simp
  show ?thesis
  proof (cases "room_contains p r")
    case False
    then show ?thesis using Some
      by (simp add: rm_leave_def notify_error_def roster_find room_contains_roster)
  next
    case True
    have "room_roster (r\<lparr>r_members := um_erase p (r_members r), r_game := um_erase p (r_game r)\<rparr>) =
        (room_roster r)(p := None)"
      by (auto simp: room_roster_def)
    note ch = roster_change [OF Some this]
    have "roster m (k, p) \<noteq> None" using True Some by (simp add: roster_find room_contains_roster)
    with ch show ?thesis
      using Some True by (simp add: rm_leave_def room_leave_known [OF inv True] Let_def)
  qed
qed

text \<open>Binding and detaching connections.\<close>

lemma rm_bind_cases:
  assumes "c \<noteq> None"
  shows "(roster (snd (rm_bind_connection alive k p c m)) = roster m \<and>
      br_state (fst (rm_bind_connection alive k p c m)) \<noteq> mb_success \<and>
      (roster m (k, p) = None \<or> weak_lock alive (the (roster m (k, p))) \<noteq> None)) \<or>
    (\<exists>w. roster m (k, p) = Some w \<and> weak_lock alive w = None \<and>
      br_state (fst (rm_bind_connection alive k p c m)) = mb_success \<and>
      br_room_id (fst (rm_bind_connection alive k p c m)) = k \<and>
      br_player_id (fst (rm_bind_connection alive k p c m)) = p \<and>
      roster (snd (rm_bind_connection alive k p c m)) = (roster m)((k, p) := Some c))"
proof (cases "um_find k m")
  case None
  then show ?thesis using assms by (simp add: rm_bind_connection_def binding_error_def roster_def)
next
  case (Some r)
  show ?thesis
  proof (cases "um_find p (r_members r)")
    case None
    then show ?thesis using Some assms
      by (simp add: rm_bind_connection_def room_bind_connection_def binding_error_def roster_find
          room_roster_def roster_same)
  next
    case m: (Some mem)
    have "room_roster (r\<lparr>r_members := um_assign p (mem\<lparr>m_connection := c\<rparr>) (r_members r)\<rparr>) =
        (room_roster r)(p := Some c)"
      by (auto simp: room_roster_def)
    note ch = roster_change [OF Some this]
    then show ?thesis using Some m assms
      by (cases "weak_lock alive (m_connection mem)")
        (simp_all add: rm_bind_connection_def room_bind_connection_def binding_error_def roster_find
          room_roster_def roster_same)
  qed
qed

lemma rm_detach_cases:
  assumes "c \<noteq> None"
  shows "(roster (snd (rm_detach_connection alive k p c m)) = roster m \<and>
      fst (fst (rm_detach_connection alive k p c m)) \<noteq> mb_success \<and>
      \<not> (\<exists>w. roster m (k, p) = Some w \<and> weak_lock alive w = c)) \<or>
    (\<exists>w. roster m (k, p) = Some w \<and> weak_lock alive w = c \<and>
      fst (fst (rm_detach_connection alive k p c m)) = mb_success \<and>
      roster (snd (rm_detach_connection alive k p c m)) = (roster m)((k, p) := Some None))"
proof (cases "um_find k m")
  case None
  then show ?thesis using assms by (simp add: rm_detach_connection_def roster_def)
next
  case (Some r)
  show ?thesis
  proof (cases "um_find p (r_members r)")
    case None
    then show ?thesis using Some assms
      by (simp add: rm_detach_connection_def room_detach_connection_def roster_find room_roster_def roster_same)
  next
    case m: (Some mem)
    have "room_roster (r\<lparr>r_members := um_assign p (mem\<lparr>m_connection := None\<rparr>) (r_members r)\<rparr>) =
        (room_roster r)(p := Some None)"
      by (auto simp: room_roster_def)
    note ch = roster_change [OF Some this]
    then show ?thesis using Some m assms
      by (cases "weak_lock alive (m_connection mem)"; cases "weak_lock alive (m_connection mem) = c")
        (auto simp add: rm_detach_connection_def room_detach_connection_def roster_find
          room_roster_def roster_same)
  qed
qed

section \<open>Checkpoints of the whole table\<close>

definition restored_pair :: "RoomCheckpoint \<Rightarrow> u32 \<times> Room" where
  "restored_pair cp = (rc_room_id cp, restored_room cp (Room_new (rc_room_id cp) (rc_capacity cp)))"

lemma rm_restore_loop_Some:
  "rm_restore_loop cps t = Some t' \<longleftrightarrow>
     distinct (map rc_room_id cps) \<and> (\<forall>cp\<in>set cps. checkpoint_ok cp \<and> um_find (rc_room_id cp) t = None) \<and>
     t' = t @ map restored_pair cps"
proof (induction cps t rule: rm_restore_loop.induct)
  case (1 t)
  then show ?case by auto
next
  case (2 cp cps t)
  have snoc: "um_find k (t @ [restored_pair cp]) = None \<longleftrightarrow> um_find k t = None \<and> k \<noteq> rc_room_id cp" for k
    by (auto simp: um_find_def map_add_def restored_pair_def split: option.splits)
  have notin: "rc_room_id cp \<notin> rc_room_id ` set cps \<longleftrightarrow> (\<forall>x\<in>set cps. rc_room_id x \<noteq> rc_room_id cp)"
    by (auto intro: rev_image_eqI)
  show ?case
  proof (cases "um_find (rc_room_id cp) t \<noteq> None \<or> \<not> checkpoint_ok cp")
    case True
    then show ?thesis by (auto simp: room_restore_iff Room_new_def)
  next
    case False
    then have res: "room_restore_checkpoint cp (Room_new (rc_room_id cp) (rc_capacity cp)) =
        (True, snd (restored_pair cp))"
      by (simp add: room_restore_iff Room_new_def restored_pair_def)
    have "rm_restore_loop (cp # cps) t = rm_restore_loop cps (t @ [restored_pair cp])"
      using False by (simp add: res um_emplace_def restored_pair_def)
    moreover have "um_emplace (rc_room_id cp) (snd (restored_pair cp)) t = t @ [restored_pair cp]"
      using False by (simp add: um_emplace_def restored_pair_def)
    ultimately show ?thesis
      using "2.IH" [OF _ res [symmetric]] False notin by (auto simp: snoc)
  qed
qed

definition rooms_ok :: "RoomCheckpoint list \<Rightarrow> bool" where
  "rooms_ok cps \<longleftrightarrow> distinct (map rc_room_id cps) \<and> (\<forall>cp\<in>set cps. checkpoint_ok cp)"

lemma rm_restore_iff:
  "rm_restore_checkpoint cps m = (if rooms_ok cps then (True, map restored_pair cps) else (False, m))"
  using rm_restore_loop_Some [of cps "[]" "map restored_pair cps"] rm_restore_loop_Some [of cps "[]"]
  by (cases "rm_restore_loop cps []") (auto simp: rm_restore_checkpoint_def rooms_ok_def)

text \<open>The identities named by room checkpoints.\<close>

definition room_identities :: "RoomCheckpoint list \<Rightarrow> (u32 \<times> u64) set" where
  "room_identities cps = (\<Union>cp\<in>set cps. (\<lambda>m. (rc_room_id cp, cm_player_id m)) ` set (rc_members cp))"

lemma find_restored:
  assumes "rooms_ok cps"
  shows "um_find k (map restored_pair cps) = Some r \<longleftrightarrow> (\<exists>cp\<in>set cps. rc_room_id cp = k \<and> snd (restored_pair cp) = r)"
proof -
  have "um_wf (map restored_pair cps)"
    using assms by (simp add: rooms_ok_def um_wf_def restored_pair_def comp_def)
  then show ?thesis
    by (subst um_entries_find [symmetric]) (auto simp: restored_pair_def)
qed

lemma roster_restored:
  assumes "rooms_ok cps"
  shows "roster (map restored_pair cps) = (\<lambda>i. if i \<in> room_identities cps then Some None else None)"
proof (rule ext)
  fix i :: "u32 \<times> u64"
  obtain k p where i: "i = (k, p)" by fastforce
  have unique: "cp = cp'" if "cp \<in> set cps" "cp' \<in> set cps" "rc_room_id cp = rc_room_id cp'" for cp cp'
    using assms that by (auto simp: rooms_ok_def distinct_map inj_on_def)
  have room: "room_roster (snd (restored_pair cp)) p =
      (if p \<in> cm_player_id ` set (rc_members cp) then Some None else None)" if "cp \<in> set cps" for cp
  proof -
    have d: "distinct (map cm_player_id (rc_members cp))"
      using assms that by (simp add: rooms_ok_def checkpoint_ok_def)
    have "um_find p (map restored_entry (rc_members cp)) = Some mem \<longleftrightarrow>
        (\<exists>x\<in>set (rc_members cp). cm_player_id x = p \<and> snd (restored_entry x) = mem)" for mem
      using um_find_fold_emplace [OF d, of p "\<lambda>x. snd (restored_entry x)" mem]
      unfolding restored_entry_def [abs_def] by simp
    then have "um_find p (map restored_entry (rc_members cp)) = Some mem \<Longrightarrow> m_connection mem = None" for mem
      by (auto simp: restored_entry_def)
    then show ?thesis
      using restored_keys [of p "rc_members cp"]
      by (auto simp: room_roster_def restored_pair_def restored_room_def split: option.splits)
  qed
  show "roster (map restored_pair cps) i = (if i \<in> room_identities cps then Some None else None)"
  proof (cases "um_find k (map restored_pair cps)")
    case None
    then have "rc_room_id cp \<noteq> k" if "cp \<in> set cps" for cp
      using that find_restored [OF assms, of k "snd (restored_pair cp)"] by auto
    then show ?thesis using None by (auto simp: i roster_def room_identities_def)
  next
    case (Some r)
    then obtain cp where cp: "cp \<in> set cps" "rc_room_id cp = k" "snd (restored_pair cp) = r"
      using find_restored [OF assms] by blast
    have "(k, p) \<in> room_identities cps \<longleftrightarrow> p \<in> cm_player_id ` set (rc_members cp)"
      using cp(1,2) unique by (auto simp: room_identities_def)
    then show ?thesis using room [OF cp(1)] Some cp(3) by (simp add: i roster_find)
  qed
qed

lemma in_rm_checkpoint:
  assumes "rooms_inv m"
  shows "cp \<in> set (rm_make_checkpoint m) \<longleftrightarrow> (\<exists>k r. um_find k m = Some r \<and> cp = room_make_checkpoint r)"
proof -
  have "um_wf m" using assms by (simp add: live_rooms.table_inv_def)
  then show ?thesis by (simp add: rm_make_checkpoint_def um_entries_find [symmetric]) force
qed

lemma rm_checkpoint_id: "rooms_inv m \<Longrightarrow> um_find k m = Some r \<Longrightarrow> rc_room_id (room_make_checkpoint r) = k"
  using rooms_find [of k m r] by (simp add: room_make_checkpoint_def)

lemma rm_checkpoint_ok:
  assumes "rooms_inv m"
  shows "rooms_ok (rm_make_checkpoint m)"
proof -
  have wf: "um_wf m" using assms by (simp add: live_rooms.table_inv_def)
  have "rc_room_id (room_make_checkpoint r) = k" if "(k, r) \<in> set m" for k r
    using that rm_checkpoint_id [OF assms, of k r] by (simp add: um_entries_find [OF wf])
  then have ids: "map rc_room_id (map (\<lambda>(k, r). room_make_checkpoint r) m) = map fst m"
    by auto
  have "distinct (map rc_room_id (rm_make_checkpoint m))"
    using wf unfolding rm_make_checkpoint_def distinct_map_sort_key ids by (simp only: um_wf_def)
  moreover have "checkpoint_ok cp" if in_cps: "cp \<in> set (rm_make_checkpoint m)" for cp
  proof -
    obtain k r where r: "um_find k m = Some r" and cp: "cp = room_make_checkpoint r"
      using in_cps in_rm_checkpoint [OF assms] by blast
    show ?thesis unfolding cp using rooms_find [OF r assms] by (intro make_checkpoint_ok) simp_all
  qed
  ultimately show ?thesis by (simp add: rooms_ok_def)
qed

lemma room_identities_checkpoint:
  assumes "rooms_inv m"
  shows "room_identities (rm_make_checkpoint m) = dom (roster m)"
proof -
  have "cm_player_id ` set (rc_members (room_make_checkpoint r)) = {p. room_roster r p \<noteq> None}"
    if "um_find k m = Some r" for k r
  proof -
    have mi: "members_inv r" using rooms_find [OF that assms] by (simp add: room_inv_def)
    show ?thesis unfolding checkpoint_member_ids(1) [OF mi]
      using um_find_None_iff [of _ "r_members r"] by (auto simp: room_roster_def)
  qed
  then show ?thesis
    using in_rm_checkpoint [OF assms] rm_checkpoint_id [OF assms]
    by (fastforce simp: room_identities_def roster_def dom_def split: option.splits)
qed

lemma rm_make_restored:
  assumes "rooms_ok cps" and "sorted (map rc_room_id cps)"
    and "\<forall>cp\<in>set cps. sorted (map cm_player_id (rc_members cp)) \<and> sorted (map pgs_player_id (rc_game_states cp))"
  shows "rm_make_checkpoint (map restored_pair cps) = cps"
proof -
  have "room_make_checkpoint (snd (restored_pair cp)) = cp" if "cp \<in> set cps" for cp
    using assms that make_restored [of cp "Room_new (rc_room_id cp) (rc_capacity cp)"]
    by (simp add: rooms_ok_def restored_pair_def Room_new_def)
  then have "map (\<lambda>(k, r). room_make_checkpoint r) (map restored_pair cps) = cps"
    by (simp add: comp_def split_beta map_idI)
  then show ?thesis using assms(2) by (simp only: rm_make_checkpoint_def sort_key_sorted_id)
qed

lemma rm_checkpoint_sorted:
  "sorted (map rc_room_id (rm_make_checkpoint m))"
  "\<forall>cp\<in>set (rm_make_checkpoint m). sorted (map cm_player_id (rc_members cp)) \<and> sorted (map pgs_player_id (rc_game_states cp))"
  by (auto simp: rm_make_checkpoint_def checkpoint_sorted)

lemma restored_pair_live:
  assumes "checkpoint_ok cp" and "\<forall>s\<in>set (rc_game_states cp). sint (pgs_hp s) mod 10 = 0"
  shows "room_inv (snd (restored_pair cp)) \<and> hp_tens (r_game (snd (restored_pair cp))) \<and>
    r_id (snd (restored_pair cp)) = rc_room_id cp"
proof -
  have "restorable (rc_game_states cp)" using assms(1) by (simp add: checkpoint_ok_def)
  then have d: "distinct (map pgs_player_id (rc_game_states cp))"
    and z: "\<forall>s\<in>set (rc_game_states cp). 0 \<le> sint (pgs_hp s)"
    by (simp_all add: restorable_def)
  have "hp_tens (map (\<lambda>s. (pgs_player_id s, s)) (rc_game_states cp))"
    using um_find_fold_emplace [OF d, of _ "\<lambda>s. s"] z assms(2) by (auto simp: hp_tens_def)
  then show ?thesis
    using restored_room_inv [OF assms(1), of "Room_new (rc_room_id cp) (rc_capacity cp)"]
    by (simp add: restored_pair_def Room_new_def restored_room_def)
qed

lemma rm_checkpoint_tens:
  assumes "rooms_inv m" and "cp \<in> set (rm_make_checkpoint m)" and "s \<in> set (rc_game_states cp)"
  shows "sint (pgs_hp s) mod 10 = 0"
proof -
  obtain k r where r: "um_find k m = Some r" and cp: "cp = room_make_checkpoint r"
    using assms(2) in_rm_checkpoint [OF assms(1)] by blast
  have g: "gs_inv (r_game r)" "hp_tens (r_game r)"
    using rooms_find [OF r assms(1)] by (simp_all add: room_inv_defs)
  have "s \<in> set (snapshot (r_game r))" using assms(3) by (simp add: cp room_make_checkpoint_def)
  then show ?thesis using in_snapshot [OF g(1)] g(2) by (auto simp: hp_tens_def)
qed

lemma rm_restart:
  assumes "rooms_inv m"
  shows "fst (rm_restore_checkpoint (rm_make_checkpoint m) m0)"
    and "rooms_inv (snd (rm_restore_checkpoint (rm_make_checkpoint m) m0))"
    and "rm_make_checkpoint (snd (rm_restore_checkpoint (rm_make_checkpoint m) m0)) = rm_make_checkpoint m"
    and "roster (snd (rm_restore_checkpoint (rm_make_checkpoint m) m0)) =
      (\<lambda>i. if roster m i \<noteq> None then Some None else None)"
proof -
  let ?c = "rm_make_checkpoint m"
  note ok = rm_checkpoint_ok [OF assms]
  then show "fst (rm_restore_checkpoint ?c m0)" by (simp add: rm_restore_iff)
  have eq: "snd (rm_restore_checkpoint ?c m0) = map restored_pair ?c" using ok by (simp add: rm_restore_iff)
  have "um_wf (map restored_pair ?c)"
    using ok by (simp add: rooms_ok_def um_wf_def restored_pair_def comp_def)
  moreover have "room_inv (snd (restored_pair cp)) \<and> hp_tens (r_game (snd (restored_pair cp))) \<and>
      r_id (snd (restored_pair cp)) = rc_room_id cp" if "cp \<in> set ?c" for cp
    using that ok rm_checkpoint_tens [OF assms that] by (intro restored_pair_live) (auto simp: rooms_ok_def)
  ultimately show "rooms_inv (snd (rm_restore_checkpoint ?c m0))"
    unfolding eq live_rooms.table_inv_def by (auto simp: find_restored [OF ok])
  show "rm_make_checkpoint (snd (rm_restore_checkpoint ?c m0)) = ?c"
    unfolding eq by (rule rm_make_restored [OF ok rm_checkpoint_sorted])
  show "roster (snd (rm_restore_checkpoint ?c m0)) = (\<lambda>i. if roster m i \<noteq> None then Some None else None)"
    unfolding eq roster_restored [OF ok] room_identities_checkpoint [OF assms] by (simp add: dom_def)
qed

section \<open>Properties\<close>

definition tick_report :: "(conn \<Rightarrow> bool) \<Rightarrow> Room \<Rightarrow> RmTickResult" where
  "tick_report alive r =
     \<lparr>tk_room_id = r_id r, tk_tick_id = r_tick_id r + 1, tk_processed = pending_command_count r,
      tk_successful = rt_successful_commands (fst (room_tick r)),
      tk_snapshot = game_snapshot (snd (room_tick r)), tk_notify = room_connections alive 0 r\<rparr>"

lemma tick_report_eq:
  assumes "room_state r = running"
  shows "\<lparr>tk_room_id = r_id (snd (room_tick r)), tk_tick_id = rt_tick_id (fst (room_tick r)),
      tk_processed = rt_processed_commands (fst (room_tick r)),
      tk_successful = rt_successful_commands (fst (room_tick r)), tk_snapshot = rt_snapshot (fst (room_tick r)),
      tk_notify = room_connections alive 0 (snd (room_tick r))\<rparr> = tick_report alive r"
  using assms by (simp add: tick_report_def room_tick_running pending_command_count_def game_snapshot_def
      room_connections_def)

text \<open>One pass of \<open>tick_rooms\<close> ticks every running room exactly once and no other room, and
  reports exactly the running rooms, each with its new tick id, its command counts, its new
  snapshot and its live connections; rooms are neither added nor lost.\<close>

theorem tick_rooms_ticks_the_running_rooms:
  "um_find k (snd (tick_rooms alive m)) =
     map_option (\<lambda>r. if room_state r = running then snd (room_tick r) else r) (um_find k m) \<and>
   fst (tick_rooms alive m) = map (tick_report alive) (filter (\<lambda>r. room_state r = running) (map snd m)) \<and>
   map fst (snd (tick_rooms alive m)) = map fst m"
proof -
  have "fst (tick_rooms alive m) = map (tick_report alive) (filter (\<lambda>r. room_state r = running) (map snd m))"
  proof (induction alive m rule: tick_rooms.induct)
    case (2 alive k room rest)
    then show ?case
      using tick_report_eq [of room alive]
      by (auto simp: room_tick_running split: prod.split)
  qed simp
  then show ?thesis by (simp add: snd_tick_rooms um_find_map ticked_def comp_def split_beta)
qed

text \<open>C33: \<open>start_if_full\<close> on a reachable waiting room: below its capacity nothing happens; at a
  capacity of 1 to 101 the room starts running with exactly its members on the board at tick
  0; at a larger capacity (or 0) the start fails with \<open>internal_error\<close> and the room is
  unchanged, so such a room can be created and joined but never started.\<close>

theorem start_if_full_starts_rooms_of_up_to_101:
  assumes "reach fresh_room room_step r" and "um_find k m = Some r" and "room_state r = waiting"
  shows "(member_count r < unat (r_capacity r) \<longrightarrow> start_if_full k m = (rm_success, m)) \<and>
    (member_count r = unat (r_capacity r) \<and> 1 \<le> member_count r \<and> member_count r \<le> 101 \<longrightarrow>
       (\<exists>r'. start_if_full k m = (rm_success, um_assign k r' m) \<and> room_state r' = running \<and> r_tick_id r' = 0 \<and>
         r_members r' = r_members r \<and> (\<forall>p. gs_contains p (r_game r') \<longleftrightarrow> room_contains p r))) \<and>
    (member_count r = unat (r_capacity r) \<and> (member_count r = 0 \<or> 101 < member_count r) \<longrightarrow>
       fst (start_if_full k m) = rm_internal_error \<and> um_find k (snd (start_if_full k m)) = Some r)"
proof -
  have inv: "room_inv r" using assms(1) by (rule room.reach_inv)
  then have mi: "members_inv r" by (simp add: room_inv_def)
  let ?ids = "map (\<lambda>(k, m). m_player_id m) (r_members r)"
  have ids: "?ids = map fst (r_members r)" using keyed_players [OF mi] .
  have z: "0 \<notin> set (map fst (r_members r))"
    using mi um_find_None_iff [of 0 "r_members r"] by (auto simp: members_inv_def member_ok_def)
  have len: "length ?ids = member_count r" by (simp add: member_count_def)
  have none: "check_player_ids ?ids [] = None"
    unfolding check_player_ids_None ids using z distinct_keys [OF mi] by simp
  show ?thesis
  proof (intro conjI impI)
    assume "member_count r < unat (r_capacity r)"
    then show "start_if_full k m = (rm_success, m)" using assms(2) by (simp add: start_if_full_def)
  next
    assume a: "member_count r = unat (r_capacity r) \<and> 1 \<le> member_count r \<and> member_count r \<le> 101"
    let ?g = "place_players (sort ?ids) 0 []"
    let ?r = "r\<lparr>r_machine := \<lparr>rsm_state = running\<rparr>, r_game := ?g, r_tick_id := 0, r_pending := []\<rparr>"
    have init: "initialize ?ids Gamestate_new = (gs_success, ?g)"
      using a none len by (auto simp: initialize_cases)
    then have "room_start True r = (tr_success, ?r)"
      using assms(3) by (cases "r_machine r") (simp add: room_start_def room_state_def rsm_start_def)
    then have "start_if_full k m = (rm_success, um_assign k ?r m)"
      using assms(2) a by (simp add: start_if_full_def)
    moreover have "gs_contains p ?g \<longleftrightarrow> room_contains p r" for p
      using initialize_inv [OF init] um_find_None_iff [of p "r_members r"] unfolding ids
      by (simp add: gs_contains_def um_contains_def room_contains_def)
    ultimately show "\<exists>r'. start_if_full k m = (rm_success, um_assign k r' m) \<and> room_state r' = running \<and>
        r_tick_id r' = 0 \<and> r_members r' = r_members r \<and> (\<forall>p. gs_contains p (r_game r') \<longleftrightarrow> room_contains p r)"
      by (intro exI [of _ ?r]) (simp add: room_state_def)
  next
    assume a: "member_count r = unat (r_capacity r) \<and> (member_count r = 0 \<or> 101 < member_count r)"
    have "fst (initialize ?ids Gamestate_new) \<noteq> gs_success"
      using a len by (auto simp: initialize_cases)
    then have "room_start True r = (tr_condition_not_met, r)"
      using assms(3) by (auto simp: room_start_def room_state_def Let_def split: prod.split)
    then show "fst (start_if_full k m) = rm_internal_error" "um_find k (snd (start_if_full k m)) = Some r"
      using assms(2) a by (simp_all add: start_if_full_def)
  qed
qed

theorem start_if_full_starts_rooms_of_up_to_101_witness:
  "fst (start_if_full 1 [(1, Room_new 1 0)]) = rm_internal_error"
proof -
  have f: "um_find 1 [(1, Room_new 1 0)] = Some (Room_new 1 0)" by (simp add: um_find_def)
  have w: "room_state (Room_new 1 0) = waiting"
    by (simp add: room_state_def Room_new_def Roomstatemachine_new_def)
  show ?thesis
    using start_if_full_starts_rooms_of_up_to_101 [OF reach_new(2) f w]
    by (simp add: member_count_def Room_new_def)
qed

end
