(* ===== verification/Session_Manager.thy ===== *)
theory Session_Manager
  imports Room
begin

text \<open>
  \<open>Session\<close> and \<open>SessionManager\<close> (\<open>src/session.cpp\<close>, \<open>src/session_manager.cpp\<close>): the
  reconnect tokens, the stable identity behind each of them, and the binding of connections to
  tokens. Connection objects are named by \<open>conn\<close> and never reused; their addresses, by which
  the code keys its bindings, are given by the argument \<open>addr\<close> and may be reused once an
  object is gone (\<open>alive\<close> says which objects still exist). Time is in nanoseconds. What the
  successive calls of \<open>getrandom\<close> return is an argument of the operation that issues a token.
\<close>

type_synonym time_point = int

datatype SessionStates = online | offline

record Session =
  s_room_id :: u32
  s_player_id :: u64
  s_state :: SessionStates
  s_connection :: "conn option"
  s_offline_deadline :: time_point

section \<open>One session\<close>

definition Session_new :: "u32 \<Rightarrow> u64 \<Rightarrow> conn option \<Rightarrow> Session" where
  "Session_new room_id player_id connection =
     \<lparr>s_room_id = room_id, s_player_id = player_id, s_state = online, s_connection = connection,
      s_offline_deadline = 0\<rparr>"

definition Session_offline :: "u32 \<Rightarrow> u64 \<Rightarrow> time_point \<Rightarrow> Session" where
  "Session_offline room_id player_id offline_deadline =
     \<lparr>s_room_id = room_id, s_player_id = player_id, s_state = offline, s_connection = None,
      s_offline_deadline = offline_deadline\<rparr>"

definition session_matches :: "(conn \<Rightarrow> bool) \<Rightarrow> (conn \<Rightarrow> nat) \<Rightarrow> conn option \<Rightarrow> Session \<Rightarrow> bool" where
  "session_matches alive addr connection s =
     (if s_state s \<noteq> online then False
      else case connection of None \<Rightarrow> False
      | Some c \<Rightarrow> (case weak_lock alive (s_connection s) of None \<Rightarrow> False | Some cur \<Rightarrow> addr cur = addr c))"

definition session_bind :: "conn option \<Rightarrow> time_point \<Rightarrow> Session \<Rightarrow> bool \<times> Session" where
  "session_bind connection now s =
     (if connection = None then (False, s)
      else if s_state s \<noteq> offline then (False, s)
      else if now \<ge> s_offline_deadline s then (False, s)
      else (True, s\<lparr>s_connection := connection, s_state := online\<rparr>))"

definition session_detach ::
  "(conn \<Rightarrow> bool) \<Rightarrow> (conn \<Rightarrow> nat) \<Rightarrow> conn option \<Rightarrow> time_point \<Rightarrow> Session \<Rightarrow> bool \<times> Session" where
  "session_detach alive addr connection offline_deadline s =
     (if connection = None then (False, s)
      else if s_state s \<noteq> online then (False, s)
      else if \<not> session_matches alive addr connection s then (False, s)
      else (True, s\<lparr>s_connection := None, s_offline_deadline := offline_deadline, s_state := offline\<rparr>))"

definition session_expired :: "time_point \<Rightarrow> Session \<Rightarrow> bool" where
  "session_expired now s = (if s_state s \<noteq> offline then False else now \<ge> s_offline_deadline s)"

section \<open>The manager\<close>

datatype SmStates =
    sm_success | sm_wrong_thread | sm_invalid_connection | sm_already_bound | sm_invalid_token
  | sm_session_online | sm_session_expired | sm_session_not_expired | sm_not_bound | sm_internal_error

record SmResult =
  sr_state :: SmStates
  sr_token :: bytes
  sr_room_id :: u32
  sr_player_id :: u64

record SessionManager =
  sm_reconnect_timeout :: int \<comment> \<open>milliseconds\<close>
  sm_sessions :: "(bytes, Session) umap"
  sm_bindings :: "(nat, bytes) umap"

definition TOKEN_SIZE :: nat where "TOKEN_SIZE = 32"

definition SessionManager_new :: "int \<Rightarrow> SessionManager" where
  "SessionManager_new reconnect_timeout =
     \<lparr>sm_reconnect_timeout = reconnect_timeout, sm_sessions = [], sm_bindings = []\<rparr>"

definition sm_result :: "SmStates \<Rightarrow> SmResult" where
  "sm_result st = \<lparr>sr_state = st, sr_token = [], sr_room_id = 0, sr_player_id = 0\<rparr>"

text \<open>
  One call of \<open>getrandom\<close>: some bytes (at most as many as were asked for), an interruption, or
  a failure. The loop reads until it has enough; when the list ends, further calls fail.
\<close>

datatype getrandom_result = Random bytes | Interrupted | RandomFailed

fun fill_random :: "nat \<Rightarrow> bytes \<Rightarrow> getrandom_result list \<Rightarrow> bytes option" where
  "fill_random n got rs =
     (if n \<le> length got then Some got
      else case rs of
        [] \<Rightarrow> None
      | Random bs # rs' \<Rightarrow>
          if bs = [] then None else fill_random n (got @ take (n - length got) bs) rs'
      | Interrupted # rs' \<Rightarrow> fill_random n got rs'
      | RandomFailed # rs' \<Rightarrow> None)"

declare fill_random.simps [simp del]

definition hex_digit :: "u8 \<Rightarrow> u8" where
  "hex_digit v = (if v < 10 then 48 + v else 87 + v)"

definition generate_token :: "getrandom_result list \<Rightarrow> bytes" where
  "generate_token rs =
     (case fill_random (TOKEN_SIZE div 2) [] rs of
        None \<Rightarrow> []
      | Some bs \<Rightarrow> concat (map (\<lambda>b. [hex_digit (drop_bit 4 b AND 0x0F), hex_digit (b AND 0x0F)]) bs))"

definition sm_create ::
  "(conn \<Rightarrow> nat) \<Rightarrow> getrandom_result list \<Rightarrow> conn option \<Rightarrow> u32 \<Rightarrow> u64 \<Rightarrow> SessionManager \<Rightarrow> SmResult \<times> SessionManager" where
  "sm_create addr rs connection room_id player_id sm =
     (case connection of None \<Rightarrow> (sm_result sm_invalid_connection, sm)
      | Some c \<Rightarrow>
        if um_find (addr c) (sm_bindings sm) \<noteq> None then (sm_result sm_already_bound, sm)
        else let token = generate_token rs in
          if token = [] then (sm_result sm_internal_error, sm)
          else if um_find token (sm_sessions sm) \<noteq> None then (sm_result sm_internal_error, sm)
          else (\<lparr>sr_state = sm_success, sr_token = token, sr_room_id = room_id, sr_player_id = player_id\<rparr>,
                sm\<lparr>sm_sessions := um_emplace token (Session_new room_id player_id connection) (sm_sessions sm),
                   sm_bindings := um_emplace (addr c) token (sm_bindings sm)\<rparr>))"

definition sm_lookup :: "(conn \<Rightarrow> nat) \<Rightarrow> conn option \<Rightarrow> SessionManager \<Rightarrow> SmResult" where
  "sm_lookup addr connection sm =
     (case connection of None \<Rightarrow> sm_result sm_invalid_connection
      | Some c \<Rightarrow>
        (case um_find (addr c) (sm_bindings sm) of None \<Rightarrow> sm_result sm_not_bound
         | Some token \<Rightarrow>
           (case um_find token (sm_sessions sm) of None \<Rightarrow> sm_result sm_internal_error
            | Some s \<Rightarrow> \<lparr>sr_state = sm_success, sr_token = token, sr_room_id = s_room_id s,
                         sr_player_id = s_player_id s\<rparr>)))"

definition sm_resume ::
  "(conn \<Rightarrow> nat) \<Rightarrow> conn option \<Rightarrow> bytes \<Rightarrow> time_point \<Rightarrow> SessionManager \<Rightarrow> SmResult \<times> SessionManager" where
  "sm_resume addr connection token now sm =
     (case connection of None \<Rightarrow> (sm_result sm_invalid_connection, sm)
      | Some c \<Rightarrow>
        if um_find (addr c) (sm_bindings sm) \<noteq> None then (sm_result sm_already_bound, sm)
        else case um_find token (sm_sessions sm) of None \<Rightarrow> (sm_result sm_invalid_token, sm)
        | Some session \<Rightarrow>
          if s_state session \<noteq> offline then (sm_result sm_session_online, sm)
          else if session_expired now session then (sm_result sm_session_expired, sm)
          else let bindings = um_emplace (addr c) token (sm_bindings sm) in
            (case session_bind connection now session of (ok, session') \<Rightarrow>
               if \<not> ok then (sm_result sm_internal_error,
                 sm\<lparr>sm_sessions := um_assign token session' (sm_sessions sm),
                    sm_bindings := um_erase (addr c) bindings\<rparr>)
               else (\<lparr>sr_state = sm_success, sr_token = [], sr_room_id = s_room_id session',
                      sr_player_id = s_player_id session'\<rparr>,
                     sm\<lparr>sm_sessions := um_assign token session' (sm_sessions sm),
                        sm_bindings := bindings\<rparr>)))"

definition sm_rollback_resume ::
  "(conn \<Rightarrow> bool) \<Rightarrow> (conn \<Rightarrow> nat) \<Rightarrow> conn option \<Rightarrow> SessionManager \<Rightarrow> SmStates \<times> SessionManager" where
  "sm_rollback_resume alive addr connection sm =
     (case connection of None \<Rightarrow> (sm_invalid_connection, sm)
      | Some c \<Rightarrow>
        (case um_find (addr c) (sm_bindings sm) of None \<Rightarrow> (sm_not_bound, sm)
         | Some token \<Rightarrow>
           (case um_find token (sm_sessions sm) of None \<Rightarrow> (sm_internal_error, sm)
            | Some session \<Rightarrow>
              (case session_detach alive addr connection (s_offline_deadline session) session of
                 (ok, session') \<Rightarrow>
                   if \<not> ok then (sm_internal_error, sm\<lparr>sm_sessions := um_assign token session' (sm_sessions sm)\<rparr>)
                   else (sm_success, sm\<lparr>sm_sessions := um_assign token session' (sm_sessions sm),
                                        sm_bindings := um_erase (addr c) (sm_bindings sm)\<rparr>)))))"

definition sm_detach ::
  "(conn \<Rightarrow> bool) \<Rightarrow> (conn \<Rightarrow> nat) \<Rightarrow> conn option \<Rightarrow> time_point \<Rightarrow> SessionManager \<Rightarrow> SmResult \<times> SessionManager" where
  "sm_detach alive addr connection now sm =
     (case connection of None \<Rightarrow> (sm_result sm_invalid_connection, sm)
      | Some c \<Rightarrow>
        (case um_find (addr c) (sm_bindings sm) of None \<Rightarrow> (sm_result sm_not_bound, sm)
         | Some token \<Rightarrow>
           (case um_find token (sm_sessions sm) of None \<Rightarrow> (sm_result sm_internal_error, sm)
            | Some session \<Rightarrow>
              (case session_detach alive addr connection (now + 1000000 * sm_reconnect_timeout sm) session of
                 (ok, session') \<Rightarrow>
                   if \<not> ok then (sm_result sm_internal_error, sm\<lparr>sm_sessions := um_assign token session' (sm_sessions sm)\<rparr>)
                   else (\<lparr>sr_state = sm_success, sr_token = token, sr_room_id = s_room_id session',
                          sr_player_id = s_player_id session'\<rparr>,
                         sm\<lparr>sm_sessions := um_assign token session' (sm_sessions sm),
                            sm_bindings := um_erase (addr c) (sm_bindings sm)\<rparr>)))))"

definition sm_erase_by_connection ::
  "(conn \<Rightarrow> nat) \<Rightarrow> conn option \<Rightarrow> SessionManager \<Rightarrow> SmStates \<times> SessionManager" where
  "sm_erase_by_connection addr connection sm =
     (case connection of None \<Rightarrow> (sm_invalid_connection, sm)
      | Some c \<Rightarrow>
        (case um_find (addr c) (sm_bindings sm) of None \<Rightarrow> (sm_not_bound, sm)
         | Some token \<Rightarrow>
           (case um_find token (sm_sessions sm) of None \<Rightarrow> (sm_internal_error, sm)
            | Some session \<Rightarrow> (sm_success, sm\<lparr>sm_sessions := um_erase token (sm_sessions sm),
                                               sm_bindings := um_erase (addr c) (sm_bindings sm)\<rparr>))))"

definition sm_expired_sessions :: "time_point \<Rightarrow> SessionManager \<Rightarrow> (bytes \<times> u32 \<times> u64) list" where
  "sm_expired_sessions now sm =
     map (\<lambda>(token, s). (token, s_room_id s, s_player_id s))
       (filter (\<lambda>(token, s). \<not> (s_state s \<noteq> offline \<or> \<not> session_expired now s)) (sm_sessions sm))"

definition sm_erase_expired :: "bytes \<Rightarrow> time_point \<Rightarrow> SessionManager \<Rightarrow> SmStates \<times> SessionManager" where
  "sm_erase_expired token now sm =
     (case um_find token (sm_sessions sm) of None \<Rightarrow> (sm_invalid_token, sm)
      | Some session \<Rightarrow>
        if s_state session \<noteq> offline then (sm_session_online, sm)
        else if \<not> session_expired now session then (sm_session_not_expired, sm)
        else (sm_success, sm\<lparr>sm_sessions := um_erase token (sm_sessions sm)\<rparr>))"

definition sm_make_checkpoint :: "SessionManager \<Rightarrow> SessionCheckpoint list" where
  "sm_make_checkpoint sm = sort_key sc_token
     (map (\<lambda>(token, s). \<lparr>sc_token = token, sc_room_id = s_room_id s, sc_player_id = s_player_id s\<rparr>) (sm_sessions sm))"

definition is_lower_hex :: "u8 \<Rightarrow> bool" where
  "is_lower_hex ch \<longleftrightarrow> 48 \<le> ch \<and> ch \<le> 57 \<or> 97 \<le> ch \<and> ch \<le> 102"

fun sm_restore_loop ::
  "SessionCheckpoint list \<Rightarrow> time_point \<Rightarrow> (bytes, Session) umap \<Rightarrow> (bytes, Session) umap option" where
  "sm_restore_loop [] deadline temp_sessions = Some temp_sessions"
| "sm_restore_loop (cp # cps) deadline temp_sessions =
     (if length (sc_token cp) \<noteq> TOKEN_SIZE then None
      else if \<exists>ch\<in>set (sc_token cp). \<not> is_lower_hex ch then None
      else if um_find (sc_token cp) temp_sessions \<noteq> None then None
      else if \<exists>(t, s)\<in>set temp_sessions. s_room_id s = sc_room_id cp \<and> s_player_id s = sc_player_id cp then None
      else sm_restore_loop cps deadline
        (um_emplace (sc_token cp) (Session_offline (sc_room_id cp) (sc_player_id cp) deadline) temp_sessions))"

definition sm_restore_checkpoint ::
  "SessionCheckpoint list \<Rightarrow> time_point \<Rightarrow> SessionManager \<Rightarrow> bool \<times> SessionManager" where
  "sm_restore_checkpoint checkpoints now sm =
     (case sm_restore_loop checkpoints (now + 1000000 * sm_reconnect_timeout sm) [] of
        None \<Rightarrow> (False, sm)
      | Some temp_sessions \<Rightarrow> (True, sm\<lparr>sm_sessions := temp_sessions, sm_bindings := []\<rparr>))"

section \<open>Tokens\<close>

definition token_ok :: "bytes \<Rightarrow> bool" where
  "token_ok t \<longleftrightarrow> length t = 32 \<and> (\<forall>ch\<in>set t. is_lower_hex ch)"

lemma fill_random_length: "fill_random n got rs = Some bs \<Longrightarrow> length got \<le> n \<Longrightarrow> length bs = n"
proof (induction n got rs rule: fill_random.induct)
  case (1 n got rs)
  from "1.prems" show ?case
    by (subst (asm) fill_random.simps)
      (auto split: if_splits list.splits getrandom_result.splits intro: "1.IH")
qed

lemma hex_digit_lower_hex: "unat v < 16 \<Longrightarrow> is_lower_hex (hex_digit v)"
  by (cases "v < 10") (auto simp: is_lower_hex_def hex_digit_def word_le_nat_alt word_less_nat_alt unat_word_ariths)

lemma unat_nibble: "unat (v AND 0x0F :: u8) < 16"
proof -
  have "(v AND 0x0F) \<le> 0x0F" by (rule word_and_le1)
  then show ?thesis by (simp add: word_le_nat_alt)
qed

lemma length_concat_pairs: "length (concat (map (\<lambda>b. [f b, g b]) bs)) = 2 * length bs"
  by (induction bs) auto

lemma generate_token_ok: "generate_token rs \<noteq> [] \<Longrightarrow> token_ok (generate_token rs)"
  by (auto simp: generate_token_def token_ok_def TOKEN_SIZE_def length_concat_pairs hex_digit_lower_hex unat_nibble
      dest!: fill_random_length split: option.splits)

section \<open>The view of a session table, and its invariant\<close>

text \<open>Each token stands for an identity (room id, player id) and, while online, a connection.\<close>

type_synonym session_view = "bytes \<Rightarrow> ((u32 \<times> u64) \<times> conn option) option"

definition session_entry :: "Session \<Rightarrow> (u32 \<times> u64) \<times> conn option" where
  "session_entry s = ((s_room_id s, s_player_id s), if s_state s = online then s_connection s else None)"

definition sm_view :: "SessionManager \<Rightarrow> session_view" where
  "sm_view sm t = map_option session_entry (um_find t (sm_sessions sm))"

definition view_inj :: "session_view \<Rightarrow> bool" where
  "view_inj V \<longleftrightarrow> (\<forall>t t' i c c'. V t = Some (i, c) \<and> V t' = Some (i, c') \<longrightarrow> t = t')"

definition sm_inv :: "(conn \<Rightarrow> bool) \<Rightarrow> (conn \<Rightarrow> nat) \<Rightarrow> SessionManager \<Rightarrow> bool" where
  "sm_inv opn addr sm \<longleftrightarrow> um_wf (sm_sessions sm) \<and> um_wf (sm_bindings sm) \<and> view_inj (sm_view sm) \<and>
     (\<forall>t. sm_view sm t \<noteq> None \<longrightarrow> token_ok t) \<and>
     (\<forall>t s. um_find t (sm_sessions sm) = Some s \<and> s_state s = online \<longrightarrow> s_connection s \<noteq> None) \<and>
     (\<forall>t i c. sm_view sm t = Some (i, Some c) \<longrightarrow> opn c \<and> um_find (addr c) (sm_bindings sm) = Some t) \<and>
     (\<forall>a t. um_find a (sm_bindings sm) = Some t \<longrightarrow> (\<exists>i c. sm_view sm t = Some (i, Some c) \<and> addr c = a))"

lemma sm_new_inv: "sm_inv opn addr (SessionManager_new ms)"
  by (simp add: sm_inv_def SessionManager_new_def sm_view_def view_inj_def)

lemma sm_inv_open: "sm_inv opn addr sm \<Longrightarrow> sm_view sm t = Some (i, Some c) \<Longrightarrow> opn c"
  and sm_inv_binding: "sm_inv opn addr sm \<Longrightarrow> sm_view sm t = Some (i, Some c) \<Longrightarrow>
    um_find (addr c) (sm_bindings sm) = Some t"
  and sm_inv_bound: "sm_inv opn addr sm \<Longrightarrow> um_find a (sm_bindings sm) = Some t \<Longrightarrow>
    \<exists>i c. sm_view sm t = Some (i, Some c) \<and> addr c = a"
  and sm_inv_token: "sm_inv opn addr sm \<Longrightarrow> sm_view sm t = Some v \<Longrightarrow> token_ok t"
  and sm_inv_inj: "sm_inv opn addr sm \<Longrightarrow> sm_view sm t = Some (i, d) \<Longrightarrow> sm_view sm t' = Some (i, d') \<Longrightarrow> t = t'"
  and sm_inv_wf: "sm_inv opn addr sm \<Longrightarrow> um_wf (sm_sessions sm) \<and> um_wf (sm_bindings sm)"
  and sm_inv_online: "sm_inv opn addr sm \<Longrightarrow> um_find t (sm_sessions sm) = Some s \<Longrightarrow> s_state s = online \<Longrightarrow>
    s_connection s \<noteq> None"
  unfolding sm_inv_def view_inj_def by blast+

text \<open>How to establish the invariant of a changed table.\<close>

lemma sm_invI:
  assumes "um_wf (sm_sessions sm)" and "um_wf (sm_bindings sm)"
    and "\<And>t t' i c c'. sm_view sm t = Some (i, c) \<Longrightarrow> sm_view sm t' = Some (i, c') \<Longrightarrow> t = t'"
    and "\<And>t v. sm_view sm t = Some v \<Longrightarrow> token_ok t"
    and "\<And>t s. um_find t (sm_sessions sm) = Some s \<Longrightarrow> s_state s = online \<Longrightarrow> s_connection s \<noteq> None"
    and "\<And>t i c. sm_view sm t = Some (i, Some c) \<Longrightarrow> opn c \<and> um_find (addr c) (sm_bindings sm) = Some t"
    and "\<And>a t. um_find a (sm_bindings sm) = Some t \<Longrightarrow> \<exists>i c. sm_view sm t = Some (i, Some c) \<and> addr c = a"
  shows "sm_inv opn addr sm"
  unfolding sm_inv_def view_inj_def using assms by blast

lemma sm_bound:
  assumes "sm_inv opn addr sm" and "opn c" and "inj_on addr {c. opn c}"
  shows "um_find (addr c) (sm_bindings sm) = Some t \<longleftrightarrow> (\<exists>i. sm_view sm t = Some (i, Some c))"
proof
  assume "um_find (addr c) (sm_bindings sm) = Some t"
  then obtain i d where d: "sm_view sm t = Some (i, Some d)" "addr d = addr c"
    using sm_inv_bound [OF assms(1)] by blast
  have "opn d" using sm_inv_open [OF assms(1) d(1)] .
  then have "d = c" using d(2) assms(2,3) by (auto simp: inj_on_def)
  then show "\<exists>i. sm_view sm t = Some (i, Some c)" using d(1) by blast
qed (auto dest: sm_inv_binding [OF assms(1)])

lemma sm_unbound:
  assumes "sm_inv opn addr sm" and "opn c" and "inj_on addr {c. opn c}"
  shows "um_find (addr c) (sm_bindings sm) = None \<longleftrightarrow> (\<forall>t i. sm_view sm t \<noteq> Some (i, Some c))"
proof -
  have "um_find (addr c) (sm_bindings sm) = None \<longleftrightarrow> (\<forall>t. um_find (addr c) (sm_bindings sm) \<noteq> Some t)"
    by (cases "um_find (addr c) (sm_bindings sm)") simp_all
  then show ?thesis unfolding sm_bound [OF assms] by blast
qed

lemma view_Some:
  "sm_view sm t = Some (i, c) \<longleftrightarrow>
     (\<exists>s. um_find t (sm_sessions sm) = Some s \<and> i = (s_room_id s, s_player_id s) \<and>
        c = (if s_state s = online then s_connection s else None))"
  by (cases "um_find t (sm_sessions sm)") (auto simp: sm_view_def session_entry_def)

lemma view_online:
  assumes "sm_inv opn addr sm" and "sm_view sm t = Some ((k, p), Some c)"
  obtains s where "um_find t (sm_sessions sm) = Some s" and "s_room_id s = k" and "s_player_id s = p"
    and "s_state s = online" and "s_connection s = Some c"
proof -
  have "\<exists>s. um_find t (sm_sessions sm) = Some s \<and> s_room_id s = k \<and> s_player_id s = p \<and>
      s_state s = online \<and> s_connection s = Some c"
    using assms(2) by (auto simp: view_Some split: if_splits)
  then show thesis using that by blast
qed

lemma view_assign:
  "sm_view (sm\<lparr>sm_sessions := um_assign t s (sm_sessions sm), sm_bindings := b\<rparr>) = (sm_view sm)(t \<mapsto> session_entry s)"
  by (auto simp: sm_view_def)

lemma view_erase:
  "sm_view (sm\<lparr>sm_sessions := um_erase t (sm_sessions sm), sm_bindings := b\<rparr>) = (sm_view sm)(t := None)"
  by (auto simp: sm_view_def)

lemma lookup_bound:
  assumes "sm_inv opn addr sm" and "sm_view sm t = Some ((k, p), Some c)"
  shows "sm_lookup addr (Some c) sm = \<lparr>sr_state = sm_success, sr_token = t, sr_room_id = k, sr_player_id = p\<rparr>"
proof -
  have "um_find (addr c) (sm_bindings sm) = Some t" using sm_inv_binding [OF assms] .
  moreover obtain s where "um_find t (sm_sessions sm) = Some s" "s_room_id s = k" "s_player_id s = p"
    using view_online [OF assms] by blast
  ultimately show ?thesis by (simp add: sm_lookup_def)
qed

lemma lookup_unbound:
  assumes "sm_inv opn addr sm" and "opn c" and "inj_on addr {c. opn c}" and "\<forall>t i. sm_view sm t \<noteq> Some (i, Some c)"
  shows "sm_lookup addr (Some c) sm = sm_result sm_not_bound"
  using sm_unbound [OF assms(1-3)] assms(4) by (simp add: sm_lookup_def)

section \<open>What the operations do to the view\<close>

lemma create_cases:
  assumes "sm_inv opn addr sm" and "opn c" and "inj_on addr {c. opn c}"
  shows "(sr_state (fst (sm_create addr rs (Some c) k p sm)) \<noteq> sm_success \<and> snd (sm_create addr rs (Some c) k p sm) = sm) \<or>
    (\<exists>t. sr_state (fst (sm_create addr rs (Some c) k p sm)) = sm_success \<and>
       sr_token (fst (sm_create addr rs (Some c) k p sm)) = t \<and> token_ok t \<and>
       sm_view sm t = None \<and> (\<forall>t i. sm_view sm t \<noteq> Some (i, Some c)) \<and>
       sm_view (snd (sm_create addr rs (Some c) k p sm)) = (sm_view sm)(t \<mapsto> ((k, p), Some c)) \<and>
       ((\<forall>t c. sm_view sm t \<noteq> Some ((k, p), c)) \<longrightarrow> sm_inv opn addr (snd (sm_create addr rs (Some c) k p sm))))"
proof (cases "um_find (addr c) (sm_bindings sm) = None \<and> generate_token rs \<noteq> [] \<and>
    um_find (generate_token rs) (sm_sessions sm) = None")
  case False
  then show ?thesis by (auto simp: sm_create_def sm_result_def Let_def)
next
  case True
  let ?t = "generate_token rs"
  let ?sm = "sm\<lparr>sm_sessions := um_emplace ?t (Session_new k p (Some c)) (sm_sessions sm),
      sm_bindings := um_emplace (addr c) ?t (sm_bindings sm)\<rparr>"
  have res: "sm_create addr rs (Some c) k p sm =
      (\<lparr>sr_state = sm_success, sr_token = ?t, sr_room_id = k, sr_player_id = p\<rparr>, ?sm)"
    using True by (simp add: sm_create_def Let_def)
  have tok: "token_ok ?t" using True generate_token_ok by blast
  have new: "sm_view sm ?t = None" using True by (simp add: sm_view_def)
  have un: "\<forall>t i. sm_view sm t \<noteq> Some (i, Some c)" by (rule iffD1 [OF sm_unbound [OF assms] conjunct1 [OF True]])
  have view: "sm_view ?sm = (sm_view sm)(?t \<mapsto> ((k, p), Some c))"
    using True by (auto simp: sm_view_def session_entry_def Session_new_def)
  have "sm_inv opn addr ?sm" if fresh: "\<forall>t c. sm_view sm t \<noteq> Some ((k, p), c)"
  proof (rule sm_invI; (unfold view)?)
    show "um_wf (sm_sessions ?sm)" "um_wf (sm_bindings ?sm)"
      using sm_inv_wf [OF assms(1)] by simp_all
    show "t = t'" if "((sm_view sm)(?t \<mapsto> ((k, p), Some c))) t = Some (i, d)"
      "((sm_view sm)(?t \<mapsto> ((k, p), Some c))) t' = Some (i, d')" for t t' i d d'
      using that fresh sm_inv_inj [OF assms(1), of t i d t' d'] by (auto split: if_splits)
    show "token_ok t" if "((sm_view sm)(?t \<mapsto> ((k, p), Some c))) t = Some v" for t v
      using that tok sm_inv_token [OF assms(1), of t v] by (auto split: if_splits)
    show "s_connection s \<noteq> None" if "um_find t (sm_sessions ?sm) = Some s" "s_state s = online" for t s
      using that sm_inv_online [OF assms(1), of t s] by (auto simp: Session_new_def split: if_splits)
    show "opn d \<and> um_find (addr d) (sm_bindings ?sm) = Some t"
      if v: "((sm_view sm)(?t \<mapsto> ((k, p), Some c))) t = Some (i, Some d)" for t i d
      using v True assms(2) sm_inv_open [OF assms(1), of t i d] sm_inv_binding [OF assms(1), of t i d]
      by (auto split: if_splits)
    show "\<exists>i d. ((sm_view sm)(?t \<mapsto> ((k, p), Some c))) t = Some (i, Some d) \<and> addr d = a"
      if b: "um_find a (sm_bindings ?sm) = Some t" for a t
    proof (cases "a = addr c")
      case eq: True
      then show ?thesis using b True by simp
    next
      case False
      then have "um_find a (sm_bindings sm) = Some t" using b by (simp split: if_splits)
      then obtain i d where d: "sm_view sm t = Some (i, Some d)" "addr d = a"
        using sm_inv_bound [OF assms(1)] by blast
      then have "t \<noteq> ?t" using new by auto
      then show ?thesis using d by (intro exI [of _ i] exI [of _ d]) simp
    qed
  qed
  then show ?thesis using tok new un view by (simp add: res)
qed

lemma updated_view_inj:
  assumes inv: "sm_inv opn addr sm" and v: "sm_view sm t = Some (i, d0)"
    and v': "\<forall>i' d. v' = Some (i', d) \<longrightarrow> i' = i"
    and u: "((sm_view sm)(t := v')) u = Some (j, d)" and u': "((sm_view sm)(t := v')) u' = Some (j, d')"
  shows "u = u'"
proof -
  have keep: "\<exists>e. sm_view sm w = Some (j, e)" if "((sm_view sm)(t := v')) w = Some (j, x)" for w x
    using that v v' by (cases "w = t") auto
  obtain e e' where "sm_view sm u = Some (j, e)" "sm_view sm u' = Some (j, e')"
    using keep [OF u] keep [OF u'] by blast
  then show ?thesis by (rule sm_inv_inj [OF inv])
qed

lemma sm_inv_attach:
  assumes "sm_inv opn addr sm" and "opn c" and "um_find (addr c) (sm_bindings sm) = None"
    and v: "sm_view sm t = Some (i, None)"
    and s: "session_entry s = (i, Some c)"
  shows "sm_inv opn addr (sm\<lparr>sm_sessions := um_assign t s (sm_sessions sm),
    sm_bindings := um_emplace (addr c) t (sm_bindings sm)\<rparr>)" (is "sm_inv opn addr ?sm")
proof (rule sm_invI; (unfold view_assign s)?)
  show "um_wf (sm_sessions ?sm)" "um_wf (sm_bindings ?sm)"
    using sm_inv_wf [OF assms(1)] by simp_all
  show "u = u'" if "((sm_view sm)(t \<mapsto> (i, Some c))) u = Some (j, d)"
    "((sm_view sm)(t \<mapsto> (i, Some c))) u' = Some (j, d')" for u u' j d d'
    by (rule updated_view_inj [OF assms(1) v _ that]) simp
  show "token_ok u" if "((sm_view sm)(t \<mapsto> (i, Some c))) u = Some w" for u w
    using that sm_inv_token [OF assms(1) v] sm_inv_token [OF assms(1), of u w] by (auto split: if_splits)
  show "s_connection x \<noteq> None" if "um_find u (sm_sessions ?sm) = Some x" "s_state x = online" for u x
    using that sm_inv_online [OF assms(1), of u x] s by (auto simp: session_entry_def split: if_splits)
  show "opn d \<and> um_find (addr d) (sm_bindings ?sm) = Some u"
    if "((sm_view sm)(t \<mapsto> (i, Some c))) u = Some (j, Some d)" for u j d
    using that assms(2,3) sm_inv_open [OF assms(1), of u j d] sm_inv_binding [OF assms(1), of u j d]
    by (auto split: if_splits)
  show "\<exists>j d. ((sm_view sm)(t \<mapsto> (i, Some c))) u = Some (j, Some d) \<and> addr d = a"
    if b: "um_find a (sm_bindings ?sm) = Some u" for a u
  proof (cases "a = addr c")
    case True
    then show ?thesis using b assms(3) by simp
  next
    case False
    then have "um_find a (sm_bindings sm) = Some u" using b by (simp split: if_splits)
    then obtain j d where d: "sm_view sm u = Some (j, Some d)" "addr d = a"
      using sm_inv_bound [OF assms(1)] by blast
    then have "u \<noteq> t" using v by auto
    then show ?thesis using d by (intro exI [of _ j] exI [of _ d]) simp
  qed
qed

text \<open>Detaching a session (\<open>v' = Some (i, None)\<close>) or erasing it (\<open>v' = None\<close>).\<close>

lemma sm_inv_release:
  assumes "sm_inv opn addr sm" and "inj_on addr {c. opn c}"
    and v: "sm_view sm t = Some (i, Some c)"
    and wf: "um_wf ss" and view: "sm_view (sm\<lparr>sm_sessions := ss, sm_bindings := um_erase (addr c) (sm_bindings sm)\<rparr>) = (sm_view sm)(t := v')"
    and v': "v' = None \<or> v' = Some (i, None)"
    and onl: "\<forall>u x. um_find u ss = Some x \<and> s_state x = online \<longrightarrow> um_find u (sm_sessions sm) = Some x"
  shows "sm_inv opn addr (sm\<lparr>sm_sessions := ss, sm_bindings := um_erase (addr c) (sm_bindings sm)\<rparr>)"
    (is "sm_inv opn addr ?sm")
proof (rule sm_invI; (unfold view)?)
  show "um_wf (sm_sessions ?sm)" "um_wf (sm_bindings ?sm)"
    using sm_inv_wf [OF assms(1)] wf by simp_all
  show "u = u'" if "((sm_view sm)(t := v')) u = Some (j, d)"
    "((sm_view sm)(t := v')) u' = Some (j, d')" for u u' j d d'
    by (rule updated_view_inj [OF assms(1) v _ that]) (use v' in auto)
  show "token_ok u" if "((sm_view sm)(t := v')) u = Some w" for u w
    using that sm_inv_token [OF assms(1) v] sm_inv_token [OF assms(1), of u w] by (auto split: if_splits)
  show "s_connection x \<noteq> None" if "um_find u (sm_sessions ?sm) = Some x" "s_state x = online" for u x
    using that sm_inv_online [OF assms(1), of u x] onl by auto
  have c: "opn c" using sm_inv_open [OF assms(1) v] .
  have bc: "um_find (addr c) (sm_bindings sm) = Some t" using sm_inv_binding [OF assms(1) v] .
  show "opn d \<and> um_find (addr d) (sm_bindings ?sm) = Some u"
    if e: "((sm_view sm)(t := v')) u = Some (j, Some d)" for u j d
  proof -
    have u: "u \<noteq> t" "sm_view sm u = Some (j, Some d)" using e v' by (auto split: if_splits)
    note b = sm_inv_open [OF assms(1) u(2)] sm_inv_binding [OF assms(1) u(2)]
    have "addr d \<noteq> addr c" using b(2) bc u(1) by auto
    then show ?thesis using b by simp
  qed
  show "\<exists>j d. ((sm_view sm)(t := v')) u = Some (j, Some d) \<and> addr d = a"
    if b: "um_find a (sm_bindings ?sm) = Some u" for a u
  proof -
    have a: "a \<noteq> addr c" "um_find a (sm_bindings sm) = Some u" using b by (auto split: if_splits)
    then obtain j d where d: "sm_view sm u = Some (j, Some d)" "addr d = a"
      using sm_inv_bound [OF assms(1)] by blast
    then have "u \<noteq> t" using a(1) v by auto
    then show ?thesis using d by (intro exI [of _ j] exI [of _ d]) simp
  qed
qed

lemma resume_cases:
  assumes "sm_inv opn addr sm" and "opn c" and "inj_on addr {c. opn c}"
  shows "(sr_state (fst (sm_resume addr (Some c) t now sm)) \<noteq> sm_success \<and>
      sr_state (fst (sm_resume addr (Some c) t now sm)) \<noteq> sm_internal_error \<and>
      snd (sm_resume addr (Some c) t now sm) = sm) \<or>
    (\<exists>k p. sr_state (fst (sm_resume addr (Some c) t now sm)) = sm_success \<and>
      sr_room_id (fst (sm_resume addr (Some c) t now sm)) = k \<and> sr_player_id (fst (sm_resume addr (Some c) t now sm)) = p \<and>
      sm_view sm t = Some ((k, p), None) \<and> (\<forall>t i. sm_view sm t \<noteq> Some (i, Some c)) \<and>
      (\<exists>s. um_find t (sm_sessions sm) = Some s \<and> now < s_offline_deadline s) \<and>
      sm_view (snd (sm_resume addr (Some c) t now sm)) = (sm_view sm)(t \<mapsto> ((k, p), Some c)) \<and>
      sm_inv opn addr (snd (sm_resume addr (Some c) t now sm)))"
proof (cases "um_find (addr c) (sm_bindings sm) = None \<and>
    (\<exists>s. um_find t (sm_sessions sm) = Some s \<and> s_state s = offline \<and> \<not> session_expired now s)")
  case False
  then show ?thesis by (auto simp: sm_resume_def sm_result_def split: option.split)
next
  case True
  then obtain s where s: "um_find t (sm_sessions sm) = Some s" "s_state s = offline" "now < s_offline_deadline s"
    by (auto simp: session_expired_def not_le)
  let ?s = "s\<lparr>s_connection := Some c, s_state := online\<rparr>"
  have res: "sm_resume addr (Some c) t now sm =
      (\<lparr>sr_state = sm_success, sr_token = [], sr_room_id = s_room_id s, sr_player_id = s_player_id s\<rparr>,
       sm\<lparr>sm_sessions := um_assign t ?s (sm_sessions sm), sm_bindings := um_emplace (addr c) t (sm_bindings sm)\<rparr>)"
    using True s by (simp add: sm_resume_def session_bind_def session_expired_def)
  have v: "sm_view sm t = Some ((s_room_id s, s_player_id s), None)" using s by (simp add: view_Some)
  have e: "session_entry ?s = ((s_room_id s, s_player_id s), Some c)" by (simp add: session_entry_def)
  have un: "\<forall>t i. sm_view sm t \<noteq> Some (i, Some c)"
    by (rule iffD1 [OF sm_unbound [OF assms] conjunct1 [OF True]])
  show ?thesis
    using v un s sm_inv_attach [OF assms(1,2) conjunct1 [OF True] v e]
    by (simp add: res view_assign e)
qed

lemma detach_session:
  assumes "sm_inv opn addr sm" and "inj_on addr {c. opn c}" and "alive c"
    and v: "sm_view sm t = Some (i, Some c)"
    and s: "um_find t (sm_sessions sm) = Some s"
  shows "session_detach alive addr (Some c) dl s = (True, s\<lparr>s_connection := None, s_offline_deadline := dl, s_state := offline\<rparr>)"
    and "sm_view (sm\<lparr>sm_sessions := um_assign t (s\<lparr>s_connection := None, s_offline_deadline := dl, s_state := offline\<rparr>) (sm_sessions sm),
        sm_bindings := um_erase (addr c) (sm_bindings sm)\<rparr>) = (sm_view sm)(t \<mapsto> (i, None))"
    and "sm_inv opn addr (sm\<lparr>sm_sessions := um_assign t (s\<lparr>s_connection := None, s_offline_deadline := dl, s_state := offline\<rparr>) (sm_sessions sm),
        sm_bindings := um_erase (addr c) (sm_bindings sm)\<rparr>)"
proof -
  have on: "s_state s = online" "s_connection s = Some c" "i = (s_room_id s, s_player_id s)"
    using v s by (auto simp: view_Some split: if_splits)
  then show "session_detach alive addr (Some c) dl s = (True, s\<lparr>s_connection := None, s_offline_deadline := dl, s_state := offline\<rparr>)"
    using assms(3) by (simp add: session_detach_def session_matches_def weak_lock_def)
  show view: "sm_view (sm\<lparr>sm_sessions := um_assign t (s\<lparr>s_connection := None, s_offline_deadline := dl, s_state := offline\<rparr>) (sm_sessions sm),
        sm_bindings := um_erase (addr c) (sm_bindings sm)\<rparr>) = (sm_view sm)(t \<mapsto> (i, None))"
    using on(3) by (simp add: view_assign session_entry_def)
  show "sm_inv opn addr (sm\<lparr>sm_sessions := um_assign t (s\<lparr>s_connection := None, s_offline_deadline := dl, s_state := offline\<rparr>) (sm_sessions sm),
        sm_bindings := um_erase (addr c) (sm_bindings sm)\<rparr>)"
    by (rule sm_inv_release [OF assms(1,2) v _ view])
      (use sm_inv_wf [OF assms(1)] in \<open>auto split: if_splits\<close>)
qed

lemma detach_bound:
  assumes "sm_inv opn addr sm" and "inj_on addr {c. opn c}" and "alive c" and "sm_view sm t = Some ((k, p), Some c)"
  shows "sr_state (fst (sm_detach alive addr (Some c) now sm)) = sm_success \<and>
      sm_view (snd (sm_detach alive addr (Some c) now sm)) = (sm_view sm)(t \<mapsto> ((k, p), None)) \<and>
      sm_inv opn addr (snd (sm_detach alive addr (Some c) now sm))"
    and "fst (sm_rollback_resume alive addr (Some c) sm) = sm_success \<and>
      sm_view (snd (sm_rollback_resume alive addr (Some c) sm)) = (sm_view sm)(t \<mapsto> ((k, p), None)) \<and>
      sm_inv opn addr (snd (sm_rollback_resume alive addr (Some c) sm))"
proof -
  have b: "um_find (addr c) (sm_bindings sm) = Some t" using sm_inv_binding [OF assms(1,4)] .
  obtain s where s: "um_find t (sm_sessions sm) = Some s" using assms(4) by (auto simp: view_Some)
  note d = detach_session [OF assms(1,2) _ assms(4) s, where alive = alive, OF assms(3)]
  show "sr_state (fst (sm_detach alive addr (Some c) now sm)) = sm_success \<and>
      sm_view (snd (sm_detach alive addr (Some c) now sm)) = (sm_view sm)(t \<mapsto> ((k, p), None)) \<and>
      sm_inv opn addr (snd (sm_detach alive addr (Some c) now sm))"
    using b s d by (simp add: sm_detach_def)
  show "fst (sm_rollback_resume alive addr (Some c) sm) = sm_success \<and>
      sm_view (snd (sm_rollback_resume alive addr (Some c) sm)) = (sm_view sm)(t \<mapsto> ((k, p), None)) \<and>
      sm_inv opn addr (snd (sm_rollback_resume alive addr (Some c) sm))"
    using b s d [of "s_offline_deadline s"] by (simp add: sm_rollback_resume_def)
qed

lemma erase_bound:
  assumes "sm_inv opn addr sm" and "inj_on addr {c. opn c}" and "sm_view sm t = Some (i, Some c)"
  shows "fst (sm_erase_by_connection addr (Some c) sm) = sm_success \<and>
    sm_view (snd (sm_erase_by_connection addr (Some c) sm)) = (sm_view sm)(t := None) \<and>
    sm_inv opn addr (snd (sm_erase_by_connection addr (Some c) sm))"
proof -
  have b: "um_find (addr c) (sm_bindings sm) = Some t" using sm_inv_binding [OF assms(1,3)] .
  obtain s where s: "um_find t (sm_sessions sm) = Some s" using assms(3) by (auto simp: view_Some)
  have "sm_inv opn addr (sm\<lparr>sm_sessions := um_erase t (sm_sessions sm), sm_bindings := um_erase (addr c) (sm_bindings sm)\<rparr>)"
    by (rule sm_inv_release [OF assms(1-3) _ view_erase])
      (use sm_inv_wf [OF assms(1)] in \<open>auto split: if_splits\<close>)
  then show ?thesis using b s by (simp add: sm_erase_by_connection_def view_erase)
qed

lemma erase_expired_inv:
  assumes "sm_inv opn addr sm" and "sm_view sm t = Some (i, None)"
  shows "sm_inv opn addr (sm\<lparr>sm_sessions := um_erase t (sm_sessions sm)\<rparr>) \<and>
    sm_view (sm\<lparr>sm_sessions := um_erase t (sm_sessions sm)\<rparr>) = (sm_view sm)(t := None)"
proof
  let ?sm = "sm\<lparr>sm_sessions := um_erase t (sm_sessions sm)\<rparr>"
  show view: "sm_view ?sm = (sm_view sm)(t := None)" by (auto simp: sm_view_def)
  show "sm_inv opn addr ?sm"
  proof (rule sm_invI; (unfold view)?)
    show "um_wf (sm_sessions ?sm)" "um_wf (sm_bindings ?sm)"
      using sm_inv_wf [OF assms(1)] by simp_all
    show "u = u'" if "((sm_view sm)(t := None)) u = Some (j, d)" "((sm_view sm)(t := None)) u' = Some (j, d')" for u u' j d d'
      using that sm_inv_inj [OF assms(1), of u j d u' d'] by (auto split: if_splits)
    show "token_ok u" if "((sm_view sm)(t := None)) u = Some w" for u w
      using that sm_inv_token [OF assms(1), of u w] by (auto split: if_splits)
    show "s_connection x \<noteq> None" if "um_find u (sm_sessions ?sm) = Some x" "s_state x = online" for u x
      using that sm_inv_online [OF assms(1), of u x] by (auto split: if_splits)
    show "opn d \<and> um_find (addr d) (sm_bindings ?sm) = Some u"
      if "((sm_view sm)(t := None)) u = Some (j, Some d)" for u j d
      using that sm_inv_open [OF assms(1), of u j d] sm_inv_binding [OF assms(1), of u j d] by (auto split: if_splits)
    show "\<exists>j d. ((sm_view sm)(t := None)) u = Some (j, Some d) \<and> addr d = a"
      if "um_find a (sm_bindings ?sm) = Some u" for a u
      using that assms(2) sm_inv_bound [OF assms(1), of a u] by auto
  qed
qed

section \<open>Checkpoints\<close>

definition sessions_ok :: "SessionCheckpoint list \<Rightarrow> bool" where
  "sessions_ok cps \<longleftrightarrow> (\<forall>cp\<in>set cps. token_ok (sc_token cp)) \<and> distinct (map sc_token cps) \<and>
     distinct (map (\<lambda>cp. (sc_room_id cp, sc_player_id cp)) cps)"

definition offline_pair :: "time_point \<Rightarrow> SessionCheckpoint \<Rightarrow> bytes \<times> Session" where
  "offline_pair dl cp = (sc_token cp, Session_offline (sc_room_id cp) (sc_player_id cp) dl)"

lemma sm_restore_loop_Some:
  "sm_restore_loop cps dl t = Some t' \<longleftrightarrow>
     sessions_ok cps \<and> (\<forall>cp\<in>set cps. um_find (sc_token cp) t = None \<and>
        (\<forall>(u, s)\<in>set t. (s_room_id s, s_player_id s) \<noteq> (sc_room_id cp, sc_player_id cp))) \<and>
     t' = t @ map (offline_pair dl) cps"
proof (induction cps dl t rule: sm_restore_loop.induct)
  case (1 dl t)
  then show ?case by (auto simp: sessions_ok_def)
next
  case (2 cp cps dl t)
  have snoc: "um_find k (t @ [offline_pair dl cp]) = None \<longleftrightarrow> um_find k t = None \<and> k \<noteq> sc_token cp" for k
    by (auto simp: um_find_def map_add_def offline_pair_def split: option.splits)
  have ball: "(\<forall>(u, s)\<in>set (t @ [offline_pair dl cp]). (s_room_id s, s_player_id s) \<noteq> x) \<longleftrightarrow>
      (\<forall>(u, s)\<in>set t. (s_room_id s, s_player_id s) \<noteq> x) \<and> (sc_room_id cp, sc_player_id cp) \<noteq> x" for x
    by (auto simp: offline_pair_def Session_offline_def)
  have notin: "f cp \<notin> f ` set cps \<longleftrightarrow> (\<forall>x\<in>set cps. f x \<noteq> f cp)" for f :: "SessionCheckpoint \<Rightarrow> 'b"
    by (auto intro: rev_image_eqI)
  show ?case
  proof (cases "token_ok (sc_token cp) \<and> um_find (sc_token cp) t = None \<and>
      (\<forall>(u, s)\<in>set t. (s_room_id s, s_player_id s) \<noteq> (sc_room_id cp, sc_player_id cp))")
    case False
    then show ?thesis by (auto simp: token_ok_def TOKEN_SIZE_def sessions_ok_def)
  next
    case True
    have e: "um_emplace (sc_token cp) (Session_offline (sc_room_id cp) (sc_player_id cp) dl) t = t @ [offline_pair dl cp]"
      using True by (simp add: um_emplace_def offline_pair_def)
    have g: "length (sc_token cp) = TOKEN_SIZE" "\<not> (\<exists>ch\<in>set (sc_token cp). \<not> is_lower_hex ch)"
      "\<not> (\<exists>(u, s)\<in>set t. s_room_id s = sc_room_id cp \<and> s_player_id s = sc_player_id cp)"
      using True by (auto simp: token_ok_def TOKEN_SIZE_def)
    have "sm_restore_loop (cp # cps) dl t = sm_restore_loop cps dl (t @ [offline_pair dl cp])"
      using True g by (simp add: e [symmetric])
    also have "\<dots> = Some t' \<longleftrightarrow> sessions_ok cps \<and> (\<forall>x\<in>set cps. um_find (sc_token x) (t @ [offline_pair dl cp]) = None \<and>
        (\<forall>(u, s)\<in>set (t @ [offline_pair dl cp]). (s_room_id s, s_player_id s) \<noteq> (sc_room_id x, sc_player_id x))) \<and>
        t' = (t @ [offline_pair dl cp]) @ map (offline_pair dl) cps"
      using "2.IH" g True by (simp only: e not_False_eq_True simp_thms)
    finally show ?thesis
      using True notin [of sc_token] notin [of "\<lambda>cp. (sc_room_id cp, sc_player_id cp)"]
      unfolding snoc ball sessions_ok_def by auto
  qed
qed

lemma sm_restore_iff:
  "sm_restore_checkpoint cps now sm =
     (if sessions_ok cps then (True, sm\<lparr>sm_sessions := map (offline_pair (now + 1000000 * sm_reconnect_timeout sm)) cps,
        sm_bindings := []\<rparr>) else (False, sm))"
proof -
  let ?dl = "now + 1000000 * sm_reconnect_timeout sm"
  have "sm_restore_loop cps ?dl [] = (if sessions_ok cps then Some (map (offline_pair ?dl) cps) else None)"
    using sm_restore_loop_Some [of cps ?dl "[]"] by (cases "sm_restore_loop cps ?dl []") auto
  then show ?thesis by (simp add: sm_restore_checkpoint_def)
qed

definition session_identities :: "SessionCheckpoint list \<Rightarrow> (u32 \<times> u64) set" where
  "session_identities cps = (\<lambda>cp. (sc_room_id cp, sc_player_id cp)) ` set cps"

lemma view_restored:
  assumes "sessions_ok cps"
  shows "sm_view (sm\<lparr>sm_sessions := map (offline_pair dl) cps, sm_bindings := []\<rparr>) t = Some v \<longleftrightarrow>
    (\<exists>cp\<in>set cps. sc_token cp = t \<and> v = ((sc_room_id cp, sc_player_id cp), None))"
proof -
  have d: "distinct (map sc_token cps)" using assms by (simp add: sessions_ok_def)
  have "um_find t (map (offline_pair dl) cps) = Some s \<longleftrightarrow>
      (\<exists>cp\<in>set cps. sc_token cp = t \<and> Session_offline (sc_room_id cp) (sc_player_id cp) dl = s)" for s
    using um_find_fold_emplace [OF d, of t "\<lambda>cp. Session_offline (sc_room_id cp) (sc_player_id cp) dl" s]
    unfolding offline_pair_def [abs_def] by simp
  then show ?thesis by (auto simp: sm_view_def session_entry_def Session_offline_def)
qed

lemma restored_sm_inv:
  assumes "sessions_ok cps"
  shows "sm_inv opn addr (sm\<lparr>sm_sessions := map (offline_pair dl) cps, sm_bindings := []\<rparr>)" (is "sm_inv opn addr ?sm")
proof (rule sm_invI)
  note v = view_restored [OF assms, where sm = sm and dl = dl]
  show "um_wf (sm_sessions ?sm)"
    using assms by (simp add: um_wf_def sessions_ok_def offline_pair_def comp_def)
  show "um_wf (sm_bindings ?sm)" by simp
  show "u = u'" if "sm_view ?sm u = Some (i, d)" "sm_view ?sm u' = Some (i, d')" for u u' i d d'
    using that assms unfolding v by (auto simp: sessions_ok_def distinct_map inj_on_def)
  show "token_ok u" if "sm_view ?sm u = Some w" for u w
    using that assms unfolding v by (auto simp: sessions_ok_def)
  show "s_connection s \<noteq> None" if "um_find u (sm_sessions ?sm) = Some s" "s_state s = online" for u s
    using that by (auto dest!: um_find_in_set simp: offline_pair_def Session_offline_def)
  show "opn d \<and> um_find (addr d) (sm_bindings ?sm) = Some u" if "sm_view ?sm u = Some (i, Some d)" for u i d
    using that unfolding v by auto
qed simp

lemma session_entry_pairs:
  assumes "sm_inv opn addr sm"
  shows "cp \<in> set (sm_make_checkpoint sm) \<longleftrightarrow> (\<exists>c. sm_view sm (sc_token cp) = Some ((sc_room_id cp, sc_player_id cp), c))"
proof -
  have wf: "um_wf (sm_sessions sm)" using sm_inv_wf [OF assms] by simp
  have "cp \<in> set (sm_make_checkpoint sm) \<longleftrightarrow> (\<exists>t s. (t, s) \<in> set (sm_sessions sm) \<and>
      cp = \<lparr>sc_token = t, sc_room_id = s_room_id s, sc_player_id = s_player_id s\<rparr>)"
    by (force simp: sm_make_checkpoint_def)
  then show ?thesis
    by (cases cp) (auto simp: um_entries_find [OF wf] view_Some)
qed

lemma session_checkpoint_ok:
  assumes "sm_inv opn addr sm"
  shows "sessions_ok (sm_make_checkpoint sm)"
proof -
  let ?c = "sm_make_checkpoint sm"
  note mem = session_entry_pairs [OF assms]
  have "map sc_token (map (\<lambda>(t, s). \<lparr>sc_token = t, sc_room_id = s_room_id s, sc_player_id = s_player_id s\<rparr>) (sm_sessions sm)) =
      map fst (sm_sessions sm)" by auto
  then have d: "distinct (map sc_token ?c)"
    unfolding sm_make_checkpoint_def distinct_map_sort_key using sm_inv_wf [OF assms]
    by (simp only: um_wf_def)
  have "inj_on (\<lambda>cp. (sc_room_id cp, sc_player_id cp)) (set ?c)"
  proof (rule inj_onI)
    fix cp cp' assume c: "cp \<in> set ?c" "cp' \<in> set ?c"
      and eq: "(sc_room_id cp, sc_player_id cp) = (sc_room_id cp', sc_player_id cp')"
    obtain x y where "sm_view sm (sc_token cp) = Some ((sc_room_id cp, sc_player_id cp), x)"
        "sm_view sm (sc_token cp') = Some ((sc_room_id cp, sc_player_id cp), y)"
      using c eq mem by auto
    then have "sc_token cp = sc_token cp'" by (rule sm_inv_inj [OF assms])
    then show "cp = cp'" using eq by (cases cp; cases cp') simp
  qed
  then have "distinct (map (\<lambda>cp. (sc_room_id cp, sc_player_id cp)) ?c)"
    using d by (simp add: distinct_map)
  moreover have "token_ok (sc_token cp)" if "cp \<in> set ?c" for cp
    using that mem sm_inv_token [OF assms] by blast
  ultimately show ?thesis using d by (simp add: sessions_ok_def)
qed

lemma sm_make_restored:
  assumes "sessions_ok cps" and "sorted (map sc_token cps)"
  shows "sm_make_checkpoint (sm\<lparr>sm_sessions := map (offline_pair dl) cps, sm_bindings := []\<rparr>) = cps"
proof -
  have "map (\<lambda>(t, s). \<lparr>sc_token = t, sc_room_id = s_room_id s, sc_player_id = s_player_id s\<rparr>) (map (offline_pair dl) cps) = cps"
    by (simp add: offline_pair_def Session_offline_def comp_def map_idI)
  moreover have "sm_sessions (sm\<lparr>sm_sessions := map (offline_pair dl) cps, sm_bindings := []\<rparr>) = map (offline_pair dl) cps"
    by simp
  ultimately show ?thesis using assms(2) by (simp only: sm_make_checkpoint_def sort_key_sorted_id)
qed

lemma session_checkpoint_sorted: "sorted (map sc_token (sm_make_checkpoint sm))"
  by (simp add: sm_make_checkpoint_def)

section \<open>Properties\<close>

definition hex_of :: "bytes \<Rightarrow> bytes" where
  "hex_of bs = concat (map (\<lambda>b. [hex_digit (drop_bit 4 b AND 0x0F), hex_digit (b AND 0x0F)]) bs)"

text \<open>What the calls of \<open>getrandom\<close> deliver.\<close>

primrec delivered :: "getrandom_result \<Rightarrow> bytes" where
  "delivered (Random bs) = bs"
| "delivered Interrupted = []"
| "delivered RandomFailed = []"

text \<open>A failed call, or one that delivers nothing, ends the attempt.\<close>

definition gives_up :: "getrandom_result \<Rightarrow> bool" where
  "gives_up r \<longleftrightarrow> r = RandomFailed \<or> r = Random []"

lemma fill_random_interrupted: "fill_random n got (Interrupted # rs) = fill_random n got rs"
  by (subst fill_random.simps) (auto simp: fill_random.simps [of n got rs])

lemma fill_random_delivered:
  "\<forall>r\<in>set rs. \<not> gives_up r \<Longrightarrow> length got \<le> n \<Longrightarrow>
   fill_random n got (rs @ rest) = (if n \<le> length got + length (concat (map delivered rs))
     then Some (take n (got @ concat (map delivered rs)))
     else fill_random n (got @ concat (map delivered rs)) rest)"
proof (induction rs arbitrary: got)
  case (Cons r rs)
  show ?case
  proof (cases "n \<le> length got")
    case True
    then show ?thesis using Cons.prems(2) by (simp add: fill_random.simps [of "length got" got])
  next
    case False
    show ?thesis
    proof (cases r)
      case (Random bs)
      have "bs \<noteq> []" using Cons.prems(1) by (auto simp: Random gives_up_def)
      then show ?thesis
        using Cons.IH [of "got @ take (n - length got) bs"] Cons.prems False
        by (cases "length bs \<le> n - length got") (auto simp: fill_random.simps [of n got] Random)
    qed (use Cons False in \<open>simp_all add: fill_random_interrupted gives_up_def\<close>)
  qed
qed (auto simp: fill_random.simps [of n])

text \<open>The string \<open>HEX\<close> of the code: 0 to 9, then a to f.\<close>

definition HEX :: bytes where
  "HEX = [48, 49, 50, 51, 52, 53, 54, 55, 56, 57, 97, 98, 99, 100, 101, 102]"

lemma HEX_digit: "n < 16 \<Longrightarrow> hex_digit (of_nat n) = HEX ! n"
proof -
  have "\<forall>n\<in>set [0..<16]. hex_digit (of_nat n) = HEX ! n" by code_simp
  then show "n < 16 \<Longrightarrow> ?thesis" by simp
qed

lemma unat_byte_div: "unat (b :: u8) div 16 < 16"
proof -
  have "unat b < 2 ^ LENGTH(8)" by (rule unsigned_less)
  then show ?thesis by simp
qed

lemma nibbles: "b AND 0x0F = (of_nat (unat b mod 16) :: u8)" "unat (drop_bit 4 b :: u8) = unat b div 16"
proof -
  have "unat (b AND 0x0F) = unat b mod 16"
    using take_bit_eq_mask [of 4 b] unsigned_take_bit_eq [of 4 b] by (simp add: mask_eq_exp_minus_1 take_bit_eq_mod)
  then show "b AND 0x0F = (of_nat (unat b mod 16) :: u8)"
    by (simp add: word_unat_eq_iff unat_of_nat)
  show "unat (drop_bit 4 b :: u8) = unat b div 16"
    by (simp add: drop_bit_eq_div unat_div)
qed

lemma hex_of_nth:
  "i < length bs \<Longrightarrow> hex_of bs ! (2 * i) = HEX ! (unat (bs ! i) div 16) \<and> hex_of bs ! (2 * i + 1) = HEX ! (unat (bs ! i) mod 16)"
proof (induction bs arbitrary: i)
  case (Cons b bs)
  show ?case using Cons unat_byte_div [of b] by (cases i) (auto simp: hex_of_def nibbles HEX_digit mod_less)
qed simp

text \<open>C35: a reconnect token is the hexadecimal form of 16 random bytes, however \<open>getrandom\<close>
  delivers them. As soon as calls that are neither failures nor empty - in pieces of any size,
  with any interruptions between - have delivered 16 bytes, the token has 32 digits, of which digit
  \<open>2 * i\<close> is that of the upper half of byte \<open>i\<close> and digit \<open>2 * i + 1\<close> that of the lower half;
  what later calls would answer makes no difference. If a call fails before that, there is no token.\<close>

theorem tokens_are_the_random_bytes_in_hex:
  assumes "\<forall>r\<in>set rs. \<not> gives_up r"
  defines "bs \<equiv> concat (map delivered rs)"
  shows "(16 \<le> length bs \<longrightarrow> length (generate_token (rs @ rest)) = 32 \<and>
      (\<forall>i<16. generate_token (rs @ rest) ! (2 * i) = HEX ! (unat (bs ! i) div 16) \<and>
        generate_token (rs @ rest) ! (2 * i + 1) = HEX ! (unat (bs ! i) mod 16))) \<and>
    (length bs < 16 \<and> gives_up r \<longrightarrow> generate_token (rs @ r # rest) = [])"
proof -
  have tok: "generate_token x = (case fill_random 16 [] x of None \<Rightarrow> [] | Some b \<Rightarrow> hex_of b)" for x
    unfolding generate_token_def hex_of_def by (simp add: TOKEN_SIZE_def)
  note fill = fill_random_delivered [OF assms(1), of "[]" 16, folded bs_def]
  have "length (hex_of x) = 2 * length x" for x by (induction x) (simp_all add: hex_of_def)
  moreover have "fill_random 16 bs (r # rest) = None" if "length bs < 16" "gives_up r"
    using that by (auto simp: fill_random.simps [of 16 bs] gives_up_def)
  ultimately show ?thesis
    using hex_of_nth [of _ "take 16 bs"] by (simp add: tok fill)
qed

theorem tokens_are_the_random_bytes_in_hex_witness:
  "generate_token ([Random [0x1F, 2, 3], Interrupted, Random [4, 5, 6, 7, 8, 9, 10, 11, 12, 13, 14, 15, 16]] @ []) ! 1 = 102"
proof -
  have "\<forall>r\<in>set [Random [0x1F, 2, 3], Interrupted, Random [4, 5, 6, 7, 8, 9, 10, 11, 12, 13, 14, 15, 16]]. \<not> gives_up r"
    by (simp add: gives_up_def)
  from tokens_are_the_random_bytes_in_hex [OF this, of "[]" RandomFailed] show ?thesis
    by (auto dest!: spec [of _ 0] simp: HEX_def)
qed

text \<open>C34: session checkpoints are restored as a whole or not at all: exactly when all tokens are
  32 lower-case hexadecimal digits and tokens and identities are pairwise distinct; then every
  session is offline with the full reconnect timeout ahead, no connection is bound, and a new
  checkpoint of sorted sessions is the one restored; otherwise nothing changes.\<close>

theorem session_restore_is_all_or_nothing:
  "(fst (sm_restore_checkpoint cps now sm) \<longleftrightarrow>
      (\<forall>cp\<in>set cps. length (sc_token cp) = 32 \<and> (\<forall>ch\<in>set (sc_token cp). is_lower_hex ch)) \<and>
      distinct (map sc_token cps) \<and> distinct (map (\<lambda>cp. (sc_room_id cp, sc_player_id cp)) cps)) \<and>
   (\<not> fst (sm_restore_checkpoint cps now sm) \<longrightarrow> snd (sm_restore_checkpoint cps now sm) = sm) \<and>
   (fst (sm_restore_checkpoint cps now sm) \<longrightarrow>
      sm_bindings (snd (sm_restore_checkpoint cps now sm)) = [] \<and>
      (\<forall>t s. um_find t (sm_sessions (snd (sm_restore_checkpoint cps now sm))) = Some s \<longrightarrow>
         s_state s = offline \<and> s_offline_deadline s = now + 1000000 * sm_reconnect_timeout sm) \<and>
      (sorted (map sc_token cps) \<longrightarrow> sm_make_checkpoint (snd (sm_restore_checkpoint cps now sm)) = cps))"
proof (cases "sessions_ok cps")
  case False
  then show ?thesis by (auto simp: sm_restore_iff sessions_ok_def token_ok_def)
next
  case True
  let ?dl = "now + 1000000 * sm_reconnect_timeout sm"
  have "s_state s = offline \<and> s_offline_deadline s = ?dl" if "um_find t (map (offline_pair ?dl) cps) = Some s" for t s
    using um_find_in_set [OF that] by (auto simp: offline_pair_def Session_offline_def)
  then show ?thesis
    using True sm_make_restored [OF True, where sm = sm and dl = ?dl] by (simp add: sm_restore_iff) (simp add: sessions_ok_def token_ok_def)
qed

theorem session_restore_is_all_or_nothing_witness:
  "snd (sm_restore_checkpoint [\<lparr>sc_token = [], sc_room_id = 1, sc_player_id = 1\<rparr>] 0 (SessionManager_new 5)) = SessionManager_new 5"
proof -
  have "\<not> fst (sm_restore_checkpoint [\<lparr>sc_token = [], sc_room_id = 1, sc_player_id = 1\<rparr>] 0 (SessionManager_new 5))"
    by code_simp
  then show ?thesis using session_restore_is_all_or_nothing by blast
qed

end
