(* ===== verification/Room_Service.thy ===== *)
theory Room_Service
  imports Room_Manager Session_Manager Frame_Codec
begin

text \<open>
  \<open>RoomService\<close> (\<open>src/room_service.cpp\<close>): the handlers that tie rooms, sessions and
  connections together. What a handler does to the outside is a log of effects (\<open>effect\<close>); what
  it learns from the outside is an environment (\<open>env\<close>): which connection objects exist and
  their addresses, whether each \<open>send\<close> is accepted and each connection is under back-pressure
  (both may depend on everything done before), the clock, the random bytes, and whether the
  caller is on the base loop's thread and on the connection's own loop thread.
\<close>

datatype effect = Sent conn bytes bool | CloseRequested conn | PeerActivity conn

record env =
  e_alive :: "conn \<Rightarrow> bool"
  e_addr :: "conn \<Rightarrow> nat"
  e_send_ok :: "effect list \<Rightarrow> conn \<Rightarrow> bytes \<Rightarrow> bool"
  e_backpressure :: "effect list \<Rightarrow> conn \<Rightarrow> bool"
  e_now :: time_point
  e_random :: "getrandom_result list"
  e_in_base :: bool
  e_in_io :: bool

record RoomService =
  rs_rooms :: RoomManager
  rs_sessions :: SessionManager

type_synonym service_state = "RoomService \<times> effect list"

definition RoomService_new :: "int \<Rightarrow> RoomService" where
  "RoomService_new reconnect_timeout = \<lparr>rs_rooms = [], rs_sessions = SessionManager_new reconnect_timeout\<rparr>"

fun state_to_error_code :: "RmStates \<Rightarrow> ErrorCode option" where
  "state_to_error_code rm_room_not_found = Some ec_room_not_found"
| "state_to_error_code rm_room_full = Some ec_room_full"
| "state_to_error_code rm_room_not_joinable = Some ec_room_not_joinable"
| "state_to_error_code rm_not_in_room = Some ec_not_in_room"
| "state_to_error_code rm_invalid_player_name = Some ec_invalid_player_name"
| "state_to_error_code rm_invalid_message = Some ec_invalid_message"
| "state_to_error_code rm_player_id_exhausted = Some ec_player_id_exhausted"
| "state_to_error_code rm_room_not_running = Some ec_room_not_running"
| "state_to_error_code rm_already_submitted = Some ec_already_submitted"
| "state_to_error_code rm_success = None"
| "state_to_error_code rm_invalid_connection = None"
| "state_to_error_code rm_internal_error = None"

fun session_state_to_error_code :: "SmStates \<Rightarrow> ErrorCode option" where
  "session_state_to_error_code sm_invalid_token = Some ec_invalid_token"
| "session_state_to_error_code sm_session_online = Some ec_session_online"
| "session_state_to_error_code sm_session_expired = Some ec_session_expired"
| "session_state_to_error_code _ = None"

section \<open>Sending\<close>

definition send_frame :: "env \<Rightarrow> conn option \<Rightarrow> MessageType \<Rightarrow> bytes \<Rightarrow> effect list \<Rightarrow> bool \<times> effect list" where
  "send_frame e connection type payload out =
     (case connection of None \<Rightarrow> (False, out)
      | Some c \<Rightarrow>
        (case Codec_encode (message_code type) payload of None \<Rightarrow> (False, out)
         | Some frame \<Rightarrow>
             if \<not> e_send_ok e out c frame then (False, out @ [Sent c frame False, CloseRequested c])
             else (True, out @ [Sent c frame True])))"

fun broadcast_loop :: "env \<Rightarrow> bool \<Rightarrow> bytes \<Rightarrow> conn list \<Rightarrow> bool \<Rightarrow> effect list \<Rightarrow> bool \<times> effect list" where
  "broadcast_loop e flag frame [] ans out = (ans, out)"
| "broadcast_loop e flag frame (c # cs) ans out =
     (if flag then
        if e_backpressure e out c then broadcast_loop e flag frame cs ans out
        else broadcast_loop e flag frame cs ans (out @ [Sent c frame (e_send_ok e out c frame)])
      else if \<not> e_send_ok e out c frame
        then broadcast_loop e flag frame cs False (out @ [Sent c frame False, CloseRequested c])
        else broadcast_loop e flag frame cs ans (out @ [Sent c frame True]))"

definition broadcast_frame :: "env \<Rightarrow> conn list \<Rightarrow> MessageType \<Rightarrow> bytes \<Rightarrow> effect list \<Rightarrow> bool \<times> effect list" where
  "broadcast_frame e connections type payload out =
     (case Codec_encode (message_code type) payload of None \<Rightarrow> (False, out)
      | Some frame \<Rightarrow> broadcast_loop e (type = mt_state_snapshot) frame connections True out)"

definition send_error :: "env \<Rightarrow> conn option \<Rightarrow> MessageType \<Rightarrow> ErrorCode \<Rightarrow> effect list \<Rightarrow> bool \<times> effect list" where
  "send_error e connection request_type error_code out =
     (case encode_error request_type error_code of None \<Rightarrow> (False, out)
      | Some payload \<Rightarrow> send_frame e connection mt_error payload out)"

text \<open>An error code, if the state has one.\<close>

definition reply_error :: "env \<Rightarrow> conn option \<Rightarrow> MessageType \<Rightarrow> ErrorCode option \<Rightarrow> effect list \<Rightarrow> effect list" where
  "reply_error e connection request_type code out =
     (case code of None \<Rightarrow> out | Some ec \<Rightarrow> snd (send_error e connection request_type ec out))"

section \<open>Handlers on the base loop\<close>

definition rs_add_room :: "env \<Rightarrow> u32 \<Rightarrow> u64 \<Rightarrow> RoomService \<Rightarrow> bool \<times> RoomService" where
  "rs_add_room e room_id capacity s =
     (if \<not> e_in_base e then (False, s)
      else case rm_add_room room_id capacity (rs_rooms s) of (ok, rooms) \<Rightarrow> (ok, s\<lparr>rs_rooms := rooms\<rparr>))"

text \<open>The rollback of a join whose session was created.\<close>

definition undo_join :: "env \<Rightarrow> conn option \<Rightarrow> u32 \<Rightarrow> u64 \<Rightarrow> RoomService \<Rightarrow> RoomService" where
  "undo_join e connection room_id player_id s =
     (case rm_leave (e_alive e) room_id player_id (rs_rooms s) of (rollback_result, rooms) \<Rightarrow>
        if nr_state rollback_result = rm_success
        then s\<lparr>rs_rooms := rooms, rs_sessions := snd (sm_erase_by_connection (e_addr e) connection (rs_sessions s))\<rparr>
        else s\<lparr>rs_rooms := rooms\<rparr>)"

definition handle_join :: "env \<Rightarrow> conn option \<Rightarrow> bytes \<Rightarrow> service_state \<Rightarrow> service_state" where
  "handle_join e connection payload st =
     (case st of (s, out) \<Rightarrow>
      case decode_join_request payload of
        None \<Rightarrow> (s, snd (send_error e connection mt_join ec_invalid_player_name out))
      | Some request \<Rightarrow>
        let lookup_result = sm_lookup (e_addr e) connection (rs_sessions s) in
        if sr_state lookup_result = sm_success
        then (s, snd (send_error e connection mt_join ec_already_in_room out))
        else if sr_state lookup_result \<noteq> sm_not_bound then (s, out)
        else case rm_join (e_alive e) connection (jq_room_id request) (jq_player_name request) (rs_rooms s) of
          (result, rooms) \<Rightarrow>
          let s1 = s\<lparr>rs_rooms := rooms\<rparr> in
          if jr_state result \<noteq> rm_success
          then (s1, reply_error e connection mt_join (state_to_error_code (jr_state result)) out)
          else case sm_create (e_addr e) (e_random e) connection (jr_room_id result) (jr_player_id result) (rs_sessions s1) of
            (session_result, sessions) \<Rightarrow>
            if sr_state session_result \<noteq> sm_success
            then (s1\<lparr>rs_rooms := snd (rm_leave (e_alive e) (jr_room_id result) (jr_player_id result) (rs_rooms s1)),
                    rs_sessions := sessions\<rparr>, out)
            else let s2 = s1\<lparr>rs_sessions := sessions\<rparr> in
              (case (encode_join_ok (jr_room_id result) (jr_player_id result) (sr_token session_result) (jr_members result),
                     encode_player_joined (jr_room_id result) (jr_player_id result) (jq_player_name request)) of
                 (Some response_payload, Some event_payload) \<Rightarrow>
                   (case start_if_full (jr_room_id result) (rs_rooms s2) of
                      (start_state, rooms') \<Rightarrow>
                        let s3 = s2\<lparr>rs_rooms := rooms'\<rparr> in
                        if start_state \<noteq> rm_success
                        then (undo_join e connection (jr_room_id result) (jr_player_id result) s3,
                              reply_error e connection mt_join (state_to_error_code start_state) out)
                        else (s3, snd (broadcast_frame e (jr_notify result) mt_player_joined event_payload
                                    (snd (send_frame e connection mt_join_ok response_payload out)))))
               | _ \<Rightarrow> (undo_join e connection (jr_room_id result) (jr_player_id result) s2, out)))"

definition handle_resume :: "env \<Rightarrow> conn option \<Rightarrow> bytes \<Rightarrow> service_state \<Rightarrow> service_state" where
  "handle_resume e connection payload st =
     (case st of (s, out) \<Rightarrow>
      case decode_resume_request payload of
        None \<Rightarrow> (s, snd (send_error e connection mt_resume ec_invalid_token out))
      | Some token \<Rightarrow>
        (case sm_resume (e_addr e) connection token (e_now e) (rs_sessions s) of
          (session_result, sessions) \<Rightarrow>
          let s1 = s\<lparr>rs_sessions := sessions\<rparr> in
          if sr_state session_result \<noteq> sm_success
          then (s1, reply_error e connection mt_resume (session_state_to_error_code (sr_state session_result)) out)
          else case rm_bind_connection (e_alive e) (sr_room_id session_result) (sr_player_id session_result) connection (rs_rooms s1) of
            (room_result, rooms) \<Rightarrow>
            let s2 = s1\<lparr>rs_rooms := rooms\<rparr>;
                rollback = snd (sm_rollback_resume (e_alive e) (e_addr e) connection sessions) in
            if br_state room_result \<noteq> mb_success
            then (s2\<lparr>rs_sessions := rollback\<rparr>, snd (send_error e connection mt_resume ec_resume_failed out))
            else (case encode_resume_ok (br_room_id room_result) (br_player_id room_result) (br_room_state room_result)
                       (br_tick_id room_result) (br_members room_result) (br_snapshot room_result) of
                None \<Rightarrow> (s2\<lparr>rs_rooms := snd (rm_detach_connection (e_alive e) (br_room_id room_result)
                              (br_player_id room_result) connection rooms), rs_sessions := rollback\<rparr>, out)
              | Some response_payload \<Rightarrow> (s2, snd (send_frame e connection mt_resume_ok response_payload out)))))"

text \<open>\<open>lookup_identity\<close>: the identity, or the log with the error reply.\<close>

definition lookup_identity :: "env \<Rightarrow> conn option \<Rightarrow> MessageType \<Rightarrow> RoomService \<Rightarrow> effect list \<Rightarrow> (u32 \<times> u64) option \<times> effect list" where
  "lookup_identity e connection request_type s out =
     (let result = sm_lookup (e_addr e) connection (rs_sessions s) in
      if sr_state result = sm_success then (Some (sr_room_id result, sr_player_id result), out)
      else if sr_state result = sm_not_bound
        then (None, snd (send_error e connection request_type ec_not_in_room out))
      else (None, out))"

definition handle_leave :: "env \<Rightarrow> conn option \<Rightarrow> bytes \<Rightarrow> service_state \<Rightarrow> service_state" where
  "handle_leave e connection payload st =
     (case st of (s, out) \<Rightarrow>
      if \<not> decode_leave_request payload then (s, snd (send_error e connection mt_leave ec_invalid_message out))
      else case lookup_identity e connection mt_leave s out of
        (None, out') \<Rightarrow> (s, out')
      | (Some (room_id, player_id), out') \<Rightarrow>
        (case rm_leave (e_alive e) room_id player_id (rs_rooms s) of (result, rooms) \<Rightarrow>
          let s1 = s\<lparr>rs_rooms := rooms\<rparr> in
          if nr_state result \<noteq> rm_success
          then (s1, reply_error e connection mt_leave (state_to_error_code (nr_state result)) out')
          else let s2 = s1\<lparr>rs_sessions := snd (sm_erase_by_connection (e_addr e) connection (rs_sessions s1))\<rparr> in
            (case encode_leave_ok room_id of None \<Rightarrow> (s2, out')
             | Some response_payload \<Rightarrow>
               let out1 = snd (send_frame e connection mt_leave_ok response_payload out') in
               (case encode_player_left room_id player_id of None \<Rightarrow> (s2, out1)
                | Some event_payload \<Rightarrow>
                    (s2, snd (broadcast_frame e (nr_notify result) mt_player_left event_payload out1))))))"

definition handle_chat :: "env \<Rightarrow> conn option \<Rightarrow> bytes \<Rightarrow> service_state \<Rightarrow> service_state" where
  "handle_chat e connection payload st =
     (case st of (s, out) \<Rightarrow>
      case decode_chat_request payload of
        None \<Rightarrow> (s, snd (send_error e connection mt_chat ec_invalid_message out))
      | Some message \<Rightarrow>
        (case lookup_identity e connection mt_chat s out of
          (None, out') \<Rightarrow> (s, out')
        | (Some (room_id, player_id), out') \<Rightarrow>
          let result = rm_chat (e_alive e) room_id player_id message (rs_rooms s) in
          if nr_state result \<noteq> rm_success
          then (s, reply_error e connection mt_chat (state_to_error_code (nr_state result)) out')
          else (case encode_chat_event room_id player_id message of None \<Rightarrow> (s, out')
            | Some event_payload \<Rightarrow>
                (s, snd (broadcast_frame e (nr_notify result) mt_chat_event event_payload out')))))"

definition handle_move :: "env \<Rightarrow> conn option \<Rightarrow> bytes \<Rightarrow> service_state \<Rightarrow> service_state" where
  "handle_move e connection payload st =
     (case st of (s, out) \<Rightarrow>
      case decode_move_request payload of
        None \<Rightarrow> (s, snd (send_error e connection mt_move ec_invalid_message out))
      | Some request \<Rightarrow>
        (case lookup_identity e connection mt_move s out of
          (None, out') \<Rightarrow> (s, out')
        | (Some (room_id, player_id), out') \<Rightarrow>
          (case rm_move room_id player_id (mq_dx request) (mq_dy request) (rs_rooms s) of (result, rooms) \<Rightarrow>
             (s\<lparr>rs_rooms := rooms\<rparr>, if fst result \<noteq> rm_success
                then reply_error e connection mt_move (state_to_error_code (fst result)) out' else out'))))"

definition handle_attack :: "env \<Rightarrow> conn option \<Rightarrow> bytes \<Rightarrow> service_state \<Rightarrow> service_state" where
  "handle_attack e connection payload st =
     (case st of (s, out) \<Rightarrow>
      case decode_attack_request payload of
        None \<Rightarrow> (s, snd (send_error e connection mt_attack ec_invalid_message out))
      | Some target_player_id \<Rightarrow>
        (case lookup_identity e connection mt_attack s out of
          (None, out') \<Rightarrow> (s, out')
        | (Some (room_id, player_id), out') \<Rightarrow>
          (case rm_attack room_id player_id target_player_id (rs_rooms s) of (result, rooms) \<Rightarrow>
             (s\<lparr>rs_rooms := rooms\<rparr>, if fst result \<noteq> rm_success
                then reply_error e connection mt_attack (state_to_error_code (fst result)) out' else out'))))"

definition handle_frame_in_loop :: "env \<Rightarrow> conn option \<Rightarrow> u16 \<Rightarrow> bytes \<Rightarrow> service_state \<Rightarrow> service_state" where
  "handle_frame_in_loop e connection type payload st =
     (if \<not> e_in_base e \<or> connection = None then st
      else if type = message_code mt_join then handle_join e connection payload st
      else if type = message_code mt_leave then handle_leave e connection payload st
      else if type = message_code mt_chat then handle_chat e connection payload st
      else if type = message_code mt_move then handle_move e connection payload st
      else if type = message_code mt_attack then handle_attack e connection payload st
      else if type = message_code mt_resume then handle_resume e connection payload st
      else st)"

text \<open>The task that \<open>handle_connection_closed\<close> runs on the base loop.\<close>

definition handle_closed_in_loop :: "env \<Rightarrow> conn option \<Rightarrow> RoomService \<Rightarrow> RoomService" where
  "handle_closed_in_loop e connection s =
     (if \<not> e_in_base e \<or> connection = None then s
      else let lookup_result = sm_lookup (e_addr e) connection (rs_sessions s) in
        if sr_state lookup_result \<noteq> sm_success then s
        else case rm_detach_connection (e_alive e) (sr_room_id lookup_result) (sr_player_id lookup_result) connection (rs_rooms s) of
          (detach_result, rooms) \<Rightarrow>
            let s1 = s\<lparr>rs_rooms := rooms\<rparr> in
            if fst detach_result \<noteq> mb_success then s1
            else s1\<lparr>rs_sessions := snd (sm_detach (e_alive e) (e_addr e) connection (e_now e) (rs_sessions s1))\<rparr>)"

fun broadcast_ticks :: "env \<Rightarrow> RmTickResult list \<Rightarrow> effect list \<Rightarrow> effect list" where
  "broadcast_ticks e [] out = out"
| "broadcast_ticks e (r # rs) out =
     (if tk_notify r = [] then broadcast_ticks e rs out
      else case encode_state_snapshot (tk_room_id r) (tk_tick_id r) (tk_snapshot r) of
        None \<Rightarrow> broadcast_ticks e rs out
      | Some payload \<Rightarrow> broadcast_ticks e rs (snd (broadcast_frame e (tk_notify r) mt_state_snapshot payload out)))"

definition handle_tick :: "env \<Rightarrow> nat \<Rightarrow> service_state \<Rightarrow> service_state" where
  "handle_tick e expirations st =
     (case st of (s, out) \<Rightarrow>
      if \<not> e_in_base e then st
      else if expirations = 0 then st
      else case tick_rooms (e_alive e) (rs_rooms s) of (results, rooms) \<Rightarrow>
        (s\<lparr>rs_rooms := rooms\<rparr>, broadcast_ticks e results out))"

fun expire_loop :: "env \<Rightarrow> time_point \<Rightarrow> (bytes \<times> u32 \<times> u64) list \<Rightarrow> service_state \<Rightarrow> service_state" where
  "expire_loop e now [] st = st"
| "expire_loop e now ((token, room_id, player_id) # items) (s, out) =
     (case rm_leave (e_alive e) room_id player_id (rs_rooms s) of (leave_result, rooms) \<Rightarrow>
        let s1 = s\<lparr>rs_rooms := rooms\<rparr> in
        if nr_state leave_result \<noteq> rm_success then expire_loop e now items (s1, out)
        else case sm_erase_expired token now (rs_sessions s1) of (erased, sessions) \<Rightarrow>
          let s2 = s1\<lparr>rs_sessions := sessions\<rparr> in
          if erased \<noteq> sm_success then expire_loop e now items (s2, out)
          else (case encode_player_left room_id player_id of
              None \<Rightarrow> expire_loop e now items (s2, out)
            | Some event_payload \<Rightarrow> expire_loop e now items
                (s2, snd (broadcast_frame e (nr_notify leave_result) mt_player_left event_payload out))))"

definition handle_session_timeouts :: "env \<Rightarrow> time_point \<Rightarrow> service_state \<Rightarrow> service_state" where
  "handle_session_timeouts e now st =
     (if \<not> e_in_base e then st
      else expire_loop e now (sm_expired_sessions now (rs_sessions (fst st))) st)"

section \<open>Checkpoints of the whole service\<close>

definition identities_match :: "RoomCheckpoint list \<Rightarrow> SessionCheckpoint list \<Rightarrow> bool" where
  "identities_match rooms sessions \<longleftrightarrow>
     set (concat (map (\<lambda>room. map (\<lambda>m. (rc_room_id room, cm_player_id m)) (rc_members room)) rooms)) =
     set (map (\<lambda>session. (sc_room_id session, sc_player_id session)) sessions)"

definition rs_make_checkpoint :: "env \<Rightarrow> u64 \<Rightarrow> RoomService \<Rightarrow> ServerCheckpoint option" where
  "rs_make_checkpoint e generation s =
     (if generation = 0 then None
      else if \<not> e_in_base e then None
      else let rooms = rm_make_checkpoint (rs_rooms s); sessions = sm_make_checkpoint (rs_sessions s) in
        if \<not> identities_match rooms sessions then None
        else Some \<lparr>sv_generation = generation, sv_rooms = rooms, sv_sessions = sessions\<rparr>)"

definition rs_restore_checkpoint :: "env \<Rightarrow> ServerCheckpoint \<Rightarrow> time_point \<Rightarrow> RoomService \<Rightarrow> bool \<times> RoomService" where
  "rs_restore_checkpoint e checkpoint now s =
     (if sv_generation checkpoint = 0 then (False, s)
      else if \<not> e_in_base e then (False, s)
      else if \<not> identities_match (sv_rooms checkpoint) (sv_sessions checkpoint) then (False, s)
      else case rm_restore_checkpoint (sv_rooms checkpoint) (rs_rooms s) of (ok, rooms) \<Rightarrow>
        let s1 = s\<lparr>rs_rooms := rooms\<rparr> in
        if \<not> ok then (False, s1)
        else case sm_restore_checkpoint (sv_sessions checkpoint) now (rs_sessions s1) of (ok', sessions) \<Rightarrow>
          (ok', s1\<lparr>rs_sessions := sessions\<rparr>))"

section \<open>On the I/O threads\<close>

text \<open>What an I/O thread hands to the base loop, and what it does itself.\<close>

datatype task = FrameTask conn u16 bytes | ClosedTask conn

record io_state =
  io_posted :: "task list"
  io_effects :: "effect list"

definition handle_heartbeat :: "env \<Rightarrow> conn option \<Rightarrow> bytes \<Rightarrow> io_state \<Rightarrow> bool \<times> io_state" where
  "handle_heartbeat e connection payload io =
     (case connection of None \<Rightarrow> (False, io)
      | Some c \<Rightarrow>
        (case decode_heartbeat_request payload of None \<Rightarrow> (False, io)
         | Some seq \<Rightarrow>
           let out = io_effects io @ [PeerActivity c] in
           (case encode_heartbeat_ack seq of None \<Rightarrow> (False, io\<lparr>io_effects := out\<rparr>)
            | Some temp \<Rightarrow> (case send_frame e connection mt_heartbeat_ack temp out of
                 (ok, out') \<Rightarrow> (ok, io\<lparr>io_effects := out'\<rparr>)))))"

definition handle_decoded_frame :: "env \<Rightarrow> conn option \<Rightarrow> u16 \<Rightarrow> bytes \<Rightarrow> io_state \<Rightarrow> bool \<times> io_state" where
  "handle_decoded_frame e connection type payload io =
     (case connection of None \<Rightarrow> (False, io)
      | Some c \<Rightarrow>
        if type = message_code mt_heartbeat then handle_heartbeat e connection payload io
        else if type \<in> message_code ` {mt_join, mt_leave, mt_chat, mt_move, mt_attack, mt_resume}
        then (True, io\<lparr>io_effects := io_effects io @ [PeerActivity c],
                       io_posted := io_posted io @ [FrameTask c type payload]\<rparr>)
        else (False, io))"

definition handle_message :: "env \<Rightarrow> conn option \<Rightarrow> Buffer \<Rightarrow> io_state \<Rightarrow> (bool \<times> Buffer \<times> io_state) option" where
  "handle_message e connection buffer io =
     (if connection = None \<or> \<not> e_in_io e then Some (False, buffer, io)
      else Codec_decode (Some (handle_decoded_frame e connection)) buffer io)"

end
