(* ===== verification/Service_Laws.thy ===== *)
theory Service_Laws
  imports Room_Service
begin

text \<open>
  What the room service keeps true. \<open>service_inv\<close> ties rooms and sessions together: the member
  (room id, player id) exists exactly when one session stands for it, and the connection the
  room keeps for it is the one its session is bound to. Every handler keeps it, so the service
  can always be checkpointed and the checkpoint can always be restored.
\<close>

lemma rs_update_order [simp]: "s\<lparr>rs_sessions := a, rs_rooms := b\<rparr> = s\<lparr>rs_rooms := b, rs_sessions := a\<rparr>"
  by (cases s) simp

definition linked :: "roster \<Rightarrow> session_view \<Rightarrow> bool" where
  "linked R V \<longleftrightarrow> (\<forall>i w. R i = Some w \<longleftrightarrow> (\<exists>t. V t = Some (i, w)))"

lemma linkedD: "linked R V \<Longrightarrow> R i = Some w \<longleftrightarrow> (\<exists>t. V t = Some (i, w))"
  unfolding linked_def by blast

lemma linked_None: "linked R V \<Longrightarrow> R i = None \<longleftrightarrow> (\<forall>t w. V t \<noteq> Some (i, w))"
  unfolding linked_def by (metis not_None_eq)

lemma linked_dom: "linked R V \<Longrightarrow> R i \<noteq> None \<longleftrightarrow> (\<exists>t w. V t = Some (i, w))"
  by (simp add: linked_None del: split_paired_All split_paired_Ex)

lemma linked_Some: "linked R V \<Longrightarrow> V t = Some (i, w) \<Longrightarrow> R i = Some w"
  unfolding linked_def by blast

lemma linked_add:
  assumes "linked R V" and "R i = None" and "V t = None"
  shows "linked (R(i \<mapsto> w)) (V(t \<mapsto> (i, w)))"
  unfolding linked_def
proof (intro allI)
  fix j x
  show "(R(i \<mapsto> w)) j = Some x \<longleftrightarrow> (\<exists>u. (V(t \<mapsto> (i, w))) u = Some (j, x))"
  proof (cases "j = i")
    case True
    then show ?thesis using linked_None [OF assms(1), of i] assms(2) by auto
  next
    case False
    then have "(\<exists>u. (V(t \<mapsto> (i, w))) u = Some (j, x)) \<longleftrightarrow> (\<exists>u. V u = Some (j, x))"
      using assms(3) by (metis fun_upd_apply option.distinct(1) option.inject prod.inject)
    then show ?thesis using False linkedD [OF assms(1), of j x] by simp
  qed
qed

lemma linked_put:
  assumes "linked R V" and "view_inj V" and "V t = Some (i, w0)" and "v = map_option (Pair i) w"
  shows "linked (R(i := w)) (V(t := v))"
  unfolding linked_def
proof (intro allI)
  fix j x
  have inj: "V u = Some (i, y) \<Longrightarrow> u = t" for u y
    using assms(2,3) unfolding view_inj_def by blast
  show "(R(i := w)) j = Some x \<longleftrightarrow> (\<exists>u. (V(t := v)) u = Some (j, x))"
  proof (cases "j = i")
    case True
    then show ?thesis using inj assms(4) by (cases w) auto
  next
    case False
    then have "(V(t := v)) u = Some (j, x) \<longleftrightarrow> V u = Some (j, x)" for u
      using assms(3,4) by (cases w) auto
    then show ?thesis using False linkedD [OF assms(1), of j x] by simp
  qed
qed

definition service_inv :: "(conn \<Rightarrow> bool) \<Rightarrow> (conn \<Rightarrow> nat) \<Rightarrow> RoomService \<Rightarrow> bool" where
  "service_inv opn addr s \<longleftrightarrow> rooms_inv (rs_rooms s) \<and> sm_inv opn addr (rs_sessions s) \<and>
     linked (roster (rs_rooms s)) (sm_view (rs_sessions s))"

lemma service_invD:
  assumes "service_inv opn addr s"
  shows "rooms_inv (rs_rooms s)" and "sm_inv opn addr (rs_sessions s)"
    and "linked (roster (rs_rooms s)) (sm_view (rs_sessions s))" and "view_inj (sm_view (rs_sessions s))"
  using assms unfolding service_inv_def sm_inv_def by blast+

text \<open>An environment that fits the set of open connections.\<close>

definition env_ok :: "(conn \<Rightarrow> bool) \<Rightarrow> env \<Rightarrow> bool" where
  "env_ok opn e \<longleftrightarrow> (\<forall>c. opn c \<longrightarrow> e_alive e c) \<and> inj_on (e_addr e) {c. opn c}"

lemma service_new_inv: "service_inv opn addr (RoomService_new ms)"
  using sm_new_inv [of opn addr ms]
  by (simp add: service_inv_def RoomService_new_def live_rooms.table_empty linked_def
      roster_def sm_view_def SessionManager_new_def)

lemma service_rooms_inv:
  "service_inv opn addr s \<Longrightarrow> rooms_inv m \<Longrightarrow> roster m = roster (rs_rooms s) \<Longrightarrow> service_inv opn addr (s\<lparr>rs_rooms := m\<rparr>)"
  by (simp add: service_inv_def)

lemma rs_add_room_inv:
  assumes "service_inv opn addr s"
  shows "service_inv opn addr (snd (rs_add_room e k c s))"
proof (cases "e_in_base e \<and> \<not> contains_room k (rs_rooms s)")
  case True
  have "room_roster (Room_new k c) p = None" for p by (simp add: room_roster_def Room_new_def)
  then have "roster (um_assign k (Room_new k c) (rs_rooms s)) = roster (rs_rooms s)"
    using True by (auto simp: roster_assign roster_def contains_room_def)
  then show ?thesis
    using True assms rm_add_room_inv [OF service_invD(1) [OF assms], of k c]
    by (simp add: rs_add_room_def rm_add_room_def service_rooms_inv)
qed (use assms in \<open>auto simp: rs_add_room_def rm_add_room_def split: prod.split\<close>)

section \<open>Leaving\<close>

lemma bound_view:
  assumes "service_inv opn addr s" and "opn c" and "inj_on addr {c. opn c}"
  shows "(\<exists>t k p. sm_view (rs_sessions s) t = Some ((k, p), Some c) \<and>
      sm_lookup addr (Some c) (rs_sessions s) = \<lparr>sr_state = sm_success, sr_token = t, sr_room_id = k, sr_player_id = p\<rparr>) \<or>
    ((\<forall>t i. sm_view (rs_sessions s) t \<noteq> Some (i, Some c)) \<and>
      sm_lookup addr (Some c) (rs_sessions s) = sm_result sm_not_bound)"
proof (cases "\<exists>t i. sm_view (rs_sessions s) t = Some (i, Some c)")
  case True
  then obtain t k p where "sm_view (rs_sessions s) t = Some ((k, p), Some c)" by force
  then show ?thesis using lookup_bound [OF service_invD(2) [OF assms(1)]] by blast
next
  case False
  then show ?thesis using lookup_unbound [OF service_invD(2) [OF assms(1)] assms(2,3)] by blast
qed

lemma leave_bound:
  assumes "service_inv opn addr s" and "inj_on addr {c. opn c}"
    and v: "sm_view (rs_sessions s) t = Some ((k, p), Some c)"
  shows "nr_state (fst (rm_leave alive k p (rs_rooms s))) = rm_success"
    and "service_inv opn addr (s\<lparr>rs_rooms := snd (rm_leave alive k p (rs_rooms s)),
      rs_sessions := snd (sm_erase_by_connection addr (Some c) (rs_sessions s))\<rparr>)"
proof -
  note inv = service_invD [OF assms(1)]
  have "roster (rs_rooms s) (k, p) = Some (Some c)" using linked_Some [OF inv(3) v] .
  then show ok: "nr_state (fst (rm_leave alive k p (rs_rooms s))) = rm_success"
    and "service_inv opn addr (s\<lparr>rs_rooms := snd (rm_leave alive k p (rs_rooms s)),
      rs_sessions := snd (sm_erase_by_connection addr (Some c) (rs_sessions s))\<rparr>)"
    using rm_leave_cases [OF inv(1), of k p alive] erase_bound [OF inv(2) assms(2) v]
      linked_put [OF inv(3,4) v, of None None] rm_inv(3) [OF inv(1), of alive k p]
    by (auto simp: service_inv_def)
qed

lemma undo_join_eq:
  assumes "nr_state (fst (rm_leave (e_alive e) k p (rs_rooms s))) = rm_success"
  shows "undo_join e c k p s = s\<lparr>rs_rooms := snd (rm_leave (e_alive e) k p (rs_rooms s)),
    rs_sessions := snd (sm_erase_by_connection (e_addr e) c (rs_sessions s))\<rparr>"
  using assms by (simp add: undo_join_def split_beta)

section \<open>Joining\<close>

text \<open>
  After \<open>rm_join\<close> and \<open>sm_create\<close> have both succeeded the member and the session are there;
  this is the state that a later failure rolls back.
\<close>

lemma joined_inv:
  assumes "service_inv opn addr s" and "opn c" and "inj_on addr {c. opn c}"
    and j: "rm_join alive (Some c) k n (rs_rooms s) = (res, m)" "jr_state res = rm_success"
    and cr: "sm_create addr rs (Some c) (jr_room_id res) (jr_player_id res) (rs_sessions s) = (sres, sm)"
      "sr_state sres = sm_success"
  shows "service_inv opn addr (s\<lparr>rs_rooms := m, rs_sessions := sm\<rparr>)"
    and "sm_view sm (sr_token sres) = Some ((jr_room_id res, jr_player_id res), Some c)"
    and "token_ok (sr_token sres)"
    and "sm_view (rs_sessions s) (sr_token sres) = None"
proof -
  note inv = service_invD [OF assms(1)]
  let ?p = "jr_player_id res"
  have r: "jr_room_id res = k" "roster (rs_rooms s) (k, ?p) = None"
      "roster m = (roster (rs_rooms s))((k, ?p) := Some (Some c))"
    using rm_join_success [OF inv(1), of alive "Some c" k n] j by auto
  have m: "rooms_inv m" using rm_inv(1) [OF inv(1), of alive "Some c" k n] j(1) by simp
  have fresh: "\<forall>t d. sm_view (rs_sessions s) t \<noteq> Some ((k, ?p), d)"
    using linked_None [OF inv(3)] r(2) by blast
  have t: "token_ok (sr_token sres)" "sm_view (rs_sessions s) (sr_token sres) = None"
      "sm_view sm = (sm_view (rs_sessions s))(sr_token sres \<mapsto> ((k, ?p), Some c))" "sm_inv opn addr sm"
    using create_cases [OF inv(2) assms(2,3), of rs k ?p] cr r(1) fresh by auto
  show "service_inv opn addr (s\<lparr>rs_rooms := m, rs_sessions := sm\<rparr>)"
    using m t linked_add [OF inv(3) r(2) t(2), of "Some c"] r(3) by (simp add: service_inv_def)
  show "sm_view sm (sr_token sres) = Some ((jr_room_id res, ?p), Some c)" "token_ok (sr_token sres)"
      "sm_view (rs_sessions s) (sr_token sres) = None"
    using t r(1) by simp_all
qed

lemma undo_join_inv:
  assumes "service_inv opn addr s" and "inj_on addr {c. opn c}" and "addr = e_addr e"
    and "sm_view (rs_sessions s) t = Some ((k, p), Some c)"
  shows "service_inv opn addr (undo_join e (Some c) k p s)"
  using leave_bound [OF assms(1,2,4), of "e_alive e"] assms(3) by (simp add: undo_join_eq)

lemma start_keeps:
  assumes "service_inv opn addr s"
  shows "service_inv opn addr (s\<lparr>rs_rooms := snd (start_if_full k (rs_rooms s))\<rparr>)"
  using rm_inv(2) [OF service_invD(1) [OF assms], of k] assms
  by (simp add: service_rooms_inv roster_start_if_full)

lemma failed_join_inv:
  assumes "service_inv opn addr s" and "jr_state (fst (rm_join alive c k n (rs_rooms s))) \<noteq> rm_success"
  shows "service_inv opn addr (s\<lparr>rs_rooms := snd (rm_join alive c k n (rs_rooms s))\<rparr>)"
  using rm_inv(1) [OF service_invD(1) [OF assms(1)], of alive c k n] rm_join_failed [OF assms(2)] assms(1)
  by (simp add: service_rooms_inv)

lemma join_without_session:
  assumes "service_inv opn addr s" and j: "rm_join alive (Some c) k n (rs_rooms s) = (res, m)" "jr_state res = rm_success"
  shows "service_inv opn addr (s\<lparr>rs_rooms := snd (rm_leave alive (jr_room_id res) (jr_player_id res) m)\<rparr>)"
proof -
  note inv = service_invD [OF assms(1)]
  let ?p = "jr_player_id res"
  have r: "jr_room_id res = k" "roster (rs_rooms s) (k, ?p) = None"
      "roster m = (roster (rs_rooms s))((k, ?p) := Some (Some c))"
    using rm_join_success [OF inv(1), of alive "Some c" k n] j by auto
  have m: "rooms_inv m" using rm_inv(1) [OF inv(1), of alive "Some c" k n] j(1) by simp
  have "roster (snd (rm_leave alive k ?p m)) = roster (rs_rooms s)"
    using rm_leave_cases [OF m, of k ?p alive] r(2,3) by auto
  then show ?thesis
    using rm_inv(3) [OF m, of alive k ?p] assms(1) r(1) by (simp add: service_rooms_inv)
qed

lemma handle_join_inv:
  assumes "service_inv opn (e_addr e) s" and "opn c" and "env_ok opn e"
  shows "service_inv opn (e_addr e) (fst (handle_join e (Some c) payload (s, out)))"
proof (cases "decode_join_request payload")
  case None
  then show ?thesis using assms(1) by (simp add: handle_join_def Let_def)
next
  case (Some q)
  have inj: "inj_on (e_addr e) {c. opn c}" using assms(3) by (simp add: env_ok_def)
  let ?l = "sm_lookup (e_addr e) (Some c) (rs_sessions s)"
  show ?thesis
  proof (cases "sr_state ?l = sm_not_bound")
    case False
    then show ?thesis using Some assms(1) by (simp add: handle_join_def Let_def)
  next
    case unbound: True
    obtain res m where j: "rm_join (e_alive e) (Some c) (jq_room_id q) (jq_player_name q) (rs_rooms s) = (res, m)"
      by fastforce
    show ?thesis
    proof (cases "jr_state res = rm_success")
      case False
      then show ?thesis
        using Some unbound j failed_join_inv [OF assms(1), of "e_alive e" "Some c" "jq_room_id q" "jq_player_name q"]
        by (simp add: handle_join_def Let_def)
    next
      case joined: True
      obtain sres sm where cr: "sm_create (e_addr e) (e_random e) (Some c) (jr_room_id res) (jr_player_id res)
          (rs_sessions s) = (sres, sm)" by fastforce
      show ?thesis
      proof (cases "sr_state sres = sm_success")
        case False
        have "sm = rs_sessions s"
          using create_cases [OF service_invD(2) [OF assms(1)] assms(2) inj,
              of "e_random e" "jr_room_id res" "jr_player_id res"] cr False by auto
        then show ?thesis
          using Some unbound j joined cr False join_without_session [OF assms(1) j joined]
          by (simp add: handle_join_def Let_def)
      next
        case created: True
        note ji = joined_inv [OF assms(1,2) inj j joined cr created]
        let ?s = "s\<lparr>rs_rooms := m, rs_sessions := sm\<rparr>"
        have undo: "service_inv opn (e_addr e) (undo_join e (Some c) (jr_room_id res) (jr_player_id res) ?s)"
          by (rule undo_join_inv [OF ji(1) inj refl, where t = "sr_token sres"]) (simp add: ji(2))
        obtain st m' where sf: "start_if_full (jr_room_id res) m = (st, m')" by fastforce
        have started: "service_inv opn (e_addr e) (s\<lparr>rs_rooms := m', rs_sessions := sm\<rparr>)"
          using start_keeps [OF ji(1), of "jr_room_id res"] sf by simp
        have undo': "service_inv opn (e_addr e)
            (undo_join e (Some c) (jr_room_id res) (jr_player_id res) (s\<lparr>rs_rooms := m', rs_sessions := sm\<rparr>))"
          by (rule undo_join_inv [OF started inj refl, where t = "sr_token sres"]) (simp add: ji(2))
        show ?thesis
          using Some unbound j joined cr created undo undo' started sf
          by (auto simp: handle_join_def Let_def split: option.split)
      qed
    qed
  qed
qed

section \<open>The other handlers\<close>

lemma handle_resume_inv:
  assumes "service_inv opn (e_addr e) s" and "opn c" and "env_ok opn e"
  shows "service_inv opn (e_addr e) (fst (handle_resume e (Some c) payload (s, out)))"
proof (cases "decode_resume_request payload")
  case None
  then show ?thesis using assms(1) by (simp add: handle_resume_def)
next
  case (Some tok)
  note inv = service_invD [OF assms(1)]
  have inj: "inj_on (e_addr e) {c. opn c}" and al: "e_alive e c"
    using assms(2,3) by (simp_all add: env_ok_def)
  obtain res sm where rs: "sm_resume (e_addr e) (Some c) tok (e_now e) (rs_sessions s) = (res, sm)" by fastforce
  note rc = resume_cases [OF inv(2) assms(2) inj, of tok "e_now e", unfolded rs fst_conv snd_conv]
  show ?thesis
  proof (cases "sr_state res = sm_success")
    case False
    then show ?thesis using Some rs rc assms(1) by (auto simp: handle_resume_def Let_def)
  next
    case True
    let ?k = "sr_room_id res" and ?p = "sr_player_id res"
    have v: "sm_view (rs_sessions s) tok = Some ((?k, ?p), None)"
      and sm: "sm_view sm = (sm_view (rs_sessions s))(tok \<mapsto> ((?k, ?p), Some c))" "sm_inv opn (e_addr e) sm"
      using rc True by auto
    have ro: "roster (rs_rooms s) (?k, ?p) = Some None" using linked_Some [OF inv(3) v] .
    obtain br m where b: "rm_bind_connection (e_alive e) ?k ?p (Some c) (rs_rooms s) = (br, m)" by fastforce
    have bs: "br_state br = mb_success" "br_room_id br = ?k" "br_player_id br = ?p"
      "roster m = (roster (rs_rooms s))((?k, ?p) := Some (Some c))"
      using rm_bind_cases [of "Some c" "e_alive e" ?k ?p "rs_rooms s"] b ro by (auto simp: weak_lock_def)
    have m: "rooms_inv m" using rm_inv(6) [OF inv(1), of "e_alive e" ?k ?p "Some c"] b by simp
    have l: "linked (roster m) (sm_view sm)"
      using linked_put [OF inv(3,4) v, of "Some ((?k, ?p), Some c)" "Some (Some c)"] bs(4) sm(1) by simp
    have fin: "service_inv opn (e_addr e) (s\<lparr>rs_rooms := m, rs_sessions := sm\<rparr>)"
      using m l sm(2) by (simp add: service_inv_def)
    text \<open>The rollback, when the response cannot be encoded.\<close>
    have v': "sm_view sm tok = Some ((?k, ?p), Some c)" using sm(1) by simp
    note rb = detach_bound(2) [OF sm(2) inj _ v', where alive = "e_alive e", OF al]
    have "roster m (?k, ?p) = Some (Some c)" using bs(4) by simp
    then have dt: "roster (snd (rm_detach_connection (e_alive e) ?k ?p (Some c) m)) = (roster m)((?k, ?p) := Some None)"
      using rm_detach_cases [of "Some c" "e_alive e" ?k ?p m] al by (auto simp: weak_lock_def)
    have "service_inv opn (e_addr e) (s\<lparr>rs_rooms := snd (rm_detach_connection (e_alive e) ?k ?p (Some c) m),
        rs_sessions := snd (sm_rollback_resume (e_alive e) (e_addr e) (Some c) sm)\<rparr>)"
      using rm_inv(7) [OF m, of "e_alive e" ?k ?p "Some c"] dt rb sm(1) bs(4) l inv(3) v ro
      by (simp add: service_inv_def fun_upd_idem)
    with fin show ?thesis
      using Some rs True b bs by (auto simp: handle_resume_def Let_def split: option.split)
  qed
qed

lemma lookup_identity_cases:
  assumes "service_inv opn (e_addr e) s" and "opn c" and "env_ok opn e"
  shows "fst (lookup_identity e (Some c) mt s out) = None \<or>
    (\<exists>t k p. fst (lookup_identity e (Some c) mt s out) = Some (k, p) \<and>
       sm_view (rs_sessions s) t = Some ((k, p), Some c) \<and> snd (lookup_identity e (Some c) mt s out) = out)"
proof -
  have inj: "inj_on (e_addr e) {c. opn c}" using assms(3) by (simp add: env_ok_def)
  show ?thesis
    using bound_view [OF assms(1,2) inj] by (auto simp: lookup_identity_def Let_def sm_result_def)
qed

lemma handle_leave_inv:
  assumes "service_inv opn (e_addr e) s" and "opn c" and "env_ok opn e"
  shows "service_inv opn (e_addr e) (fst (handle_leave e (Some c) payload (s, out)))"
proof (cases "decode_leave_request payload")
  case False
  then show ?thesis using assms(1) by (simp add: handle_leave_def)
next
  case True
  obtain id out' where li: "lookup_identity e (Some c) mt_leave s out = (id, out')" by fastforce
  show ?thesis
  proof (cases id)
    case None
    then show ?thesis using True li assms(1) by (simp add: handle_leave_def)
  next
    case (Some kp)
    obtain k p where kp: "kp = (k, p)" by fastforce
    have inj: "inj_on (e_addr e) {c. opn c}" using assms(3) by (simp add: env_ok_def)
    obtain t where v: "sm_view (rs_sessions s) t = Some ((k, p), Some c)"
      using lookup_identity_cases [OF assms, of mt_leave out] li Some kp by auto
    note lb = leave_bound [OF assms(1) inj v, of "e_alive e"]
    show ?thesis
      using True li Some kp lb
      by (auto simp: handle_leave_def Let_def split_beta split: option.split)
  qed
qed

lemma handle_chat_same: "fst (handle_chat e c payload (s, out)) = s"
  by (auto simp: handle_chat_def Let_def split: option.split prod.split)

lemma handle_command_inv:
  assumes "service_inv opn addr s"
  shows "service_inv opn addr (fst (handle_move e c payload (s, out)))"
    and "service_inv opn addr (fst (handle_attack e c payload (s, out)))"
proof -
  note inv = service_invD [OF assms]
  have "service_inv opn addr (s\<lparr>rs_rooms := snd (rm_move k p dx dy (rs_rooms s))\<rparr>)"
    "service_inv opn addr (s\<lparr>rs_rooms := snd (rm_attack k p t (rs_rooms s))\<rparr>)" for k p dx dy t
    using rm_inv(4,5) [OF inv(1)] assms by (simp_all add: service_rooms_inv roster_commands)
  then show "service_inv opn addr (fst (handle_move e c payload (s, out)))"
    and "service_inv opn addr (fst (handle_attack e c payload (s, out)))"
    using assms by (auto simp: handle_move_def handle_attack_def split_beta split: option.split)
qed

lemma handle_frame_inv:
  assumes "service_inv opn (e_addr e) s" and "opn c" and "env_ok opn e"
  shows "service_inv opn (e_addr e) (fst (handle_frame_in_loop e (Some c) type payload (s, out)))"
  using assms(1) handle_join_inv [OF assms] handle_resume_inv [OF assms] handle_leave_inv [OF assms]
    handle_command_inv [OF assms(1)]
  by (simp add: handle_frame_in_loop_def handle_chat_same)

text \<open>Closing: the session and the member go offline together, and the connection is free.\<close>

lemma handle_closed_cases:
  assumes "service_inv opn (e_addr e) s" and "opn c" and "env_ok opn e" and "e_in_base e"
  shows "service_inv opn (e_addr e) (handle_closed_in_loop e (Some c) s) \<and>
    (\<forall>t i. sm_view (rs_sessions (handle_closed_in_loop e (Some c) s)) t \<noteq> Some (i, Some c))"
proof -
  note inv = service_invD [OF assms(1)]
  have inj: "inj_on (e_addr e) {c. opn c}" and al: "e_alive e c"
    using assms(2,3) by (simp_all add: env_ok_def)
  from bound_view [OF assms(1,2) inj] show ?thesis
  proof (elim disjE exE conjE)
    fix t k p assume v: "sm_view (rs_sessions s) t = Some ((k, p), Some c)"
      and l: "sm_lookup (e_addr e) (Some c) (rs_sessions s) =
        \<lparr>sr_state = sm_success, sr_token = t, sr_room_id = k, sr_player_id = p\<rparr>"
    obtain st m where d: "rm_detach_connection (e_alive e) k p (Some c) (rs_rooms s) = (st, m)" by fastforce
    have ro: "roster (rs_rooms s) (k, p) = Some (Some c)" using linked_Some [OF inv(3) v] .
    then have ds: "fst st = mb_success" "roster m = (roster (rs_rooms s))((k, p) := Some None)"
      using rm_detach_cases [of "Some c" "e_alive e" k p "rs_rooms s"] d al by (auto simp: weak_lock_def)
    have m: "rooms_inv m" using rm_inv(7) [OF inv(1), of "e_alive e" k p "Some c"] d by simp
    note sd = detach_bound(1) [OF inv(2) inj _ v, where alive = "e_alive e", OF al, of "e_now e"]
    have eq: "handle_closed_in_loop e (Some c) s =
        s\<lparr>rs_rooms := m, rs_sessions := snd (sm_detach (e_alive e) (e_addr e) (Some c) (e_now e) (rs_sessions s))\<rparr>"
      using l d ds(1) assms(4) by (simp add: handle_closed_in_loop_def)
    have "linked (roster m) ((sm_view (rs_sessions s))(t \<mapsto> ((k, p), None)))"
      using linked_put [OF inv(3,4) v, of "Some ((k, p), None)" "Some None"] ds(2) by simp
    then have "service_inv opn (e_addr e) (handle_closed_in_loop e (Some c) s)"
      using m sd unfolding eq by (simp add: service_inv_def)
    moreover have "((sm_view (rs_sessions s))(t \<mapsto> ((k, p), None))) u \<noteq> Some (i, Some c)" for u i
    proof
      assume a: "((sm_view (rs_sessions s))(t \<mapsto> ((k, p), None))) u = Some (i, Some c)"
      then have "u \<noteq> t" "sm_view (rs_sessions s) u = Some (i, Some c)" by (auto split: if_splits)
      then show False using sm_inv_binding [OF inv(2)] v by (metis option.inject)
    qed
    ultimately show ?thesis using sd unfolding eq by simp
  next
    assume "\<forall>t i. sm_view (rs_sessions s) t \<noteq> Some (i, Some c)"
      and "sm_lookup (e_addr e) (Some c) (rs_sessions s) = sm_result sm_not_bound"
    then show ?thesis using assms(1) by (simp add: handle_closed_in_loop_def sm_result_def)
  qed
qed

lemma handle_tick_inv:
  assumes "service_inv opn addr s"
  shows "service_inv opn addr (fst (handle_tick e n (s, out)))"
  using tick_rooms_inv [OF service_invD(1) [OF assms], of "e_alive e"] assms
  by (simp add: handle_tick_def split_beta service_rooms_inv roster_tick)

section \<open>Session timeouts\<close>

definition due :: "time_point \<Rightarrow> SessionManager \<Rightarrow> bytes \<times> u32 \<times> u64 \<Rightarrow> bool" where
  "due now sm x = (case x of (t, k, p) \<Rightarrow>
     \<exists>ss. um_find t (sm_sessions sm) = Some ss \<and> s_state ss = offline \<and> session_expired now ss \<and>
       s_room_id ss = k \<and> s_player_id ss = p)"

lemma due_view: "due now sm (t, k, p) \<Longrightarrow> sm_view sm t = Some ((k, p), None)"
  by (auto simp: due_def view_Some)

lemma due_erase: "due now sm x \<Longrightarrow> fst x \<noteq> t \<Longrightarrow> due now (sm\<lparr>sm_sessions := um_erase t (sm_sessions sm)\<rparr>) x"
  by (auto simp: due_def)

lemma expire_step:
  assumes "service_inv opn addr s" and "due now (rs_sessions s) (t, k, p)"
  shows "nr_state (fst (rm_leave alive k p (rs_rooms s))) = rm_success"
    and "sm_erase_expired t now (rs_sessions s) =
      (sm_success, (rs_sessions s)\<lparr>sm_sessions := um_erase t (sm_sessions (rs_sessions s))\<rparr>)"
    and "service_inv opn addr (s\<lparr>rs_rooms := snd (rm_leave alive k p (rs_rooms s)),
      rs_sessions := (rs_sessions s)\<lparr>sm_sessions := um_erase t (sm_sessions (rs_sessions s))\<rparr>\<rparr>)"
proof -
  note inv = service_invD [OF assms(1)]
  have v: "sm_view (rs_sessions s) t = Some ((k, p), None)" using assms(2) by (rule due_view)
  have ro: "roster (rs_rooms s) (k, p) = Some None" using linked_Some [OF inv(3) v] .
  note lv = rm_leave_cases [OF inv(1), of k p alive]
  show "nr_state (fst (rm_leave alive k p (rs_rooms s))) = rm_success" using lv ro by auto
  show "sm_erase_expired t now (rs_sessions s) =
      (sm_success, (rs_sessions s)\<lparr>sm_sessions := um_erase t (sm_sessions (rs_sessions s))\<rparr>)"
    using assms(2) by (auto simp: sm_erase_expired_def due_def)
  show "service_inv opn addr (s\<lparr>rs_rooms := snd (rm_leave alive k p (rs_rooms s)),
      rs_sessions := (rs_sessions s)\<lparr>sm_sessions := um_erase t (sm_sessions (rs_sessions s))\<rparr>\<rparr>)"
    using lv ro erase_expired_inv [OF inv(2) v] linked_put [OF inv(3,4) v, of None None] rm_inv(3) [OF inv(1), of alive k p]
    by (simp add: service_inv_def)
qed

lemma expire_loop_inv:
  assumes "service_inv opn addr s" and "\<forall>x\<in>set items. due now (rs_sessions s) x" and "distinct (map fst items)"
  shows "service_inv opn addr (fst (expire_loop e now items (s, out))) \<and>
    sm_view (rs_sessions (fst (expire_loop e now items (s, out)))) =
      (\<lambda>t. if t \<in> fst ` set items then None else sm_view (rs_sessions s) t)"
  using assms
proof (induction items arbitrary: s out)
  case (Cons x items)
  obtain t k p where x: "x = (t, k, p)" by (cases x) auto
  have d: "due now (rs_sessions s) (t, k, p)" using Cons.prems(2) x by simp
  note st = expire_step(1) [OF Cons.prems(1) d, of "e_alive e"] expire_step(2) [OF Cons.prems(1) d]
    expire_step(3) [OF Cons.prems(1) d, of "e_alive e"]
  let ?s = "s\<lparr>rs_rooms := snd (rm_leave (e_alive e) k p (rs_rooms s)),
      rs_sessions := (rs_sessions s)\<lparr>sm_sessions := um_erase t (sm_sessions (rs_sessions s))\<rparr>\<rparr>"
  have "\<forall>y\<in>set items. due now (rs_sessions ?s) y"
  proof
    fix y assume y: "y \<in> set items"
    then have "fst y \<noteq> t" using Cons.prems(3) x by (auto intro: rev_image_eqI)
    then show "due now (rs_sessions ?s) y" using due_erase [of now "rs_sessions s" y t] Cons.prems(2) y by simp
  qed
  then have IH: "service_inv opn addr (fst (expire_loop e now items (?s, out'))) \<and>
      sm_view (rs_sessions (fst (expire_loop e now items (?s, out')))) =
      (\<lambda>u. if u \<in> fst ` set items then None else sm_view (rs_sessions ?s) u)" for out'
    using Cons.IH [of ?s out'] st(3) Cons.prems(3) by simp
  have "\<exists>out'. expire_loop e now (x # items) (s, out) = expire_loop e now items (?s, out')"
    using st(1,2) by (auto simp: x split_beta Let_def split: option.split)
  then obtain out' where step: "expire_loop e now (x # items) (s, out) = expire_loop e now items (?s, out')" by blast
  have v: "sm_view (rs_sessions ?s) = (sm_view (rs_sessions s))(t := None)"
    using erase_expired_inv [OF service_invD(2) [OF Cons.prems(1)] due_view [OF d]] by simp
  have "(\<lambda>u. if u \<in> fst ` set items then None else sm_view (rs_sessions ?s) u) =
      (\<lambda>u. if u \<in> fst ` set (x # items) then None else sm_view (rs_sessions s) u)"
    unfolding v by (auto simp: x fun_eq_iff)
  then show ?case using IH [of out'] unfolding step by simp
qed (simp add: fun_eq_iff)

lemma expired_due:
  assumes "service_inv opn addr s"
  shows "\<forall>x\<in>set (sm_expired_sessions now (rs_sessions s)). due now (rs_sessions s) x"
    and "distinct (map fst (sm_expired_sessions now (rs_sessions s)))"
proof -
  have wf: "um_wf (sm_sessions (rs_sessions s))"
    using sm_inv_wf [OF service_invD(2) [OF assms]] by simp
  then show "\<forall>x\<in>set (sm_expired_sessions now (rs_sessions s)). due now (rs_sessions s) x"
    by (auto simp: sm_expired_sessions_def due_def um_entries_find)
  have "map fst (sm_expired_sessions now (rs_sessions s)) =
      map fst (filter (\<lambda>(t, ss). \<not> (s_state ss \<noteq> offline \<or> \<not> session_expired now ss)) (sm_sessions (rs_sessions s)))"
    by (simp add: sm_expired_sessions_def split_beta)
  then show "distinct (map fst (sm_expired_sessions now (rs_sessions s)))"
    using wf by (simp add: um_wf_def distinct_map_filter)
qed

lemma handle_timeouts_inv:
  assumes "service_inv opn addr s"
  shows "service_inv opn addr (fst (handle_session_timeouts e now (s, out)))"
  using expire_loop_inv [OF assms expired_due [OF assms], where e = e and out = out] assms
  by (simp add: handle_session_timeouts_def)

section \<open>Checkpoints of the service\<close>

lemma identities_match_iff: "identities_match rooms sessions \<longleftrightarrow> room_identities rooms = session_identities sessions"
  by (auto simp: identities_match_def room_identities_def session_identities_def)

lemma service_identities:
  assumes "service_inv opn addr s"
  shows "identities_match (rm_make_checkpoint (rs_rooms s)) (sm_make_checkpoint (rs_sessions s))"
proof -
  note inv = service_invD [OF assms]
  have "i \<in> session_identities (sm_make_checkpoint (rs_sessions s)) \<longleftrightarrow> (\<exists>t w. sm_view (rs_sessions s) t = Some (i, w))" for i
  proof
    assume "i \<in> session_identities (sm_make_checkpoint (rs_sessions s))"
    then show "\<exists>t w. sm_view (rs_sessions s) t = Some (i, w)"
      using session_entry_pairs [OF inv(2)] by (auto simp: session_identities_def)
  next
    assume "\<exists>t w. sm_view (rs_sessions s) t = Some (i, w)"
    then obtain t w where "sm_view (rs_sessions s) t = Some ((fst i, snd i), w)" by auto
    then have "\<lparr>sc_token = t, sc_room_id = fst i, sc_player_id = snd i\<rparr> \<in> set (sm_make_checkpoint (rs_sessions s))"
      using session_entry_pairs [OF inv(2)] by auto
    then show "i \<in> session_identities (sm_make_checkpoint (rs_sessions s))"
      unfolding session_identities_def by (rule rev_image_eqI) simp
  qed
  moreover have "i \<in> dom (roster (rs_rooms s)) \<longleftrightarrow> (\<exists>t w. sm_view (rs_sessions s) t = Some (i, w))" for i
    using linked_dom [OF inv(3), of i] by (simp only: dom_def mem_Collect_eq)
  ultimately show ?thesis
    unfolding identities_match_iff room_identities_checkpoint [OF inv(1)] by blast
qed

lemma make_service_checkpoint:
  assumes "service_inv opn addr s" and "e_in_base e" and "g \<noteq> 0"
  shows "rs_make_checkpoint e g s = Some \<lparr>sv_generation = g, sv_rooms = rm_make_checkpoint (rs_rooms s),
    sv_sessions = sm_make_checkpoint (rs_sessions s)\<rparr>"
  using assms service_identities [OF assms(1)] by (simp add: rs_make_checkpoint_def)

lemma option_eqI: "(\<And>w. x = Some w \<longleftrightarrow> y = Some w) \<Longrightarrow> x = y"
  by (cases x; cases y) auto

lemma service_restart:
  assumes "service_inv opn addr s" and "e_in_base e" and "g \<noteq> 0" and "rs_make_checkpoint e g s = Some cp"
    and "e_in_base e'"
  shows "fst (rs_restore_checkpoint e' cp now s0)"
    and "service_inv opn' addr' (snd (rs_restore_checkpoint e' cp now s0))"
    and "rs_make_checkpoint e g (snd (rs_restore_checkpoint e' cp now s0)) = Some cp"
    and "sm_view (rs_sessions (snd (rs_restore_checkpoint e' cp now s0))) t =
      map_option (\<lambda>(i, c). (i, None)) (sm_view (rs_sessions s) t)"
proof -
  note inv = service_invD [OF assms(1)]
  let ?rc = "rm_make_checkpoint (rs_rooms s)" and ?sc = "sm_make_checkpoint (rs_sessions s)"
  have cp: "cp = \<lparr>sv_generation = g, sv_rooms = ?rc, sv_sessions = ?sc\<rparr>"
    using make_service_checkpoint [OF assms(1-3)] assms(4) by simp
  note rr = rm_restart [OF inv(1), of "rs_rooms s0"]
  let ?m = "snd (rm_restore_checkpoint ?rc (rs_rooms s0))"
  let ?dl = "now + 1000000 * sm_reconnect_timeout (rs_sessions s0)"
  let ?sm = "(rs_sessions s0)\<lparr>sm_sessions := map (offline_pair ?dl) ?sc, sm_bindings := []\<rparr>"
  note ok = session_checkpoint_ok [OF inv(2)]
  have res: "rs_restore_checkpoint e' cp now s0 = (True, s0\<lparr>rs_rooms := ?m, rs_sessions := ?sm\<rparr>)"
    using rr(1) service_identities [OF assms(1)] assms(3,5) ok
    by (simp add: cp rs_restore_checkpoint_def split_beta sm_restore_iff Let_def)
  note v = view_restored [OF ok, where sm = "rs_sessions s0" and dl = ?dl]
  have view: "sm_view ?sm u = map_option (\<lambda>(i, c). (i, None)) (sm_view (rs_sessions s) u)" for u
  proof -
    have "sm_view ?sm u = Some w \<longleftrightarrow> (\<exists>i c. sm_view (rs_sessions s) u = Some (i, c) \<and> w = (i, None))" for w
    proof
      assume "sm_view ?sm u = Some w"
      then obtain c where "c \<in> set ?sc" "sc_token c = u" "w = ((sc_room_id c, sc_player_id c), None)"
        unfolding v by blast
      then show "\<exists>i c. sm_view (rs_sessions s) u = Some (i, c) \<and> w = (i, None)"
        using session_entry_pairs [OF inv(2), of c] by auto
    next
      assume "\<exists>i c. sm_view (rs_sessions s) u = Some (i, c) \<and> w = (i, None)"
      then obtain i c where ic: "sm_view (rs_sessions s) u = Some (i, c)" "w = (i, None)" by blast
      let ?c = "\<lparr>sc_token = u, sc_room_id = fst i, sc_player_id = snd i\<rparr>"
      have "?c \<in> set ?sc" using session_entry_pairs [OF inv(2), of ?c] ic by simp
      then show "sm_view ?sm u = Some w" unfolding v using ic by (intro bexI [of _ ?c]) simp_all
    qed
    then have eq: "sm_view ?sm u = Some w \<longleftrightarrow> map_option (\<lambda>(i, c). (i, None)) (sm_view (rs_sessions s) u) = Some w" for w
      by auto
    show ?thesis by (rule option_eqI) (rule eq)
  qed
  have "linked (roster ?m) (sm_view ?sm)"
    unfolding rr(4) linked_def view
  proof (intro allI)
    fix i w
    have "roster (rs_rooms s) i \<noteq> None \<longleftrightarrow> (\<exists>t w. sm_view (rs_sessions s) t = Some (i, w))"
      by (rule linked_dom [OF inv(3)])
    moreover have "(\<exists>t. map_option (\<lambda>(i, c). (i, None)) (sm_view (rs_sessions s) t) = Some (i, w)) \<longleftrightarrow>
        w = None \<and> (\<exists>t c. sm_view (rs_sessions s) t = Some (i, c))"
      by (cases i) auto
    ultimately show "(if roster (rs_rooms s) i \<noteq> None then Some None else None) = Some w \<longleftrightarrow>
        (\<exists>t. map_option (\<lambda>(i, c). (i, None)) (sm_view (rs_sessions s) t) = Some (i, w))"
      by (cases "roster (rs_rooms s) i = None") (simp_all, blast+)
  qed
  then have inv': "service_inv opn' addr' (s0\<lparr>rs_rooms := ?m, rs_sessions := ?sm\<rparr>)"
    using rr(2) restored_sm_inv [OF ok, where opn = opn' and addr = addr' and sm = "rs_sessions s0" and dl = ?dl] by (simp add: service_inv_def)
  show "fst (rs_restore_checkpoint e' cp now s0)" by (simp add: res)
  show "service_inv opn' addr' (snd (rs_restore_checkpoint e' cp now s0))" using inv' by (simp add: res)
  have "sm_make_checkpoint ?sm = ?sc" by (rule sm_make_restored [OF ok session_checkpoint_sorted])
  then show "rs_make_checkpoint e g (snd (rs_restore_checkpoint e' cp now s0)) = Some cp"
    unfolding res snd_conv unfolding cp using make_service_checkpoint [OF inv' assms(2,3)] rr(3) by simp
  show "sm_view (rs_sessions (snd (rs_restore_checkpoint e' cp now s0))) t =
      map_option (\<lambda>(i, c). (i, None)) (sm_view (rs_sessions s) t)"
    using view by (simp add: res)
qed

end
