(* ===== verification/Server_World.thy ===== *)
theory Server_World
  imports Service_Laws
begin

text \<open>
  The running server as a step relation: I/O threads read bytes from connections, decode
  frames and post tasks to the base loop's queue; the base loop runs the tasks in order and
  handles ticks, session timeouts and checkpoints in between; the process may stop at any time
  and start again from the last checkpoint. A connection object is \<open>open\<close> until its close
  has been posted and exists at least until its close task has run; its address may then be
  reused by a later object. Every interleaving of these steps is allowed.
\<close>

record world =
  w_service :: RoomService
  w_queue :: "task list"
  w_buffer :: "conn \<Rightarrow> Buffer"
  w_open :: "conn \<Rightarrow> bool"
  w_alive :: "conn \<Rightarrow> bool"
  w_used :: "conn \<Rightarrow> bool"
  w_log :: "effect list"
  w_saved :: "ServerCheckpoint option" \<comment> \<open>the checkpoint on disk\<close>

fun task_conn :: "task \<Rightarrow> conn" where
  "task_conn (FrameTask c t p) = c"
| "task_conn (ClosedTask c) = c"

definition world_new :: "RoomService \<Rightarrow> ServerCheckpoint option \<Rightarrow> world" where
  "world_new s saved = \<lparr>w_service = s, w_queue = [], w_buffer = (\<lambda>_. Buffer_new 4096), w_open = (\<lambda>_. False),
     w_alive = (\<lambda>_. False), w_used = (\<lambda>_. False), w_log = [],
     w_saved = saved\<rparr>"

definition w_accept :: "conn \<Rightarrow> world \<Rightarrow> world" where
  "w_accept c w = w\<lparr>w_open := (w_open w)(c := True), w_alive := (w_alive w)(c := True),
     w_used := (w_used w)(c := True), w_buffer := (w_buffer w)(c := Buffer_new 4096)\<rparr>"

definition w_close :: "conn \<Rightarrow> world \<Rightarrow> world" where
  "w_close c w = w\<lparr>w_open := (w_open w)(c := False), w_queue := w_queue w @ [ClosedTask c]\<rparr>"

text \<open>Bytes arrive: they are appended to the read buffer and decoded; if that fails the
  connection is closed. (A failed assertion of the buffer, \<open>None\<close>, would abort the program.)\<close>

definition w_receive :: "env \<Rightarrow> conn \<Rightarrow> bytes \<Rightarrow> world \<Rightarrow> world option" where
  "w_receive e c d w =
     (case handle_message e (Some c) (buffer_append d (w_buffer w c))
             \<lparr>io_posted = [], io_effects = w_log w\<rparr> of
        None \<Rightarrow> None
      | Some (ok, b, io) \<Rightarrow>
          let w' = w\<lparr>w_buffer := (w_buffer w)(c := b), w_queue := w_queue w @ io_posted io,
                     w_log := io_effects io\<rparr>
          in Some (if ok then w' else w_close c w'))"

definition run_task :: "env \<Rightarrow> task \<Rightarrow> service_state \<Rightarrow> service_state" where
  "run_task e x st = (case x of
       FrameTask c type payload \<Rightarrow> handle_frame_in_loop e (Some c) type payload st
     | ClosedTask c \<Rightarrow> (handle_closed_in_loop e (Some c) (fst st), snd st))"

definition w_set :: "service_state \<Rightarrow> world \<Rightarrow> world" where
  "w_set st w = w\<lparr>w_service := fst st, w_log := snd st\<rparr>"

definition w_state :: "world \<Rightarrow> service_state" where
  "w_state w = (w_service w, w_log w)"

text \<open>The environment of a step sees the objects and addresses of the world.\<close>

definition env_of :: "(conn \<Rightarrow> nat) \<Rightarrow> world \<Rightarrow> env \<Rightarrow> bool" where
  "env_of addr w e \<longleftrightarrow> e_alive e = w_alive w \<and> e_addr e = addr \<and> e_in_base e \<and> e_in_io e"

inductive world_step :: "(conn \<Rightarrow> nat) \<Rightarrow> world \<Rightarrow> world \<Rightarrow> bool" for addr :: "conn \<Rightarrow> nat" where
  ws_accept: "\<not> w_used w c \<Longrightarrow> \<forall>d. w_alive w d \<longrightarrow> addr d \<noteq> addr c \<Longrightarrow> world_step addr w (w_accept c w)"
| ws_receive: "w_open w c \<Longrightarrow> env_of addr w e \<Longrightarrow> w_receive e c d w = Some w' \<Longrightarrow> world_step addr w w'"
| ws_close: "w_open w c \<Longrightarrow> world_step addr w (w_close c w)"
| ws_task: "w_queue w = x # q \<Longrightarrow> env_of addr w e \<Longrightarrow>
    world_step addr w (w_set (run_task e x (w_state w)) (w\<lparr>w_queue := q\<rparr>))"
| ws_tick: "env_of addr w e \<Longrightarrow> world_step addr w (w_set (handle_tick e n (w_state w)) w)"
| ws_timeouts: "env_of addr w e \<Longrightarrow> world_step addr w (w_set (handle_session_timeouts e now (w_state w)) w)"
| ws_add_room: "env_of addr w e \<Longrightarrow> world_step addr w (w\<lparr>w_service := snd (rs_add_room e k cap (w_service w))\<rparr>)"
| ws_destroy: "w_alive w c \<Longrightarrow> \<not> w_open w c \<Longrightarrow> c \<notin> task_conn ` set (w_queue w) \<Longrightarrow>
    world_step addr w (w\<lparr>w_alive := (w_alive w)(c := False)\<rparr>)"
| ws_checkpoint: "env_of addr w e \<Longrightarrow> rs_make_checkpoint e g (w_service w) = Some cp \<Longrightarrow>
    world_step addr w (w\<lparr>w_saved := Some cp\<rparr>)"
| ws_restart: "w_saved w = Some cp \<Longrightarrow> e_in_base e \<Longrightarrow>
    rs_restore_checkpoint e cp now (RoomService_new ms) = (True, s) \<Longrightarrow> world_step addr w (world_new s (w_saved w))"

inductive_cases world_stepE: "world_step addr w w'"

section \<open>The invariant of the world\<close>

fun queue_ok :: "(conn \<Rightarrow> bool) \<Rightarrow> task list \<Rightarrow> bool" where
  "queue_ok opn [] = True"
| "queue_ok opn (FrameTask c t p # q) = ((opn c \<or> ClosedTask c \<in> set q) \<and> queue_ok opn q)"
| "queue_ok opn (ClosedTask c # q) = (\<not> opn c \<and> (\<forall>x\<in>set q. task_conn x \<noteq> c) \<and> queue_ok opn q)"

lemma queue_ok_frames:
  "queue_ok opn q \<Longrightarrow> opn c \<Longrightarrow> \<forall>x\<in>set ts. \<exists>t p. x = FrameTask c t p \<Longrightarrow> queue_ok opn (q @ ts)"
proof (induction opn q rule: queue_ok.induct)
  case (1 opn)
  then show ?case
  proof (induction ts)
    case (Cons x ts)
    then show ?case by (cases x) auto
  qed simp
qed auto

lemma queue_ok_close: "queue_ok opn q \<Longrightarrow> opn c \<Longrightarrow> queue_ok (opn(c := False)) (q @ [ClosedTask c])"
  by (induction opn q rule: queue_ok.induct) auto

lemma queue_ok_accept:
  "queue_ok opn q \<Longrightarrow> c \<notin> task_conn ` set q \<Longrightarrow> queue_ok (opn(c := True)) q"
  by (induction opn q rule: queue_ok.induct) auto

lemma queue_ok_tail: "queue_ok opn (x # q) \<Longrightarrow> queue_ok opn q"
  by (cases x) auto

definition unclosed :: "world \<Rightarrow> conn \<Rightarrow> bool" where
  "unclosed w c \<longleftrightarrow> w_open w c \<or> ClosedTask c \<in> set (w_queue w)"

definition saved_ok :: "ServerCheckpoint \<Rightarrow> bool" where
  "saved_ok cp \<longleftrightarrow> (\<exists>opn addr s e g. service_inv opn addr s \<and> e_in_base e \<and> rs_make_checkpoint e g s = Some cp)"

lemma saved_restores:
  assumes "saved_ok cp" and "e_in_base e"
  shows "fst (rs_restore_checkpoint e cp now s0)" and "service_inv opn addr (snd (rs_restore_checkpoint e cp now s0))"
proof -
  obtain opn0 addr0 s e0 g where s: "service_inv opn0 addr0 s" "e_in_base e0" "rs_make_checkpoint e0 g s = Some cp"
    using assms(1) by (auto simp: saved_ok_def)
  have g: "g \<noteq> 0" using s(3) by (auto simp: rs_make_checkpoint_def)
  show "fst (rs_restore_checkpoint e cp now s0)" "service_inv opn addr (snd (rs_restore_checkpoint e cp now s0))"
    using service_restart(1,2) [OF s(1,2) g s(3) assms(2)] by simp_all
qed

definition world_inv :: "(conn \<Rightarrow> nat) \<Rightarrow> world \<Rightarrow> bool" where
  "world_inv addr w \<longleftrightarrow> (\<forall>cp. w_saved w = Some cp \<longrightarrow> saved_ok cp) \<and> service_inv (unclosed w) addr (w_service w) \<and>
     queue_ok (w_open w) (w_queue w) \<and> inj_on addr {c. w_alive w c} \<and>
     (\<forall>c. w_open w c \<longrightarrow> w_alive w c) \<and> (\<forall>x\<in>set (w_queue w). w_alive w (task_conn x)) \<and>
     (\<forall>c. w_alive w c \<longrightarrow> w_used w c) \<and> (\<forall>c. buffer_wf (w_buffer w c))"

lemma world_invD:
  assumes "world_inv addr w"
  shows "service_inv (unclosed w) addr (w_service w)" and "queue_ok (w_open w) (w_queue w)"
    and "inj_on addr {c. w_alive w c}" and "w_open w c \<Longrightarrow> w_alive w c"
    and "x \<in> set (w_queue w) \<Longrightarrow> w_alive w (task_conn x)" and "w_alive w c \<Longrightarrow> w_used w c"
    and "buffer_wf (w_buffer w c)" and "w_saved w = Some cp \<Longrightarrow> saved_ok cp"
  using assms unfolding world_inv_def by blast+

lemma unclosed_alive: "world_inv addr w \<Longrightarrow> unclosed w c \<Longrightarrow> w_alive w c"
  using world_invD(4,5) [of addr w] by (fastforce simp: unclosed_def)

lemma env_of_ok: "world_inv addr w \<Longrightarrow> env_of addr w e \<Longrightarrow> env_ok (unclosed w) e"
  using world_invD(3) [of addr w] unclosed_alive [of addr w]
  by (auto simp: env_of_def env_ok_def inj_on_def)

lemma sm_inv_change:
  assumes "sm_inv opn addr sm" and "\<And>t i d. sm_view sm t = Some (i, Some d) \<Longrightarrow> opn' d"
  shows "sm_inv opn' addr sm"
  using assms unfolding sm_inv_def by blast

lemma service_inv_change:
  assumes "service_inv opn addr s" and "\<And>t i d. sm_view (rs_sessions s) t = Some (i, Some d) \<Longrightarrow> opn' d"
  shows "service_inv opn' addr s"
  using assms sm_inv_change [of opn addr "rs_sessions s" opn'] unfolding service_inv_def by blast

lemma service_inv_grow:
  "service_inv opn addr s \<Longrightarrow> (\<And>c. opn c \<Longrightarrow> opn' c) \<Longrightarrow> service_inv opn' addr s"
  using service_inv_change sm_inv_open [OF service_invD(2)] by blast

lemma world_new_inv:
  "service_inv (\<lambda>_. False) addr s \<Longrightarrow> (\<And>cp. saved = Some cp \<Longrightarrow> saved_ok cp) \<Longrightarrow> world_inv addr (world_new s saved)"
  by (simp add: world_inv_def world_new_def unclosed_def [abs_def])

text \<open>Decoding posts only frames of the connection that was read.\<close>

lemma run_frames_inv:
  assumes "P s" and "\<And>t p s. P s \<Longrightarrow> P (snd (cb t p s))"
  shows "P (snd (snd (run_frames cb bs s)))"
  using assms(1)
proof (induction bs arbitrary: s rule: length_induct)
  case (1 bs)
  show ?case
  proof (cases "next_frame bs")
    case (Frame t p r)
    have IH: "P s' \<Longrightarrow> P (snd (snd (run_frames cb r s')))" for s'
      using "1.IH" next_frame_shorter [OF Frame] by blast
    obtain ok s' where cb: "cb t p s = (ok, s')" by fastforce
    then have "P s'" using assms(2) [OF "1.prems", of t p] by simp
    then show ?thesis using IH [of s'] Frame cb
      by (cases ok) (simp_all add: run_frames.simps [of cb bs s])
  qed (use "1.prems" in \<open>simp_all add: run_frames.simps [of cb bs s]\<close>)
qed

definition only_frames :: "conn \<Rightarrow> io_state \<Rightarrow> bool" where
  "only_frames c io \<longleftrightarrow> (\<forall>x\<in>set (io_posted io). \<exists>t p. x = FrameTask c t p)"

lemma decoded_only_frames: "only_frames c io \<Longrightarrow> only_frames c (snd (handle_decoded_frame e (Some c) t p io))"
  by (auto simp: only_frames_def handle_decoded_frame_def handle_heartbeat_def Let_def split: option.split prod.split)

lemma receive_result:
  assumes "buffer_wf b" and "e_in_io e"
  shows "\<exists>ok b' io'. handle_message e (Some c) b \<lparr>io_posted = [], io_effects = log\<rparr> = Some (ok, b', io') \<and>
    buffer_wf b' \<and> only_frames c io'"
proof -
  let ?io = "\<lparr>io_posted = [], io_effects = log\<rparr>"
  obtain ok b' io' where d: "decode_loop (handle_decoded_frame e (Some c)) b ?io = Some (ok, b', io')" "buffer_wf b'"
      "run_frames (handle_decoded_frame e (Some c)) (content b) ?io = (ok, content b', io')"
    using decode_loop_refines [OF assms(1), of "handle_decoded_frame e (Some c)" ?io] by blast
  have "only_frames c (snd (snd (run_frames (handle_decoded_frame e (Some c)) (content b) ?io)))"
    by (rule run_frames_inv [where P = "only_frames c"]) (simp_all add: only_frames_def [of c ?io] decoded_only_frames)
  with d assms(2) show ?thesis by (simp add: handle_message_def Codec_decode_def)
qed

section \<open>Every step keeps the invariant\<close>

lemma accept_inv:
  assumes "world_inv addr w" and "\<not> w_used w c" and "\<forall>d. w_alive w d \<longrightarrow> addr d \<noteq> addr c"
  shows "world_inv addr (w_accept c w)"
proof -
  note d = world_invD [OF assms(1)]
  have c: "c \<notin> task_conn ` set (w_queue w)" using d(5,6) assms(2) by blast
  have "inj_on addr {d. d \<noteq> c \<longrightarrow> w_alive w d}"
    using d(3) assms(3) by (auto simp: inj_on_def)
  moreover have "service_inv (unclosed (w_accept c w)) addr (w_service w)"
    by (rule service_inv_grow [OF d(1)]) (auto simp: unclosed_def w_accept_def)
  ultimately show ?thesis
    using d(2,4-8) queue_ok_accept [OF d(2) c]
    by (auto simp: world_inv_def w_accept_def fun_upd_def)
qed

lemma close_inv:
  assumes "world_inv addr w" and "w_open w c"
  shows "world_inv addr (w_close c w)"
proof -
  note d = world_invD [OF assms(1)]
  have "service_inv (unclosed (w_close c w)) addr (w_service w)"
    by (rule service_inv_grow [OF d(1)]) (auto simp: unclosed_def w_close_def)
  then show ?thesis
    using d(2-8) queue_ok_close [OF d(2) assms(2)] assms(2)
    by (auto simp: world_inv_def w_close_def)
qed

lemma receive_inv:
  assumes "world_inv addr w" and "w_open w c" and "e_in_io e" and "w_receive e c data w = Some w'"
  shows "world_inv addr w'"
proof -
  note d = world_invD [OF assms(1)]
  obtain ok b' io' where r: "handle_message e (Some c) (buffer_append data (w_buffer w c))
      \<lparr>io_posted = [], io_effects = w_log w\<rparr> = Some (ok, b', io')" "buffer_wf b'" "only_frames c io'"
    using receive_result [OF append_wf [OF d(7)] assms(3)] by blast
  let ?w = "w\<lparr>w_buffer := (w_buffer w)(c := b'), w_queue := w_queue w @ io_posted io', w_log := io_effects io'\<rparr>"
  have w': "w' = (if ok then ?w else w_close c ?w)"
    using assms(4) r(1) by (simp add: w_receive_def Let_def)
  have q: "queue_ok (w_open w) (w_queue w @ io_posted io')"
    using r(3) by (intro queue_ok_frames [OF d(2) assms(2)]) (simp add: only_frames_def)
  have cl: "task_conn x = c" "ClosedTask y \<noteq> x" if "x \<in> set (io_posted io')" for x y
    using r(3) that by (auto simp: only_frames_def)
  have "service_inv (unclosed ?w) addr (w_service w)"
    by (rule service_inv_grow [OF d(1)]) (auto simp: unclosed_def)
  then have "world_inv addr ?w"
    using d(3-8) q r(2) cl assms(2) by (auto simp: world_inv_def)
  then show ?thesis using close_inv [of addr ?w c] assms(2) by (simp add: w')
qed

lemma task_inv:
  assumes "world_inv addr w" and q: "w_queue w = x # q" and e: "env_of addr w e"
  shows "world_inv addr (w_set (run_task e x (w_state w)) (w\<lparr>w_queue := q\<rparr>))"
proof -
  note d = world_invD [OF assms(1)]
  note eok = env_of_ok [OF assms(1) e]
  have ea: "e_addr e = addr" "e_in_base e" using e by (simp_all add: env_of_def)
  let ?s = "fst (run_task e x (w_state w))"
  have uq: "unclosed (w_set st (w\<lparr>w_queue := q\<rparr>)) c \<longleftrightarrow> w_open w c \<or> ClosedTask c \<in> set q" for st c
    by (simp add: unclosed_def w_set_def)
  have "service_inv (\<lambda>c. w_open w c \<or> ClosedTask c \<in> set q) addr ?s"
  proof (cases x)
    case (FrameTask c t p)
    then have "unclosed w c" using d(2) q by (simp add: unclosed_def)
    then have "service_inv (unclosed w) addr ?s"
      using handle_frame_inv [of "unclosed w" e "w_service w" c t p "w_log w"] d(1) eok ea FrameTask
      by (simp add: run_task_def w_state_def)
    moreover have "unclosed w = (\<lambda>c. w_open w c \<or> ClosedTask c \<in> set q)"
      using FrameTask q by (auto simp: unclosed_def)
    ultimately show ?thesis by simp
  next
    case (ClosedTask c)
    have u: "unclosed w c" using ClosedTask q by (simp add: unclosed_def)
    note hc = handle_closed_cases [of "unclosed w" e "w_service w" c, unfolded ea(1), OF d(1) u eok ea(2)]
    have s: "?s = handle_closed_in_loop e (Some c) (w_service w)"
      using ClosedTask by (simp add: run_task_def w_state_def)
    show ?thesis
    proof (rule service_inv_change [OF conjunct1 [OF hc, folded s]])
      fix t i b assume v: "sm_view (rs_sessions ?s) t = Some (i, Some b)"
      then have "unclosed w b"
        using sm_inv_open [OF service_invD(2) [OF conjunct1 [OF hc, folded s]]] by blast
      moreover have "b \<noteq> c" using v conjunct2 [OF hc] unfolding s by blast
      ultimately show "w_open w b \<or> ClosedTask b \<in> set q" using q ClosedTask by (auto simp: unclosed_def)
    qed
  qed
  then have "service_inv (unclosed (w_set (run_task e x (w_state w)) (w\<lparr>w_queue := q\<rparr>))) addr ?s"
    by (simp add: uq [abs_def])
  then show ?thesis
    using d(2-8) q queue_ok_tail [of "w_open w" x q] by (auto simp: world_inv_def w_set_def)
qed

lemma w_set_inv:
  assumes "world_inv addr w" and "service_inv (unclosed w) addr (fst st)"
  shows "world_inv addr (w_set st w)"
  using assms by (simp add: world_inv_def w_set_def unclosed_def [abs_def])

lemma destroy_inv:
  assumes "world_inv addr w" and "\<not> w_open w c" and "c \<notin> task_conn ` set (w_queue w)"
  shows "world_inv addr (w\<lparr>w_alive := (w_alive w)(c := False)\<rparr>)"
proof -
  note d = world_invD [OF assms(1)]
  have "unclosed (w\<lparr>w_alive := (w_alive w)(c := False)\<rparr>) = unclosed w"
    by (simp add: unclosed_def [abs_def])
  moreover have "inj_on addr {d. d \<noteq> c \<and> (d \<noteq> c \<longrightarrow> w_alive w d)}"
    by (rule inj_on_subset [OF d(3)]) auto
  ultimately show ?thesis
    using d assms(2,3) by (auto simp: world_inv_def)
qed

lemma world_step_inv:
  assumes "world_inv addr w" and "world_step addr w w'"
  shows "world_inv addr w'"
  using assms(2)
proof (cases rule: world_step.cases)
  case (ws_accept c)
  then show ?thesis using accept_inv [OF assms(1)] by simp
next
  case (ws_receive c e data)
  then show ?thesis using receive_inv [OF assms(1), of c e data] by (simp add: env_of_def)
next
  case (ws_close c)
  then show ?thesis using close_inv [OF assms(1)] by simp
next
  case (ws_task x q e)
  then show ?thesis using task_inv [OF assms(1)] by simp
next
  case (ws_tick e n)
  then show ?thesis using w_set_inv [OF assms(1)] handle_tick_inv [OF world_invD(1) [OF assms(1)], of e n "w_log w"]
    by (simp add: w_state_def)
next
  case (ws_timeouts e now)
  then show ?thesis using w_set_inv [OF assms(1)] handle_timeouts_inv [OF world_invD(1) [OF assms(1)], of e now "w_log w"]
    by (simp add: w_state_def)
next
  case (ws_add_room e k cap)
  then show ?thesis
    using rs_add_room_inv [OF world_invD(1) [OF assms(1)], of e k cap] assms(1)
    by (simp add: world_inv_def unclosed_def [abs_def])
next
  case (ws_destroy c)
  then show ?thesis using destroy_inv [OF assms(1)] by simp
next
  case (ws_checkpoint e g cp)
  then have "saved_ok cp"
    unfolding saved_ok_def env_of_def using world_invD(1) [OF assms(1)] by blast
  then show ?thesis using assms(1) ws_checkpoint by (simp add: world_inv_def unclosed_def [abs_def])
next
  case (ws_restart cp e now ms s)
  have ok: "saved_ok cp" using world_invD(8) [OF assms(1)] ws_restart by blast
  have "service_inv (\<lambda>_. False) addr s"
    using saved_restores(2) [OF ok, of e "\<lambda>_. False" addr now "RoomService_new ms"] ws_restart by simp
  then show ?thesis using world_new_inv [of addr s "Some cp"] ok ws_restart by simp
qed

abbreviation "server_started \<equiv> \<lambda>w. \<exists>ms. w = world_new (RoomService_new ms) None"

interpretation world: invariant_system server_started "world_step addr" "world_inv addr" for addr
  by unfold_locales (auto intro: world_new_inv service_new_inv world_step_inv)

section \<open>Properties\<close>

text \<open>C1: in every reachable state of the server, under any interleaving of reads, closes,
  tasks, ticks, timeouts, checkpoints and restarts: a room has a member (k, p) exactly when
  exactly one session stands for (k, p); a session that is online is bound to a connection
  object that still exists, under that object's address, and its member has that connection;
  the member of an offline session has none; and no connection is bound to two sessions.\<close>

theorem members_and_sessions_agree:
  assumes "reach server_started (world_step addr) w"
  defines "sm \<equiv> rs_sessions (w_service w)" and "rm \<equiv> rs_rooms (w_service w)"
  shows "((\<exists>r. um_find k rm = Some r \<and> room_contains p r) \<longleftrightarrow>
      (\<exists>!t. \<exists>s. um_find t (sm_sessions sm) = Some s \<and> s_room_id s = k \<and> s_player_id s = p)) \<and>
    (um_find t (sm_sessions sm) = Some s \<longrightarrow>
      (\<exists>r m. um_find (s_room_id s) rm = Some r \<and> um_find (s_player_id s) (r_members r) = Some m \<and>
        (s_state s = online \<longrightarrow> (\<exists>c. s_connection s = Some c \<and> m_connection m = Some c \<and> w_alive w c \<and>
           um_find (addr c) (sm_bindings sm) = Some t)) \<and>
        (s_state s = offline \<longrightarrow> m_connection m = None))) \<and>
    (um_find t (sm_sessions sm) = Some s \<and> um_find t' (sm_sessions sm) = Some s' \<and>
      s_state s = online \<and> s_state s' = online \<and> s_connection s = s_connection s' \<longrightarrow> t = t')"
proof -
  have wi: "world_inv addr w" using assms(1) by (rule world.reach_inv)
  note inv = service_invD [OF world_invD(1) [OF wi], folded sm_def rm_def]
  have on: "\<exists>c. s_connection x = Some c \<and> sm_view sm u = Some ((s_room_id x, s_player_id x), Some c)"
    if "um_find u (sm_sessions sm) = Some x" "s_state x = online" for u x
    using that sm_inv_online [OF inv(2) that] by (auto simp: view_Some)
  have ro: "roster rm (j, q) \<noteq> None \<longleftrightarrow> (\<exists>r. um_find j rm = Some r \<and> room_contains q r)" for j q
    by (auto simp: roster_def room_contains_roster split: option.splits)
  have "(\<exists>r. um_find k rm = Some r \<and> room_contains p r) \<longleftrightarrow>
      (\<exists>!t. \<exists>s. um_find t (sm_sessions sm) = Some s \<and> s_room_id s = k \<and> s_player_id s = p)"
  proof
    assume "\<exists>r. um_find k rm = Some r \<and> room_contains p r"
    then obtain t0 c0 where t0: "sm_view sm t0 = Some ((k, p), c0)"
      using linked_dom [OF inv(3), of "(k, p)"] ro by blast
    show "\<exists>!t. \<exists>s. um_find t (sm_sessions sm) = Some s \<and> s_room_id s = k \<and> s_player_id s = p"
    proof (rule ex1I [of _ t0])
      show "\<exists>s. um_find t0 (sm_sessions sm) = Some s \<and> s_room_id s = k \<and> s_player_id s = p"
        using t0 by (auto simp: view_Some)
      fix u assume "\<exists>s. um_find u (sm_sessions sm) = Some s \<and> s_room_id s = k \<and> s_player_id s = p"
      then have "\<exists>c. sm_view sm u = Some ((k, p), c)" by (auto simp: view_Some)
      then show "u = t0" using sm_inv_inj [OF inv(2)] t0 by blast
    qed
  next
    assume "\<exists>!t. \<exists>s. um_find t (sm_sessions sm) = Some s \<and> s_room_id s = k \<and> s_player_id s = p"
    then have "\<exists>t c. sm_view sm t = Some ((k, p), c)" by (auto simp: view_Some)
    then show "\<exists>r. um_find k rm = Some r \<and> room_contains p r"
      using linked_dom [OF inv(3), of "(k, p)"] ro by blast
  qed
  moreover have "\<exists>r m. um_find (s_room_id s) rm = Some r \<and> um_find (s_player_id s) (r_members r) = Some m \<and>
        (s_state s = online \<longrightarrow> (\<exists>c. s_connection s = Some c \<and> m_connection m = Some c \<and> w_alive w c \<and>
           um_find (addr c) (sm_bindings sm) = Some t)) \<and>
        (s_state s = offline \<longrightarrow> m_connection m = None)" if s: "um_find t (sm_sessions sm) = Some s"
  proof -
    have v: "sm_view sm t = Some ((s_room_id s, s_player_id s), if s_state s = online then s_connection s else None)"
      using s by (simp add: view_Some)
    have "roster rm (s_room_id s, s_player_id s) = Some (if s_state s = online then s_connection s else None)"
      using linked_Some [OF inv(3) v] .
    then obtain r m where rm: "um_find (s_room_id s) rm = Some r" "um_find (s_player_id s) (r_members r) = Some m"
        "m_connection m = (if s_state s = online then s_connection s else None)"
      by (auto simp: roster_def room_roster_def split: option.splits)
    have "\<exists>c. s_connection s = Some c \<and> m_connection m = Some c \<and> w_alive w c \<and>
           um_find (addr c) (sm_bindings sm) = Some t" if o: "s_state s = online"
    proof -
      obtain c where c: "s_connection s = Some c" "sm_view sm t = Some ((s_room_id s, s_player_id s), Some c)"
        using on [OF s o] by blast
      show ?thesis using c(1) rm(3) o sm_inv_binding [OF inv(2) c(2)]
          unclosed_alive [OF wi sm_inv_open [OF inv(2) c(2)]] by simp
    qed
    then show ?thesis using rm by (cases "s_state s") auto
  qed
  moreover have "t = t'" if two: "um_find t (sm_sessions sm) = Some s" "um_find t' (sm_sessions sm) = Some s'"
      "s_state s = online" "s_state s' = online" "s_connection s = s_connection s'"
  proof -
    obtain c c' where "s_connection s = Some c" "sm_view sm t = Some ((s_room_id s, s_player_id s), Some c)"
        "s_connection s' = Some c'" "sm_view sm t' = Some ((s_room_id s', s_player_id s'), Some c')"
      using on [OF two(1,3)] on [OF two(2,4)] by blast
    then show ?thesis using two(5) sm_inv_binding [OF inv(2)] by (metis option.inject)
  qed
  ultimately show ?thesis by blast
qed

text \<open>C2: a reachable server can always be checkpointed, and any later process can be started
  from that checkpoint: \<open>make_checkpoint\<close> succeeds on the base thread for every nonzero
  generation, \<open>restore_checkpoint\<close> into any service then succeeds, and the restored service
  has the same checkpoint, every session with its token, all of them offline.\<close>

theorem server_survives_restart:
  assumes "reach server_started (world_step addr) w" and "e_in_base e" and "e_in_base e'" and "g \<noteq> 0"
  shows "\<exists>cp s'. rs_make_checkpoint e g (w_service w) = Some cp \<and> rs_restore_checkpoint e' cp now s0 = (True, s') \<and>
    rs_make_checkpoint e g s' = Some cp \<and> sm_bindings (rs_sessions s') = [] \<and>
    (\<forall>t s. um_find t (sm_sessions (rs_sessions (w_service w))) = Some s \<longrightarrow>
      (\<exists>s1. um_find t (sm_sessions (rs_sessions s')) = Some s1 \<and> s_room_id s1 = s_room_id s \<and>
        s_player_id s1 = s_player_id s \<and> s_state s1 = offline))"
proof -
  have "world_inv addr w" using assms(1) by (rule world.reach_inv)
  note inv = world_invD(1) [OF this]
  obtain cp where cp: "rs_make_checkpoint e g (w_service w) = Some cp"
    using make_service_checkpoint [OF inv assms(2,4)] by blast
  let ?s = "snd (rs_restore_checkpoint e' cp now s0)"
  note r = service_restart [OF inv assms(2,4) cp assms(3)]
  have ok: "rs_restore_checkpoint e' cp now s0 = (True, ?s)"
    using r(1) [of now s0] by (metis prod.collapse)
  have parts: "sm_bindings (rs_sessions ?s) = [] \<and> (\<forall>t s. um_find t (sm_sessions (rs_sessions ?s)) = Some s \<longrightarrow> s_state s = offline)"
    using ok
    by (auto simp: rs_restore_checkpoint_def sm_restore_iff Let_def offline_pair_def Session_offline_def
        dest!: um_find_in_set split: if_splits prod.splits)
  have "\<exists>s1. um_find t (sm_sessions (rs_sessions ?s)) = Some s1 \<and> s_room_id s1 = s_room_id s \<and> s_player_id s1 = s_player_id s"
    if "um_find t (sm_sessions (rs_sessions (w_service w))) = Some s" for t s
    using r(4) [of now s0 t] that by (auto simp: sm_view_def session_entry_def)
  then show ?thesis using cp ok r(3) [of now s0] parts by blast
qed

text \<open>The witnesses run on a server where a room was added and a connection accepted.\<close>

definition quiet :: "(conn \<Rightarrow> nat) \<Rightarrow> world \<Rightarrow> env" where
  "quiet addr w = \<lparr>e_alive = w_alive w, e_addr = addr, e_send_ok = (\<lambda>_ _ _. True), e_backpressure = (\<lambda>_ _. False),
     e_now = 0, e_random = [Random [1, 2, 3, 4, 5, 6, 7, 8, 9, 10, 11, 12, 13, 14, 15, 16]],
     e_in_base = True, e_in_io = True\<rparr>"

lemma quiet_env: "env_of addr w (quiet addr w)" "e_in_base (quiet addr w)"
  by (simp_all add: env_of_def quiet_def)

definition lobby :: world where
  "lobby = (let w = w_accept 4 (world_new (RoomService_new 30000) None)
     in w\<lparr>w_service := snd (rs_add_room (quiet id w) 1 2 (w_service w))\<rparr>)"

lemma lobby_reachable: "reach server_started (world_step id) lobby"
proof -
  have "reach server_started (world_step id) (world_new (RoomService_new 30000) None)"
    by (rule reach_init) blast
  then have "reach server_started (world_step id) (w_accept 4 (world_new (RoomService_new 30000) None))"
    by (rule reach_step) (rule ws_accept; simp add: world_new_def)
  then show ?thesis unfolding lobby_def Let_def by (rule reach_step) (rule ws_add_room [OF quiet_env(1)])
qed

theorem members_and_sessions_agree_witness:
  "(\<exists>r. um_find 1 (rs_rooms (w_service lobby)) = Some r \<and> room_contains 1 r) \<longleftrightarrow>
   (\<exists>!t. \<exists>s. um_find t (sm_sessions (rs_sessions (w_service lobby))) = Some s \<and> s_room_id s = 1 \<and> s_player_id s = 1)"
  by (rule members_and_sessions_agree [OF lobby_reachable, THEN conjunct1])

theorem server_survives_restart_witness:
  "\<exists>cp s'. rs_make_checkpoint (quiet id lobby) 5 (w_service lobby) = Some cp \<and>
     rs_restore_checkpoint (quiet id lobby) cp 0 (RoomService_new 1) = (True, s')"
  using server_survives_restart [OF lobby_reachable quiet_env(2) [of id lobby] quiet_env(2) [of id lobby], of 5 0 "RoomService_new 1"]
  by auto

end
