(* ===== verification/Service_Behaviour.thy ===== *)
theory Service_Behaviour
  imports Server_World "HOL-Library.Code_Target_Nat"
begin

text \<open>
  What the handlers of the room service do, branch by branch, in every reachable state of the
  server: joining is a transaction, a disconnected player keeps its seat until its deadline and
  can take it again with its token, expired sessions and only they are removed, chat reaches
  the live members of the room.
\<close>

section \<open>Joining\<close>

text \<open>The roster and the sessions are as before.\<close>

definition same_people :: "RoomService \<Rightarrow> RoomService \<Rightarrow> bool" where
  "same_people s s' \<longleftrightarrow> roster (rs_rooms s') = roster (rs_rooms s) \<and> sm_view (rs_sessions s') = sm_view (rs_sessions s)"

lemma same_people_refl [simp]: "same_people s s"
  by (simp add: same_people_def)

lemma undo_join_same:
  assumes "service_inv opn addr s'" and "inj_on addr {c. opn c}" and "addr = e_addr e"
    and v: "sm_view (rs_sessions s') t = Some ((k, p), Some c)"
    and "roster (rs_rooms s') = (roster (rs_rooms s))((k, p) \<mapsto> Some c)" and "roster (rs_rooms s) (k, p) = None"
    and "sm_view (rs_sessions s') = (sm_view (rs_sessions s))(t \<mapsto> ((k, p), Some c))" and "sm_view (rs_sessions s) t = None"
  shows "same_people s (undo_join e (Some c) k p s')"
proof -
  note inv = service_invD [OF assms(1)]
  have ok: "nr_state (fst (rm_leave (e_alive e) k p (rs_rooms s'))) = rm_success"
    using leave_bound(1) [OF assms(1,2) v, of "e_alive e"] .
  have ro: "roster (rs_rooms s') (k, p) = Some (Some c)" using linked_Some [OF inv(3) v] .
  have "roster (snd (rm_leave (e_alive e) k p (rs_rooms s'))) = (roster (rs_rooms s'))((k, p) := None)"
    using rm_leave_cases [OF inv(1), of k p "e_alive e"] ro by auto
  moreover have "sm_view (snd (sm_erase_by_connection addr (Some c) (rs_sessions s'))) = (sm_view (rs_sessions s'))(t := None)"
    using erase_bound [OF inv(2) assms(2) v] by simp
  ultimately show ?thesis
    using assms(3,5-8) by (simp add: undo_join_eq [OF ok] same_people_def fun_upd_idem)
qed

text \<open>What one frame to one connection does: it is sent, or, when the connection takes no more,
  the connection is asked to close.\<close>

definition sent_one :: "env \<Rightarrow> conn \<Rightarrow> bytes \<Rightarrow> effect list \<Rightarrow> effect list" where
  "sent_one e c frame out =
     out @ (if e_send_ok e out c frame then [Sent c frame True] else [Sent c frame False, CloseRequested c])"

lemma send_frame_sent: "snd (send_frame e (Some c) type payload out) =
   (case Codec_encode (message_code type) payload of None \<Rightarrow> out | Some frame \<Rightarrow> sent_one e c frame out)"
  by (simp add: send_frame_def sent_one_def split: option.split)

lemma broadcast_loop_sent: "snd (broadcast_loop e False frame cs ans out) = fold (\<lambda>c. sent_one e c frame) cs out"
  by (induction e "False" frame cs ans out rule: broadcast_loop.induct) (simp_all add: sent_one_def)

definition error_frame :: "MessageType \<Rightarrow> ErrorCode \<Rightarrow> bytes option" where
  "error_frame request_type ec = Option.bind (encode_error request_type ec) (Codec_encode (message_code mt_error))"

text \<open>The members of a room as \<open>join\<close> lists them, in the order of the room's table.\<close>

definition member_list :: "Room \<Rightarrow> MemberInfo list" where
  "member_list r = map (\<lambda>(k, m). \<lparr>mi_player_id = m_player_id m, mi_player_name = m_player_name m\<rparr>) (r_members r)"

text \<open>When a join can succeed.\<close>

definition join_possible :: "env \<Rightarrow> conn \<Rightarrow> bytes \<Rightarrow> RoomService \<Rightarrow> bool" where
  "join_possible e c payload s \<longleftrightarrow>
     (\<exists>q r. decode_join_request payload = Some q \<and> name_ok (jq_player_name q) \<and>
        sr_state (sm_lookup (e_addr e) (Some c) (rs_sessions s)) = sm_not_bound \<and>
        um_find (jq_room_id q) (rs_rooms s) = Some r \<and> room_state r = waiting \<and>
        member_count r < unat (r_capacity r) \<and> r_next_player_id r \<noteq> 0 \<and> member_count r \<le> 65535 \<and>
        (Suc (member_count r) < unat (r_capacity r) \<or> Suc (member_count r) \<le> 101) \<and>
        generate_token (e_random e) \<noteq> [] \<and> sm_view (rs_sessions s) (generate_token (e_random e)) = None)"

text \<open>A join with full effect, and one without any.\<close>

definition join_done :: "env \<Rightarrow> conn \<Rightarrow> bytes \<Rightarrow> service_state \<Rightarrow> service_state \<Rightarrow> bool" where
  "join_done e c payload st st' \<longleftrightarrow>
     (\<exists>q r p t r' ok_payload event_payload event.
        decode_join_request payload = Some q \<and> um_find (jq_room_id q) (rs_rooms (fst st)) = Some r \<and>
        p = r_next_player_id r \<and> t = generate_token (e_random e) \<and> token_ok t \<and>
        roster (rs_rooms (fst st)) (jq_room_id q, p) = None \<and> sm_view (rs_sessions (fst st)) t = None \<and>
        roster (rs_rooms (fst st')) = (roster (rs_rooms (fst st)))((jq_room_id q, p) \<mapsto> Some c) \<and>
        sm_view (rs_sessions (fst st')) = (sm_view (rs_sessions (fst st)))(t \<mapsto> ((jq_room_id q, p), Some c)) \<and>
        (\<forall>k. k \<noteq> jq_room_id q \<longrightarrow> um_find k (rs_rooms (fst st')) = um_find k (rs_rooms (fst st))) \<and>
        um_find (jq_room_id q) (rs_rooms (fst st')) = Some r' \<and>
        r_members r' = r_members r @ [(p, \<lparr>m_player_id = p, m_player_name = jq_player_name q, m_connection = Some c\<rparr>)] \<and>
        r_next_player_id r' = p + 1 \<and>
        room_state r' = (if member_count r' < unat (r_capacity r') then waiting else running) \<and>
        encode_join_ok (jq_room_id q) p t (member_list r) = Some ok_payload \<and>
        (member_count r \<le> 1500 \<longrightarrow> Codec_encode (message_code mt_join_ok) ok_payload \<noteq> None) \<and>
        encode_player_joined (jq_room_id q) p (jq_player_name q) = Some event_payload \<and>
        Codec_encode (message_code mt_player_joined) event_payload = Some event \<and>
        snd st' = fold (\<lambda>c'. sent_one e c' event) (room_connections (e_alive e) 0 r)
          (case Codec_encode (message_code mt_join_ok) ok_payload of None \<Rightarrow> snd st | Some frame \<Rightarrow> sent_one e c frame (snd st)))"

definition join_refused :: "env \<Rightarrow> conn \<Rightarrow> service_state \<Rightarrow> service_state \<Rightarrow> bool" where
  "join_refused e c st st' \<longleftrightarrow> same_people (fst st) (fst st') \<and>
     (snd st' = snd st \<or> (\<exists>ec frame. error_frame mt_join ec = Some frame \<and> snd st' = sent_one e c frame (snd st)))"

lemma join_error_sent:
  "\<exists>frame. error_frame mt_join ec = Some frame \<and> snd (send_error e (Some c) mt_join ec out) = sent_one e c frame out"
  by (simp add: error_frame_def send_error_def encode_error_def send_frame_sent Codec_encode_def frame_sizes
      append_u16_def Let_def)

lemma refused_error: "same_people s s' \<Longrightarrow> join_refused e c (s, out) (s', snd (send_error e (Some c) mt_join ec out))"
  using join_error_sent [of ec e c out] by (auto simp: join_refused_def)

lemma refused_reply: "same_people s s' \<Longrightarrow> join_refused e c (s, out) (s', reply_error e (Some c) mt_join code out)"
  by (auto simp: reply_error_def refused_error split: option.split) (simp add: join_refused_def)

lemma refused_silently: "same_people s s' \<Longrightarrow> join_refused e c (s, out) (s', out)"
  by (simp add: join_refused_def)

text \<open>What room, session table and room table do.\<close>

definition joined_room :: "conn \<Rightarrow> bytes \<Rightarrow> Room \<Rightarrow> Room" where
  "joined_room c n r = r\<lparr>r_members := r_members r @
       [(r_next_player_id r, \<lparr>m_player_id = r_next_player_id r, m_player_name = n, m_connection = Some c\<rparr>)],
     r_next_player_id := r_next_player_id r + 1\<rparr>"

lemma joined_room_fields:
  "member_count (joined_room c n r) = Suc (member_count r)"
  "r_capacity (joined_room c n r) = r_capacity r"
  "r_next_player_id (joined_room c n r) = r_next_player_id r + 1"
  "room_state (joined_room c n r) = room_state r"
  by (simp_all add: joined_room_def member_count_def room_state_def)

lemma members_not_zero:
  assumes "members_inv r" and "(k, m) \<in> set (r_members r)"
  shows "k \<noteq> 0" and "name_ok (m_player_name m)"
  using assms um_entries_find [of "r_members r" k m] by (auto simp: members_inv_def member_ok_def)

lemma rm_join_eq:
  assumes "rooms_inv m" and "um_find k m = Some r" and "name_ok n" and "room_state r = waiting"
    and "member_count r < unat (r_capacity r)" and "r_next_player_id r \<noteq> 0"
  shows "rm_join alive (Some c) k n m =
    (\<lparr>jr_state = rm_success, jr_room_id = k, jr_player_id = r_next_player_id r, jr_members = member_list r,
      jr_notify = room_connections alive 0 r\<rparr>, um_assign k (joined_room c n r) m)"
proof -
  have mi: "members_inv r" using rooms_find [OF assms(2,1)] by (simp add: room_inv_def)
  have fresh: "um_find (r_next_player_id r) (r_members r) = None" using next_id_fresh [OF mi assms(6)] .
  then have em: "um_emplace (r_next_player_id r) x (r_members r) = r_members r @ [(r_next_player_id r, x)]" for x
    by (simp add: um_emplace_def)
  have ne: "i \<noteq> r_next_player_id r \<and> i \<noteq> 0" if "(i, x) \<in> set (r_members r)" for i x
    using that members_not_zero [OF mi that] fresh by (auto simp: um_find_None_iff image_iff)
  have "room_connections alive (r_next_player_id r) (joined_room c n r) = room_connections alive 0 r"
    using ne by (auto simp: room_connections_def joined_room_def intro!: arg_cong [where f = concat] map_cong)
  moreover have "room_join (Some c) n r = (\<lparr>rj_state = js_success, rj_player_id = r_next_player_id r,
      rj_members = member_list r\<rparr>, joined_room c n r)"
    using assms(3-6) by (simp add: room_join_def name_ok_def can_join_def room_state_def member_count_def em
        joined_room_def member_list_def Let_def not_le)
  ultimately show ?thesis using assms(2) by (simp add: rm_join_def Let_def)
qed

lemma room_start_full:
  assumes "room_inv r" and "room_state r = waiting"
  shows "\<exists>g. room_start True r =
    (if 1 \<le> member_count r \<and> member_count r \<le> 101
     then (tr_success, r\<lparr>r_machine := \<lparr>rsm_state = running\<rparr>, r_game := g, r_tick_id := 0, r_pending := []\<rparr>)
     else (tr_condition_not_met, r))"
proof -
  let ?ids = "map (\<lambda>(k, m). m_player_id m) (r_members r)"
  have mi: "members_inv r" using assms(1) by (simp add: room_inv_def)
  have ids: "?ids = map fst (r_members r)" using keyed_players [OF mi] .
  have "0 \<notin> set (map fst (r_members r))" using members_not_zero(1) [OF mi] by fastforce
  then have "check_player_ids ?ids [] = None"
    unfolding check_player_ids_None ids using distinct_keys [OF mi] by simp
  moreover have "length ?ids = member_count r" by (simp add: member_count_def)
  ultimately have "initialize ?ids Gamestate_new =
      (if member_count r = 0 then (gs_empty_players, Gamestate_new)
       else if member_count r > 101 then (gs_too_many_players, Gamestate_new)
       else (gs_success, place_players (sort ?ids) 0 []))"
    by (cases "r_members r") (simp_all add: initialize_cases member_count_def)
  then show ?thesis
    using assms(2) by (cases "r_machine r") (auto simp: room_start_def room_state_def rsm_start_def Let_def)
qed

lemma start_joined:
  assumes "room_inv r" and "room_state r = waiting" and "um_find k m = Some r"
    and "1 \<le> member_count r" and "member_count r \<le> unat (r_capacity r)"
  shows "fst (start_if_full k m) = rm_success \<longleftrightarrow> member_count r < unat (r_capacity r) \<or> member_count r \<le> 101"
    and "fst (start_if_full k m) = rm_success \<Longrightarrow> \<exists>r'. um_find k (snd (start_if_full k m)) = Some r' \<and>
      r_members r' = r_members r \<and> r_next_player_id r' = r_next_player_id r \<and>
      room_state r' = (if member_count r' < unat (r_capacity r') then waiting else running)"
    and "j \<noteq> k \<Longrightarrow> um_find j (snd (start_if_full k m)) = um_find j m"
proof -
  obtain g where g: "room_start True r =
    (if 1 \<le> member_count r \<and> member_count r \<le> 101
     then (tr_success, r\<lparr>r_machine := \<lparr>rsm_state = running\<rparr>, r_game := g, r_tick_id := 0, r_pending := []\<rparr>)
     else (tr_condition_not_met, r))" using room_start_full [OF assms(1,2)] by blast
  let ?r = "r\<lparr>r_machine := \<lparr>rsm_state = running\<rparr>, r_game := g, r_tick_id := 0, r_pending := []\<rparr>"
  have eq: "start_if_full k m = (if member_count r < unat (r_capacity r) then (rm_success, m)
      else if member_count r \<le> 101 then (rm_success, um_assign k ?r m) else (rm_internal_error, um_assign k r m))"
    using assms(3-5) g by (simp add: start_if_full_def)
  show "fst (start_if_full k m) = rm_success \<longleftrightarrow> member_count r < unat (r_capacity r) \<or> member_count r \<le> 101"
    "fst (start_if_full k m) = rm_success \<Longrightarrow> \<exists>r'. um_find k (snd (start_if_full k m)) = Some r' \<and>
      r_members r' = r_members r \<and> r_next_player_id r' = r_next_player_id r \<and>
      room_state r' = (if member_count r' < unat (r_capacity r') then waiting else running)"
    "j \<noteq> k \<Longrightarrow> um_find j (snd (start_if_full k m)) = um_find j m"
    using assms(2,3) by (auto simp: eq room_state_def member_count_def split: if_splits)
qed

text \<open>Payloads of rooms of up to 1500 members fit into a frame.\<close>

lemma length_concat_le: "\<forall>x\<in>set xs. length (f x) \<le> n \<Longrightarrow> length (concat (map f xs)) \<le> n * length xs"
  by (induction xs) auto

lemma members_length:
  assumes "\<forall>m\<in>set ms. name_ok (mi_player_name m)"
  shows "length (enc_counted16 enc_member (map member_tuple ms)) \<le> 2 + 42 * length ms"
  using length_concat_le [of ms "\<lambda>m. enc_member (member_tuple m)" 42] assms
  by (force simp: enc_counted16_def comp_def enc_member_def member_tuple_def enc_str16_def name_ok_def
      protocol_sizes)

lemma states_length: "length (enc_counted16 enc_state (map state_tuple ss)) \<le> 2 + 20 * length ss"
  using length_concat_le [of ss "\<lambda>s. enc_state (state_tuple s)" 20]
  by (simp add: enc_counted16_def comp_def enc_state_def state_tuple_def)

lemma fits_frame: "length payload \<le> 65534 \<Longrightarrow> \<exists>frame. Codec_encode type payload = Some frame"
  by (simp add: Codec_encode_def frame_sizes Let_def)

lemma member_names:
  assumes "room_inv r"
  shows "\<forall>x\<in>set (member_list r). name_ok (mi_player_name x)" and "\<forall>x\<in>set (member_snapshot r). name_ok (mi_player_name x)"
  using assms members_not_zero(2) [of r]
  by (auto simp: member_list_def member_snapshot_def room_inv_def)

lemma join_ok_payload:
  assumes "room_inv r" and "token_ok t"
  shows "(\<exists>p. encode_join_ok k pid t (member_list r) = Some p) \<longleftrightarrow> member_count r \<le> 65535"
    and "encode_join_ok k pid t (member_list r) = Some p \<Longrightarrow> member_count r \<le> 1500 \<Longrightarrow>
      Codec_encode (message_code mt_join_ok) p \<noteq> None"
proof -
  have len: "length (member_list r) = member_count r" by (simp add: member_list_def member_count_def)
  show "(\<exists>p. encode_join_ok k pid t (member_list r) = Some p) \<longleftrightarrow> member_count r \<le> 65535"
    using assms(2) member_names(1) [OF assms(1)]
    by (auto simp: encode_join_ok_def protocol_sizes token_ok_def Let_def len)
  assume p: "encode_join_ok k pid t (member_list r) = Some p" and few: "member_count r \<le> 1500"
  have "length p \<le> 65534"
    using members_length [OF member_names(1) [OF assms(1)]] assms(2) few
    by (simp add: encode_join_ok_bytes(1) [OF p] enc_str16_def token_ok_def len)
  then show "Codec_encode (message_code mt_join_ok) p \<noteq> None" using fits_frame by fastforce
qed

lemma player_joined_frame:
  assumes "name_ok n"
  shows "\<exists>p f. encode_player_joined k pid n = Some p \<and> Codec_encode (message_code mt_player_joined) p = Some f"
proof -
  obtain p where p: "encode_player_joined k pid n = Some p" using assms by (simp add: encode_player_joined_def)
  then have "length p \<le> 65534"
    using assms by (auto simp: encode_player_joined_def append_u16_def append_u64_def append_u32_def name_ok_def protocol_sizes split: if_splits)
  then show ?thesis using p fits_frame by blast
qed

lemma joined_room_inv:
  assumes "rooms_inv m" and "um_find k m = Some r" and "name_ok n" and "room_state r = waiting"
    and "member_count r < unat (r_capacity r)" and "r_next_player_id r \<noteq> 0"
  shows "room_inv (joined_room c n r)"
proof -
  have inv: "rooms_inv (um_assign k (joined_room c n r) m)"
    using rm_inv(1) [OF assms(1), of "\<lambda>_. True" "Some c" k n] rm_join_eq [OF assms, of "\<lambda>_. True" c] by simp
  have "um_find k (um_assign k (joined_room c n r) m) = Some (joined_room c n r)" by simp
  from rooms_find [OF this inv] show ?thesis by (elim conjE)
qed

lemma sm_create_fresh:
  assumes "um_find (addr c) (sm_bindings sm) = None" and "generate_token rs \<noteq> []" and "sm_view sm (generate_token rs) = None"
  shows "\<exists>sm'. sm_create addr rs (Some c) k p sm =
      (\<lparr>sr_state = sm_success, sr_token = generate_token rs, sr_room_id = k, sr_player_id = p\<rparr>, sm') \<and>
    sm_view sm' = (sm_view sm)(generate_token rs \<mapsto> ((k, p), Some c))"
  using assms by (auto simp: sm_create_def Let_def sm_view_def session_entry_def Session_new_def split: option.splits)

lemma not_bound_find: "sr_state (sm_lookup addr (Some c) sm) = sm_not_bound \<longleftrightarrow> um_find (addr c) (sm_bindings sm) = None"
  by (simp add: sm_lookup_def sm_result_def split: option.split)

lemma handle_join_done:
  assumes "service_inv opn (e_addr e) s" and "join_possible e c payload s"
  shows "join_done e c payload (s, out) (handle_join e (Some c) payload (s, out))"
proof -
  note inv = service_invD [OF assms(1)]
  obtain q r where d: "decode_join_request payload = Some q" and n: "name_ok (jq_player_name q)"
    and un: "sr_state (sm_lookup (e_addr e) (Some c) (rs_sessions s)) = sm_not_bound"
    and r: "um_find (jq_room_id q) (rs_rooms s) = Some r" "room_state r = waiting"
      "member_count r < unat (r_capacity r)" "r_next_player_id r \<noteq> 0" "member_count r \<le> 65535"
    and few: "Suc (member_count r) < unat (r_capacity r) \<or> Suc (member_count r) \<le> 101"
    and t: "generate_token (e_random e) \<noteq> []" "sm_view (rs_sessions s) (generate_token (e_random e)) = None"
    using assms(2) unfolding join_possible_def by (elim exE conjE) rule
  define k p tok where "k = jq_room_id q" and "p = r_next_player_id r" and "tok = generate_token (e_random e)"
  note kpt = k_def [symmetric] p_def [symmetric] tok_def [symmetric]
  define j where "j = joined_room c (jq_player_name q) r"
  define m where "m = um_assign k j (rs_rooms s)"
  have rinv: "room_inv r" using rooms_find [OF r(1) inv(1)] by simp
  have jinv: "room_inv j" unfolding j_def using joined_room_inv [OF inv(1) r(1) n r(2-4)] .
  have jn: "rm_join (e_alive e) (Some c) k (jq_player_name q) (rs_rooms s) =
    (\<lparr>jr_state = rm_success, jr_room_id = k, jr_player_id = p, jr_members = member_list r,
      jr_notify = room_connections (e_alive e) 0 r\<rparr>, m)"
    using rm_join_eq [OF inv(1) r(1) n r(2-4), of "e_alive e" c] by (simp add: kpt m_def j_def)
  obtain sm where sm: "sm_create (e_addr e) (e_random e) (Some c) k p (rs_sessions s) =
      (\<lparr>sr_state = sm_success, sr_token = tok, sr_room_id = k, sr_player_id = p\<rparr>, sm)"
      "sm_view sm = (sm_view (rs_sessions s))(tok \<mapsto> ((k, p), Some c))"
    using sm_create_fresh [of "e_addr e" c "rs_sessions s" "e_random e" k p] un [unfolded not_bound_find] t by (auto simp: kpt)
  have tok: "token_ok tok" using t(1) generate_token_ok by (auto simp: tok_def)
  obtain p1 where p1: "encode_join_ok k p tok (member_list r) = Some p1"
    using join_ok_payload(1) [OF rinv tok, of k p] r(5) by blast
  obtain p2 f where p2: "encode_player_joined k p (jq_player_name q) = Some p2"
      "Codec_encode (message_code mt_player_joined) p2 = Some f"
    using player_joined_frame [OF n, of k p] by blast
  obtain st m' where sf: "start_if_full k m = (st, m')" by fastforce
  have fm: "um_find k m = Some j" by (simp add: m_def)
  have jf: "room_state j = waiting" "1 \<le> member_count j" "member_count j \<le> unat (r_capacity j)"
      "member_count j < unat (r_capacity j) \<or> member_count j \<le> 101"
    using r(2,3) few by (simp_all add: j_def joined_room_fields)
  note sj = start_joined [OF jinv jf(1) fm jf(2,3)]
  have st: "st = rm_success" using sj(1) jf(4) sf by simp
  obtain r' where r': "um_find k m' = Some r'" "r_members r' = r_members j" "r_next_player_id r' = r_next_player_id j"
      "room_state r' = (if member_count r' < unat (r_capacity r') then waiting else running)"
    using sj(2) sf st by auto
  have others: "um_find i m' = um_find i (rs_rooms s)" if "i \<noteq> k" for i
    using sj(3) [OF that] sf that by (simp add: m_def)
  have p_new: "roster (rs_rooms s) (k, p) = None" "roster m' = (roster (rs_rooms s))((k, p) \<mapsto> Some c)"
    using rm_join_success [OF inv(1), of "e_alive e" "Some c" k "jq_player_name q"] jn
      roster_start_if_full [of k m] sf by auto
  have eq: "handle_join e (Some c) payload (s, out) = (s\<lparr>rs_rooms := m', rs_sessions := sm\<rparr>,
      fold (\<lambda>c'. sent_one e c' f) (room_connections (e_alive e) 0 r)
        (case Codec_encode (message_code mt_join_ok) p1 of None \<Rightarrow> out | Some frame \<Rightarrow> sent_one e c frame out))"
    using d un jn sm(1) p1 p2 sf st
    by (simp add: handle_join_def Let_def kpt send_frame_sent broadcast_frame_def broadcast_loop_sent)
  have mem: "r_members r' = r_members r @ [(p, \<lparr>m_player_id = p, m_player_name = jq_player_name q, m_connection = Some c\<rparr>)]"
      "r_next_player_id r' = p + 1"
    using r'(2,3) by (simp_all add: j_def joined_room_def p_def)
  show ?thesis
    unfolding join_done_def eq fst_conv snd_conv
    by (rule exI [of _ q], rule exI [of _ r], rule exI [of _ p], rule exI [of _ tok], rule exI [of _ r'],
        rule exI [of _ p1], rule exI [of _ p2], rule exI [of _ f])
      (use d r(1) tok t p_new sm(2) others r'(1,4) mem p1 p2 join_ok_payload(2) [OF rinv tok p1] in
        \<open>simp add: k_def p_def tok_def\<close>)
qed

lemma handle_join_refused:
  assumes "service_inv opn (e_addr e) s" and "opn c" and "env_ok opn e" and "\<not> join_possible e c payload s"
  shows "join_refused e c (s, out) (handle_join e (Some c) payload (s, out))"
proof (cases "decode_join_request payload")
  case None
  then show ?thesis by (simp add: handle_join_def refused_error)
next
  case (Some q)
  have inj: "inj_on (e_addr e) {c. opn c}" using assms(3) by (simp add: env_ok_def)
  note inv = service_invD [OF assms(1)]
  let ?l = "sm_lookup (e_addr e) (Some c) (rs_sessions s)"
  let ?k = "jq_room_id q" and ?n = "jq_player_name q"
  show ?thesis
  proof (cases "sr_state ?l = sm_not_bound")
    case False
    then show ?thesis using Some by (simp add: handle_join_def Let_def refused_error refused_silently)
  next
    case unbound: True
    obtain res m where j: "rm_join (e_alive e) (Some c) ?k ?n (rs_rooms s) = (res, m)"
      by fastforce
    show ?thesis
    proof (cases "jr_state res = rm_success")
      case False
      then have "roster m = roster (rs_rooms s)"
        using rm_join_failed [of "e_alive e" "Some c" ?k ?n "rs_rooms s"] j by simp
      then have "same_people s (s\<lparr>rs_rooms := m\<rparr>)" by (simp add: same_people_def)
      from refused_reply [OF this] show ?thesis using Some unbound j False by (simp add: handle_join_def Let_def)
    next
      case joined: True
      obtain r where r: "um_find ?k (rs_rooms s) = Some r" "name_ok ?n" "room_state r = waiting"
          "member_count r < unat (r_capacity r)" "r_next_player_id r \<noteq> 0"
          "jr_room_id res = ?k" "jr_player_id res = r_next_player_id r"
          "roster (rs_rooms s) (?k, r_next_player_id r) = None"
          "roster m = (roster (rs_rooms s))((?k, r_next_player_id r) \<mapsto> Some c)"
        using rm_join_success [OF inv(1), of "e_alive e" "Some c" ?k ?n] j joined by (auto simp: member_count_def)
      obtain sres sm where cr: "sm_create (e_addr e) (e_random e) (Some c) ?k (r_next_player_id r)
          (rs_sessions s) = (sres, sm)" by fastforce
      note cc = create_cases [OF inv(2) assms(2) inj, of "e_random e" ?k "r_next_player_id r"]
      show ?thesis
      proof (cases "sr_state sres = sm_success")
        case False
        then have "sm = rs_sessions s" using cc cr by auto
        moreover have "roster (snd (rm_leave (e_alive e) ?k (r_next_player_id r) m)) = roster (rs_rooms s)"
          using rm_leave_cases [of m ?k "r_next_player_id r" "e_alive e"] r(8,9)
            rm_inv(1) [OF inv(1), of "e_alive e" "Some c" ?k ?n] j by (auto simp: fun_upd_idem)
        ultimately show ?thesis
          using Some unbound j joined cr False r(6,7)
          by (simp add: handle_join_def Let_def same_people_def join_refused_def)
      next
        case created: True
        define tok where "tok = generate_token (e_random e)"
        have new: "um_find (e_addr e c) (sm_bindings (rs_sessions s)) = None" using unbound by (simp add: not_bound_find)
        have tn: "tok \<noteq> []" "sm_view (rs_sessions s) tok = None" and st: "sr_token sres = tok"
          using cr created new by (auto simp: sm_create_def Let_def tok_def sm_view_def sm_result_def split: if_splits)
        note ji = joined_inv [OF assms(1,2) inj j joined, unfolded r(6,7), OF cr created, unfolded st]
        have v: "sm_view sm = (sm_view (rs_sessions s))(tok \<mapsto> ((?k, r_next_player_id r), Some c))"
          using cc cr created st by auto
        obtain st m' where sf: "start_if_full ?k m = (st, m')" by fastforce
        have ro': "roster m' = roster m" using roster_start_if_full [of ?k m] sf by simp
        have started: "service_inv opn (e_addr e) (s\<lparr>rs_rooms := m', rs_sessions := sm\<rparr>)"
          using start_keeps [OF ji(1), of ?k] sf by simp
        have undo: "same_people s (undo_join e (Some c) ?k (r_next_player_id r) (s\<lparr>rs_rooms := m, rs_sessions := sm\<rparr>))"
          by (rule undo_join_same [OF ji(1) inj refl, where t = tok]) (use v r ji(4) in simp_all)
        have undo': "same_people s (undo_join e (Some c) ?k (r_next_player_id r) (s\<lparr>rs_rooms := m', rs_sessions := sm\<rparr>))"
          by (rule undo_join_same [OF started inj refl, where t = tok]) (use v r ji(4) ro' in simp_all)
        have jn: "res = \<lparr>jr_state = rm_success, jr_room_id = ?k, jr_player_id = r_next_player_id r, jr_members = member_list r,
            jr_notify = room_connections (e_alive e) 0 r\<rparr>" "m = um_assign ?k (joined_room c ?n r) (rs_rooms s)"
          using rm_join_eq [OF inv(1) r(1-5), of "e_alive e" c] j by simp_all
        have fm: "um_find ?k m = Some (joined_room c ?n r)" by (simp add: jn(2))
        have rinv: "room_inv r" using rooms_find [OF r(1) inv(1)] by simp
        have "st = rm_success \<longleftrightarrow> Suc (member_count r) < unat (r_capacity r) \<or> Suc (member_count r) \<le> 101"
          using start_joined(1) [OF joined_room_inv [OF inv(1) r(1-5)] _ fm] sf r(3,4)
          by (simp add: joined_room_fields)
        then have fails: "encode_join_ok ?k (r_next_player_id r) tok (member_list r) = None \<or> st \<noteq> rm_success"
          using assms(4) Some r tn join_ok_payload(1) [OF rinv ji(3), of ?k "r_next_player_id r"] unbound
          unfolding join_possible_def tok_def [symmetric] by auto
        then show ?thesis
          using Some unbound j joined cr created refused_silently [OF undo] refused_reply [OF undo'] sf st
          by (auto simp: handle_join_def Let_def jn(1) split: option.split)
      qed
    qed
  qed
qed

section \<open>Coming back\<close>

lemma resume_payload_ok:
  assumes "room_inv r" and "member_count r \<le> 65535"
  shows "\<exists>p. encode_resume_ok k pid (room_state r) (r_tick_id r) (member_snapshot r) (game_snapshot r) = Some p"
proof -
  have mi: "members_inv r" and gi: "gs_inv (r_game r)" using assms(1) by (simp_all add: room_inv_defs)
  have names: "name_ok (mi_player_name x)" if "x \<in> set (member_snapshot r)" for x
    using member_names(2) [OF assms(1)] that by blast
  have ids: "pgs_player_id x \<noteq> 0" if "x \<in> set (game_snapshot r)" for x
  proof -
    have "um_find (pgs_player_id x) (r_game r) = Some x" using that in_snapshot [OF gi, of x] by (simp add: game_snapshot_def)
    from gs_inv_find [OF gi this] show ?thesis by (simp add: player_ok_def)
  qed
  have len: "length (member_snapshot r) \<le> 65535" "length (game_snapshot r) \<le> 65535"
    using assms(2) gi by (simp_all add: member_snapshot_def member_count_def game_snapshot_def length_snapshot gs_inv_def)
  show ?thesis using names ids len by (auto simp: encode_resume_ok_def protocol_sizes Let_def)
qed

lemma resume_fits:
  assumes "room_inv r" and "member_count r \<le> 1500"
    and "encode_resume_ok k pid (room_state r) (r_tick_id r) (member_snapshot r) (game_snapshot r) = Some p"
  shows "Codec_encode (message_code mt_resume_ok) p \<noteq> None"
proof -
  have "length (member_snapshot r) \<le> 1500" "length (game_snapshot r) \<le> 101"
    using assms(1,2) by (simp_all add: member_snapshot_def member_count_def game_snapshot_def length_snapshot room_inv_defs gs_inv_def)
  then have "length p \<le> 65534"
    using members_length [OF member_names(2) [OF assms(1)]] states_length [of "game_snapshot r"]
    by (simp add: encode_resume_ok_bytes(1) [OF assms(3)])
  then show ?thesis using fits_frame by fastforce
qed

lemma resume_accepts:
  assumes "service_inv opn (e_addr e) s" and "opn c" and "env_ok opn e"
    and ss: "um_find t (sm_sessions (rs_sessions s)) = Some ss" "s_state ss = offline" "e_now e < s_offline_deadline ss"
    and un: "\<forall>t i. sm_view (rs_sessions s) t \<noteq> Some (i, Some c)"
    and r: "um_find (s_room_id ss) (rs_rooms s) = Some r" "member_count r \<le> 65535"
  shows "\<exists>r' p. encode_resume_ok (s_room_id ss) (s_player_id ss) (room_state r') (r_tick_id r') (member_snapshot r') (game_snapshot r') = Some p \<and>
    um_find (s_room_id ss) (rs_rooms (fst (handle_resume e (Some c) (enc_str16 t) (s, out)))) = Some r' \<and>
    sm_view (rs_sessions (fst (handle_resume e (Some c) (enc_str16 t) (s, out)))) =
      (sm_view (rs_sessions s))(t \<mapsto> ((s_room_id ss, s_player_id ss), Some c)) \<and>
    roster (rs_rooms (fst (handle_resume e (Some c) (enc_str16 t) (s, out)))) =
      (roster (rs_rooms s))((s_room_id ss, s_player_id ss) \<mapsto> Some c) \<and>
    (member_count r \<le> 1500 \<longrightarrow> Codec_encode (message_code mt_resume_ok) p \<noteq> None) \<and>
    snd (handle_resume e (Some c) (enc_str16 t) (s, out)) =
      (case Codec_encode (message_code mt_resume_ok) p of None \<Rightarrow> out | Some frame \<Rightarrow> sent_one e c frame out)"
proof -
  note inv = service_invD [OF assms(1)]
  have inj: "inj_on (e_addr e) {c. opn c}" using assms(3) by (simp add: env_ok_def)
  let ?k = "s_room_id ss" and ?p = "s_player_id ss"
  have v: "sm_view (rs_sessions s) t = Some ((?k, ?p), None)" using ss by (simp add: view_Some)
  have tok: "token_ok t" using sm_inv_token [OF inv(2) v] .
  then have len: "length t = 32" by (simp add: token_ok_def)
  then have dec: "decode_resume_request (enc_str16 t) = Some t" unfolding decode_resume_request_iff by auto
  obtain res sm where rs: "sm_resume (e_addr e) (Some c) t (e_now e) (rs_sessions s) = (res, sm)" by fastforce
  have nb: "um_find (e_addr e c) (sm_bindings (rs_sessions s)) = None"
    using sm_unbound [OF inv(2) assms(2) inj] un by blast
  have suc: "sr_state res = sm_success" "sr_room_id res = ?k" "sr_player_id res = ?p"
      "sm_view sm = (sm_view (rs_sessions s))(t \<mapsto> ((?k, ?p), Some c))"
    using rs ss nb by (auto simp: sm_resume_def session_expired_def session_bind_def Let_def view_assign session_entry_def)
  have ro: "roster (rs_rooms s) (?k, ?p) = Some None" using linked_Some [OF inv(3) v] .
  then obtain m where m: "um_find ?p (r_members r) = Some m" "m_connection m = None"
    using r(1) by (auto simp: roster_find room_roster_def)
  let ?r = "r\<lparr>r_members := um_assign ?p (m\<lparr>m_connection := Some c\<rparr>) (r_members r)\<rparr>"
  have rb: "room_bind_connection (e_alive e) ?p (Some c) r = (rb_success, ?r)"
    using m by (simp add: room_bind_connection_def weak_lock_def)
  have b: "rm_bind_connection (e_alive e) ?k ?p (Some c) (rs_rooms s) =
      (\<lparr>br_state = mb_success, br_room_id = ?k, br_player_id = ?p, br_room_state = room_state ?r,
        br_tick_id = r_tick_id ?r, br_members = member_snapshot ?r, br_snapshot = game_snapshot ?r\<rparr>,
       um_assign ?k ?r (rs_rooms s))"
    using r(1) by (simp only: rm_bind_connection_def option.case option.simps if_False rb prod.case RmBindingResult.simps RoomBindingstates.case)
  have "room_inv r" using rooms_find [OF r(1) inv(1)] by simp
  then have ri: "room_inv ?r" using room_bind_inv [of r "e_alive e" ?p "Some c"] rb by simp
  have "um_wf (r_members r)" using \<open>room_inv r\<close> by (simp add: room_inv_defs)
  then have mc: "member_count ?r = member_count r"
    using um.size_assign [of "r_members r" ?p] m(1) by (simp add: member_count_def)
  then obtain p where p: "encode_resume_ok ?k ?p (room_state ?r) (r_tick_id ?r) (member_snapshot ?r) (game_snapshot ?r) = Some p"
    using resume_payload_ok [OF ri, of ?k ?p] r(2) by auto
  have ro': "roster (um_assign ?k ?r (rs_rooms s)) = (roster (rs_rooms s))((?k, ?p) \<mapsto> Some c)"
    by (rule roster_change [OF r(1)]) (auto simp: room_roster_def)
  have fit: "member_count r \<le> 1500 \<longrightarrow> Codec_encode (message_code mt_resume_ok) p \<noteq> None"
    using resume_fits [OF ri _ p] mc by auto
  have eq: "handle_resume e (Some c) (enc_str16 t) (s, out) =
      (s\<lparr>rs_rooms := um_assign ?k ?r (rs_rooms s), rs_sessions := sm\<rparr>,
       case Codec_encode (message_code mt_resume_ok) p of None \<Rightarrow> out | Some frame \<Rightarrow> sent_one e c frame out)"
    using dec rs suc b p by (simp add: handle_resume_def Let_def send_frame_sent)
  show ?thesis
    using p suc(4) ro' fit unfolding eq fst_conv snd_conv by (intro exI [of _ ?r] exI [of _ p]) simp
qed

section \<open>Properties\<close>

text \<open>C13: joining is a transaction. In every reachable state of the server, a join request of a
  connection that is not closed takes full effect exactly when it can: the name is valid, the
  connection has no session, the room waits and has a free seat and a player id, a room that
  fills up has at most 101 seats, its member list fits its 16-bit count, and the random token is
  new. Then exactly one member and one session with that token are added, both with this
  connection; the room starts exactly when it is full and no other room changes; the connection
  gets the join confirmation, which lists the members that were there before, and each live
  connection among those gets the player-joined event, in that order and nothing else. (A
  confirmation that does not fit into a frame is not sent; that takes more than 1500 members.)
  Otherwise the members and sessions of all rooms are exactly as they were, whichever step failed
  (rollback included), and at most one error reply is sent, to the connection that asked.\<close>

theorem join_is_a_transaction:
  assumes "reach server_started (world_step addr) w" and "unclosed w c" and "env_of addr w e"
  shows "if join_possible e c payload (w_service w)
    then join_done e c payload (w_state w) (handle_join e (Some c) payload (w_state w))
    else join_refused e c (w_state w) (handle_join e (Some c) payload (w_state w))"
proof -
  have wi: "world_inv addr w" using assms(1) by (rule world.reach_inv)
  have ea: "e_addr e = addr" using assms(3) by (simp add: env_of_def)
  note si = world_invD(1) [OF wi, folded ea]
  show ?thesis
    using handle_join_done [OF si, of c payload "w_log w"]
      handle_join_refused [OF si assms(2) env_of_ok [OF wi assms(3)], of payload "w_log w"]
    by (simp add: w_state_def)
qed

text \<open>C14: a dropped player can always come back in time. In every reachable state, if the session
  of a token is offline and its deadline has not passed, and its room has at most 65535 members
  (the member list of the confirmation has a 16-bit count), a resume request with that token from
  any open connection that has no session itself brings exactly this session online with that
  connection, for the same room and player, and binds exactly this member. The confirmation
  carries that identity and the room's phase, tick, members and player states; it is the one
  frame sent, to that connection, and it is always sent when the room has at most 1500 members.
  (For more members it may not fit into a frame, and then nothing is sent.)\<close>

theorem dropped_players_can_come_back:
  assumes "reach server_started (world_step addr) w" and "unclosed w c" and "env_of addr w e"
    and "um_find t (sm_sessions (rs_sessions (w_service w))) = Some ss" and "s_state ss = offline"
    and "e_now e < s_offline_deadline ss"
    and "sr_state (sm_lookup addr (Some c) (rs_sessions (w_service w))) = sm_not_bound"
    and "um_find (s_room_id ss) (rs_rooms (w_service w)) = Some r" and "member_count r \<le> 65535"
  defines "st \<equiv> handle_resume e (Some c) (enc_str16 t) (w_state w)"
  shows "\<exists>r' p. snd st = (case Codec_encode (message_code mt_resume_ok) p of None \<Rightarrow> w_log w
      | Some frame \<Rightarrow> sent_one e c frame (w_log w)) \<and>
    (member_count r \<le> 1500 \<longrightarrow> Codec_encode (message_code mt_resume_ok) p \<noteq> None) \<and>
    um_find (s_room_id ss) (rs_rooms (fst st)) = Some r' \<and>
    dec_resume_ok p = Some ((s_room_id ss, s_player_id ss, of_nat (room_state_value (room_state r')), r_tick_id r',
      map member_tuple (member_snapshot r'), map state_tuple (game_snapshot r')), []) \<and>
    sm_view (rs_sessions (fst st)) = (sm_view (rs_sessions (w_service w)))(t \<mapsto> ((s_room_id ss, s_player_id ss), Some c)) \<and>
    roster (rs_rooms (fst st)) = (roster (rs_rooms (w_service w)))((s_room_id ss, s_player_id ss) \<mapsto> Some c) \<and>
    sm_lookup addr (Some c) (rs_sessions (fst st)) =
      \<lparr>sr_state = sm_success, sr_token = t, sr_room_id = s_room_id ss, sr_player_id = s_player_id ss\<rparr>"
proof -
  have wi: "world_inv addr w" using assms(1) by (rule world.reach_inv)
  have ea: "e_addr e = addr" using assms(3) by (simp add: env_of_def)
  note si = world_invD(1) [OF wi] and eok = env_of_ok [OF wi assms(3)]
  have inj: "inj_on addr {c. unclosed w c}" using eok ea by (simp add: env_ok_def)
  have un: "\<forall>t i. sm_view (rs_sessions (w_service w)) t \<noteq> Some (i, Some c)"
    using bound_view [OF si assms(2) inj] assms(7) by auto
  obtain r' p where rp: "encode_resume_ok (s_room_id ss) (s_player_id ss) (room_state r') (r_tick_id r') (member_snapshot r') (game_snapshot r') = Some p"
      "um_find (s_room_id ss) (rs_rooms (fst st)) = Some r'"
      "sm_view (rs_sessions (fst st)) = (sm_view (rs_sessions (w_service w)))(t \<mapsto> ((s_room_id ss, s_player_id ss), Some c))"
      "roster (rs_rooms (fst st)) = (roster (rs_rooms (w_service w)))((s_room_id ss, s_player_id ss) \<mapsto> Some c)"
      "member_count r \<le> 1500 \<longrightarrow> Codec_encode (message_code mt_resume_ok) p \<noteq> None"
      "snd st = (case Codec_encode (message_code mt_resume_ok) p of None \<Rightarrow> w_log w | Some frame \<Rightarrow> sent_one e c frame (w_log w))"
    using resume_accepts [of "unclosed w" e "w_service w" c t ss r "w_log w", unfolded ea, OF si assms(2) eok assms(4-6) un assms(8,9)]
    unfolding st_def w_state_def by blast
  have "service_inv (unclosed w) addr (fst st)"
    using handle_resume_inv [of "unclosed w" e "w_service w" c "enc_str16 t" "w_log w", unfolded ea, OF si assms(2) eok]
    by (simp add: st_def w_state_def)
  then have "sm_lookup addr (Some c) (rs_sessions (fst st)) =
      \<lparr>sr_state = sm_success, sr_token = t, sr_room_id = s_room_id ss, sr_player_id = s_player_id ss\<rparr>"
    using rp(3) by (intro lookup_bound [OF service_invD(2)]) simp_all
  moreover note b = encode_resume_ok_bytes [OF rp(1)]
  have "dec_resume_ok p = Some ((s_room_id ss, s_player_id ss, of_nat (room_state_value (room_state r')), r_tick_id r',
      map member_tuple (member_snapshot r'), map state_tuple (game_snapshot r')), [])"
    using members_dec [OF b(2,3), of "enc_counted16 enc_state (map state_tuple (game_snapshot r'))"] states_dec [OF b(4), of "[]"]
    by (simp add: b(1) dec_resume_ok_def dec_pair_def w32.dec_enc w64.dec_enc w16.dec_enc)
  ultimately show ?thesis
    by (intro exI [of _ r'] exI [of _ p] conjI rp(2-6))
qed

text \<open>C15: losing a connection never loses the seat. When the close of a connection that has a
  session is handled, in any reachable state, the same token keeps standing for the same room
  and player, now offline until the time of the close plus the reconnect timeout; the member
  stays in its room, detached; every other session, and the game of every room, is untouched.\<close>

theorem closing_keeps_the_seat:
  assumes "reach server_started (world_step addr) w" and "unclosed w c" and "env_of addr w e"
    and "sm_lookup addr (Some c) (rs_sessions (w_service w)) = \<lparr>sr_state = sm_success, sr_token = t, sr_room_id = k, sr_player_id = p\<rparr>"
  defines "s' \<equiv> handle_closed_in_loop e (Some c) (w_service w)"
  shows "roster (rs_rooms s') = (roster (rs_rooms (w_service w)))((k, p) \<mapsto> None) \<and>
    (\<exists>x. um_find t (sm_sessions (rs_sessions s')) = Some x \<and> s_room_id x = k \<and> s_player_id x = p \<and>
       s_state x = offline \<and> s_offline_deadline x = e_now e + 1000000 * sm_reconnect_timeout (rs_sessions (w_service w))) \<and>
    (\<forall>u. u \<noteq> t \<longrightarrow> um_find u (sm_sessions (rs_sessions s')) = um_find u (sm_sessions (rs_sessions (w_service w)))) \<and>
    (\<forall>j. map_option r_game (um_find j (rs_rooms s')) = map_option r_game (um_find j (rs_rooms (w_service w))))"
proof -
  have wi: "world_inv addr w" using assms(1) by (rule world.reach_inv)
  have ea: "e_addr e = addr" "e_in_base e" using assms(3) by (simp_all add: env_of_def)
  let ?s = "w_service w"
  note inv = service_invD [OF world_invD(1) [OF wi]]
  have eok: "env_ok (unclosed w) e" using env_of_ok [OF wi assms(3)] .
  have inj: "inj_on addr {c. unclosed w c}" and al: "e_alive e c" using eok ea assms(2) by (simp_all add: env_ok_def)
  have v: "sm_view (rs_sessions ?s) t = Some ((k, p), Some c)"
    using bound_view [OF world_invD(1) [OF wi] assms(2) inj] assms(4) by (auto simp: sm_result_def)
  have ro: "roster (rs_rooms ?s) (k, p) = Some (Some c)" using linked_Some [OF inv(3) v] .
  obtain st m where d: "rm_detach_connection (e_alive e) k p (Some c) (rs_rooms ?s) = (st, m)" by fastforce
  have ds: "fst st = mb_success" "roster m = (roster (rs_rooms ?s))((k, p) := Some None)"
    using rm_detach_cases [of "Some c" "e_alive e" k p "rs_rooms ?s"] d ro al by (auto simp: weak_lock_def)
  obtain x where x: "um_find t (sm_sessions (rs_sessions ?s)) = Some x" using v by (auto simp: view_Some)
  have xid: "s_room_id x = k" "s_player_id x = p" using v x by (auto simp: view_Some)
  note dt = detach_session(1) [OF inv(2) inj _ v x, where alive = "e_alive e", OF al]
  have b: "um_find (addr c) (sm_bindings (rs_sessions ?s)) = Some t" using sm_inv_binding [OF inv(2) v] .
  let ?dl = "e_now e + 1000000 * sm_reconnect_timeout (rs_sessions ?s)"
  have s': "s' = ?s\<lparr>rs_rooms := m, rs_sessions := (rs_sessions ?s)\<lparr>
      sm_sessions := um_assign t (x\<lparr>s_connection := None, s_offline_deadline := ?dl, s_state := offline\<rparr>) (sm_sessions (rs_sessions ?s)),
      sm_bindings := um_erase (addr c) (sm_bindings (rs_sessions ?s))\<rparr>\<rparr>"
    using d ds(1) assms(4) ea x b dt by (simp add: s'_def handle_closed_in_loop_def sm_detach_def)
  have "map_option r_game (um_find j m) = map_option r_game (um_find j (rs_rooms ?s))" for j
    using d by (auto simp: rm_detach_connection_def room_detach_connection_def split: option.splits if_splits)
  then show ?thesis using ds(2) xid by (simp add: s')
qed

text \<open>C16: session timeouts remove exactly the sessions whose time has passed. After
  \<open>handle_session_timeouts\<close> at time \<open>now\<close>, in any reachable state, a token is gone exactly if
  its session was offline with a deadline not after \<open>now\<close>; all others, and all who are online,
  are as before; and the members that are left are exactly those with a session left.\<close>

theorem timeouts_remove_exactly_the_expired:
  fixes now :: time_point
  assumes "reach server_started (world_step addr) w" and "env_of addr w e"
  defines "s' \<equiv> fst (handle_session_timeouts e now (w_state w))"
  shows "sm_view (rs_sessions s') t =
      (case um_find t (sm_sessions (rs_sessions (w_service w))) of None \<Rightarrow> None
       | Some s \<Rightarrow> if s_state s = offline \<and> s_offline_deadline s \<le> now then None
                  else sm_view (rs_sessions (w_service w)) t) \<and>
    (roster (rs_rooms s') i = Some x \<longleftrightarrow> (\<exists>u. sm_view (rs_sessions s') u = Some (i, x)))"
proof -
  have "world_inv addr w" using assms(1) by (rule world.reach_inv)
  note si = world_invD(1) [OF this]
  let ?s = "w_service w"
  let ?items = "sm_expired_sessions now (rs_sessions ?s)"
  have b: "e_in_base e" using assms(2) by (simp add: env_of_def)
  note el = expire_loop_inv [OF si expired_due [OF si], where e = e and out = "w_log w"]
  have s': "s' = fst (expire_loop e now ?items (?s, w_log w))"
    using b by (simp add: s'_def handle_session_timeouts_def w_state_def)
  have wf: "um_wf (sm_sessions (rs_sessions ?s))" using sm_inv_wf [OF service_invD(2) [OF si]] by simp
  have gone: "t \<in> fst ` set ?items \<longleftrightarrow>
      (\<exists>s. um_find t (sm_sessions (rs_sessions ?s)) = Some s \<and> s_state s = offline \<and> s_offline_deadline s \<le> now)"
    by (simp add: sm_expired_sessions_def um_entries_find [OF wf, symmetric] session_expired_def image_iff)
  have "sm_view (rs_sessions s') t =
      (case um_find t (sm_sessions (rs_sessions ?s)) of None \<Rightarrow> None
       | Some s \<Rightarrow> if s_state s = offline \<and> s_offline_deadline s \<le> now then None else sm_view (rs_sessions ?s) t)"
    using el gone unfolding s' by (auto simp: sm_view_def split: option.splits)
  moreover have "service_inv (unclosed w) addr s'" using el s' by simp
  ultimately show ?thesis using linkedD [OF service_invD(3)] by blast
qed

text \<open>A chat message of 1 to 1024 bytes from a member reaches every live connection of its
  room as one broadcast, in every reachable state - the sender's own connection included -
  and changes no room and no session.\<close>

theorem chat_reaches_the_whole_room:
  assumes "reach server_started (world_step addr) w" and "unclosed w c" and "env_of addr w e"
    and "sm_lookup addr (Some c) (rs_sessions (w_service w)) = \<lparr>sr_state = sm_success, sr_token = t, sr_room_id = k, sr_player_id = p\<rparr>"
    and "msg \<noteq> []" and "length msg \<le> 1024"
  shows "\<exists>r event. um_find k (rs_rooms (w_service w)) = Some r \<and> encode_chat_event k p msg = Some event \<and>
    handle_chat e (Some c) (enc_str16 msg) (w_state w) =
      (w_service w, snd (broadcast_frame e (room_connections (w_alive w) 0 r) mt_chat_event event (w_log w))) \<and>
    c \<in> set (room_connections (w_alive w) 0 r)"
proof -
  have wi: "world_inv addr w" using assms(1) by (rule world.reach_inv)
  have ea: "e_addr e = addr" "e_alive e = w_alive w" using assms(3) by (simp_all add: env_of_def)
  note inv = service_invD [OF world_invD(1) [OF wi]]
  have inj: "inj_on addr {c. unclosed w c}" using env_of_ok [OF wi assms(3)] ea by (simp add: env_ok_def)
  have v: "sm_view (rs_sessions (w_service w)) t = Some ((k, p), Some c)"
    using bound_view [OF world_invD(1) [OF wi] assms(2) inj] assms(4) by (auto simp: sm_result_def)
  have "roster (rs_rooms (w_service w)) (k, p) = Some (Some c)" using linked_Some [OF inv(3) v] .
  then obtain r m where r: "um_find k (rs_rooms (w_service w)) = Some r" "um_find p (r_members r) = Some m" "m_connection m = Some c"
    by (auto simp: roster_def room_roster_def split: option.splits)
  have "room_inv r" using rooms_find [OF r(1) inv(1)] by simp
  then have p: "p \<noteq> 0" using r(2) by (auto simp: room_inv_defs member_ok_def)
  have "decode_chat_request (enc_str16 msg) = Some msg"
    unfolding decode_chat_request_iff using assms(6) by simp
  moreover obtain event where ev: "encode_chat_event k p msg = Some event"
    using assms(5,6) by (simp add: encode_chat_event_def protocol_sizes)
  moreover have "room_contains p r" using r(2) by (simp add: room_contains_def)
  ultimately have "handle_chat e (Some c) (enc_str16 msg) (w_state w) =
      (w_service w, snd (broadcast_frame e (room_connections (w_alive w) 0 r) mt_chat_event event (w_log w)))"
    using assms(4-6) r(1) by (simp add: handle_chat_def w_state_def lookup_identity_def ea rm_chat_def protocol_sizes)
  moreover have "c \<in> set (room_connections (w_alive w) 0 r)"
    using um_find_in_set [OF r(2)] p r(3) unclosed_alive [OF wi assms(2)]
    by (force simp: room_connections_def weak_lock_def)
  ultimately show ?thesis using r(1) ev by blast
qed

text \<open>C36: what restoring a checkpoint of the service does. It succeeds exactly on the base loop's
  thread, with a generation, with matching identities, with consistent rooms and with well-formed
  distinct sessions. A failure before the sessions changes nothing; but when only the sessions are
  refused, the call fails and the rooms have already been replaced by those of the checkpoint,
  while the sessions are kept. On success members and sessions correspond one to one again, all
  of them without a connection.\<close>

theorem restore_has_three_outcomes:
  fixes e :: env and cp :: ServerCheckpoint and s :: RoomService and now :: time_point
  defines "rooms_fit \<equiv> e_in_base e \<and> sv_generation cp \<noteq> 0 \<and> identities_match (sv_rooms cp) (sv_sessions cp) \<and> rooms_ok (sv_rooms cp)"
    and "res \<equiv> rs_restore_checkpoint e cp now s"
  shows "(fst res \<longleftrightarrow> rooms_fit \<and> sessions_ok (sv_sessions cp)) \<and>
    (\<not> rooms_fit \<longrightarrow> snd res = s) \<and>
    (rooms_fit \<longrightarrow> map fst (rs_rooms (snd res)) = map rc_room_id (sv_rooms cp) \<and>
       roster (rs_rooms (snd res)) = (\<lambda>i. if i \<in> room_identities (sv_rooms cp) then Some None else None)) \<and>
    (\<not> fst res \<longrightarrow> rs_sessions (snd res) = rs_sessions s) \<and>
    (fst res \<longrightarrow> (\<forall>i x. roster (rs_rooms (snd res)) i = Some x \<longleftrightarrow>
       x = None \<and> (\<exists>t. sm_view (rs_sessions (snd res)) t = Some (i, None))))"
proof (cases rooms_fit)
  case False
  then have "res = (False, s)"
    by (auto simp: rooms_fit_def res_def rs_restore_checkpoint_def rm_restore_iff Let_def)
  then show ?thesis using False by simp
next
  case True
  let ?m = "map restored_pair (sv_rooms cp)" and ?dl = "now + 1000000 * sm_reconnect_timeout (rs_sessions s)"
  have r: "e_in_base e" "sv_generation cp \<noteq> 0" "identities_match (sv_rooms cp) (sv_sessions cp)" "rooms_ok (sv_rooms cp)"
    using True by (simp_all add: rooms_fit_def)
  have ro: "roster ?m = (\<lambda>i. if i \<in> room_identities (sv_rooms cp) then Some None else None)"
    using roster_restored [OF r(4)] .
  have ids: "map fst ?m = map rc_room_id (sv_rooms cp)" by (simp add: restored_pair_def)
  show ?thesis
  proof (cases "sessions_ok (sv_sessions cp)")
    case False
    then have "res = (False, s\<lparr>rs_rooms := ?m\<rparr>)"
      using r by (simp add: res_def rs_restore_checkpoint_def rm_restore_iff sm_restore_iff Let_def)
    then show ?thesis using False True ro ids by simp
  next
    case ok: True
    let ?sm = "(rs_sessions s)\<lparr>sm_sessions := map (offline_pair ?dl) (sv_sessions cp), sm_bindings := []\<rparr>"
    have res: "res = (True, s\<lparr>rs_rooms := ?m, rs_sessions := ?sm\<rparr>)"
      using r ok by (simp add: res_def rs_restore_checkpoint_def rm_restore_iff sm_restore_iff Let_def)
    have "i \<in> room_identities (sv_rooms cp) \<longleftrightarrow> (\<exists>t. sm_view ?sm t = Some (i, None))" for i
      unfolding view_restored [OF ok] identities_match_iff [THEN iffD1, OF r(3)] session_identities_def by auto
    then show ?thesis unfolding res using ok True ro ids by auto
  qed
qed

section \<open>Witnesses\<close>

text \<open>One whole request frame arriving on an empty buffer posts one task.\<close>

lemma receive_frame:
  assumes "buffer_wf b" and "content b = []" and "Codec_encode t p = Some d" and "e_in_io e"
    and "t \<in> message_code ` {mt_join, mt_leave, mt_chat, mt_move, mt_attack, mt_resume}"
  shows "\<exists>b'. handle_message e (Some c) (buffer_append d b) \<lparr>io_posted = [], io_effects = log\<rparr> =
    Some (True, b', \<lparr>io_posted = [FrameTask c t p], io_effects = log @ [PeerActivity c]\<rparr>)"
proof -
  let ?cb = "handle_decoded_frame e (Some c)" and ?io = "\<lparr>io_posted = [], io_effects = log\<rparr>"
  have cb: "?cb t p ?io = (True, \<lparr>io_posted = [FrameTask c t p], io_effects = log @ [PeerActivity c]\<rparr>)"
    using assms(5) by (auto simp: handle_decoded_frame_def)
  have "next_frame (d @ []) = Frame t p []" using next_frame_encode [OF assms(3)] .
  then have "run_frames ?cb d ?io = (True, [], \<lparr>io_posted = [FrameTask c t p], io_effects = log @ [PeerActivity c]\<rparr>)"
    using cb by (simp add: run_frames.simps [of _ d] run_frames_incomplete next_frame_Nil)
  then show ?thesis
    using decode_loop_refines [OF append_wf [OF assms(1)], of ?cb d ?io] assms(2,4)
    by (auto simp: append_content [OF assms(1)] handle_message_def Codec_decode_def)
qed

text \<open>A client joins room 1 under the name 97 (the letter a), its connection closes, and another
  connection is accepted.\<close>

definition join_payload :: bytes where
  "join_payload = [0, 0, 0, 1, 0, 1, 97]"

definition asked :: world where
  "asked = the (w_receive (quiet id lobby) 4 (the (Codec_encode 1 join_payload)) lobby)"

definition seated :: world where
  "seated = w_set (run_task (quiet id asked) (FrameTask 4 1 join_payload) (w_state asked)) (asked\<lparr>w_queue := []\<rparr>)"

definition dropped :: world where
  "dropped = (let w = w_close 4 seated
     in w_set (run_task (quiet id w) (ClosedTask 4) (w_state w)) (w\<lparr>w_queue := []\<rparr>))"

definition returned :: world where
  "returned = w_accept 5 dropped"

lemma lobby_fields: "w_open lobby = (\<lambda>c. c = 4)" "w_alive lobby = (\<lambda>c. c = 4)" "w_used lobby = (\<lambda>c. c = 4)"
  "w_queue lobby = []" "w_log lobby = []" "w_buffer lobby 4 = Buffer_new 4096"
  by (simp_all add: lobby_def w_accept_def world_new_def Let_def fun_upd_def)

lemma asked_eq:
  "\<exists>b. w_receive (quiet id lobby) 4 (the (Codec_encode 1 join_payload)) lobby = Some asked \<and>
    asked = lobby\<lparr>w_buffer := (w_buffer lobby)(4 := b), w_queue := [FrameTask 4 1 join_payload], w_log := [PeerActivity 4]\<rparr>"
proof -
  obtain d where d: "Codec_encode 1 join_payload = Some d"
    by (simp add: Codec_encode_def frame_sizes join_payload_def Let_def)
  obtain b where "handle_message (quiet id lobby) (Some 4) (buffer_append d (w_buffer lobby 4))
      \<lparr>io_posted = [], io_effects = w_log lobby\<rparr> =
      Some (True, b, \<lparr>io_posted = [FrameTask 4 1 join_payload], io_effects = [PeerActivity 4]\<rparr>)"
    using receive_frame [of "w_buffer lobby 4" 1 join_payload d "quiet id lobby" 4 "[]"] d
    by (auto simp: lobby_fields quiet_def)
  then show ?thesis
    by (intro exI [of _ b]) (simp add: asked_def w_receive_def d Let_def lobby_fields)
qed

lemma asked_queue: "w_queue asked = [FrameTask 4 1 join_payload]"
proof -
  obtain b where b: "asked = lobby\<lparr>w_buffer := (w_buffer lobby)(4 := b),
      w_queue := [FrameTask 4 1 join_payload], w_log := [PeerActivity 4]\<rparr>" using asked_eq by blast
  show ?thesis by (subst b) simp
qed

lemma asked_reachable: "reach server_started (world_step id) asked"
proof -
  obtain b where "w_receive (quiet id lobby) 4 (the (Codec_encode 1 join_payload)) lobby = Some asked"
    using asked_eq by blast
  then have "world_step id lobby asked" by (rule ws_receive [OF _ quiet_env(1), rotated]) (simp add: lobby_fields)
  then show ?thesis by (rule reach_step [OF lobby_reachable])
qed

definition seat_env :: env where
  "seat_env = \<lparr>e_alive = (\<lambda>c. c = 4), e_addr = id, e_send_ok = (\<lambda>_ _ _. True), e_backpressure = (\<lambda>_ _. False),
     e_now = 0, e_random = [Random [1, 2, 3, 4, 5, 6, 7, 8, 9, 10, 11, 12, 13, 14, 15, 16]],
     e_in_base = True, e_in_io = True\<rparr>"

definition seat_state :: service_state where
  "seat_state = handle_frame_in_loop seat_env (Some 4) 1 join_payload
     (snd (rs_add_room seat_env 1 2 (RoomService_new 30000)), [PeerActivity 4])"

definition drop_service :: RoomService where
  "drop_service = handle_closed_in_loop seat_env (Some 4) (fst seat_state)"

lemma seated_eq: "w_service seated = fst seat_state" "w_alive seated = (\<lambda>c. c = 4)" "w_used seated = (\<lambda>c. c = 4)"
  "w_open seated = (\<lambda>c. c = 4)" "w_queue seated = []"
proof -
  obtain b where b: "asked = lobby\<lparr>w_buffer := (w_buffer lobby)(4 := b),
      w_queue := [FrameTask 4 1 join_payload], w_log := [PeerActivity 4]\<rparr>" using asked_eq by blast
  have "quiet id asked = seat_env" by (simp add: b quiet_def seat_env_def lobby_fields)
  moreover have "w_service asked = snd (rs_add_room seat_env 1 2 (RoomService_new 30000))"
    by (simp add: b) (simp add: lobby_def w_accept_def world_new_def Let_def rs_add_room_def quiet_def seat_env_def)
  ultimately show "w_service seated = fst seat_state"
    by (simp add: seated_def run_task_def w_set_def w_state_def seat_state_def b)
  show "w_alive seated = (\<lambda>c. c = 4)" "w_used seated = (\<lambda>c. c = 4)" "w_open seated = (\<lambda>c. c = 4)" "w_queue seated = []"
    by (simp_all add: seated_def w_set_def lobby_fields b)
qed

lemma seated_reachable: "reach server_started (world_step id) seated"
  unfolding seated_def
  by (rule reach_step [OF asked_reachable], rule ws_task [OF asked_queue quiet_env(1)])

lemma dropped_eq: "w_service dropped = drop_service" "w_alive dropped = (\<lambda>c. c = 4)" "w_used dropped = (\<lambda>c. c = 4)"
proof -
  have "quiet id (w_close 4 seated) = seat_env"
    by (simp add: quiet_def seat_env_def w_close_def seated_eq)
  then show "w_service dropped = drop_service"
    by (simp add: dropped_def Let_def run_task_def w_set_def w_state_def drop_service_def w_close_def seated_eq)
qed (simp_all add: dropped_def w_set_def w_close_def Let_def seated_eq)

lemma returned_reachable: "reach server_started (world_step id) returned"
proof -
  have "reach server_started (world_step id) (w_close 4 seated)"
    by (rule reach_step [OF seated_reachable], rule ws_close) (simp add: seated_eq)
  then have "reach server_started (world_step id) dropped"
    unfolding dropped_def Let_def by (rule reach_step)
      (rule ws_task [OF _ quiet_env(1)], simp add: w_close_def seated_eq)
  then show ?thesis unfolding returned_def
    by (rule reach_step) (rule ws_accept; simp add: dropped_eq)
qed

definition seat_token :: bytes where
  "seat_token = generate_token (e_random seat_env)"

lemma seat_facts:
  "map_option (\<lambda>s. (s_room_id s, s_player_id s, s_state s, s_offline_deadline s))
     (um_find seat_token (sm_sessions (rs_sessions drop_service))) = Some (1, 1, offline, 30000000000)"
  "sr_state (sm_lookup id (Some 5) (rs_sessions drop_service)) = sm_not_bound"
  "map_option member_count (um_find 1 (rs_rooms drop_service)) = Some 1"
  by code_simp+


lemma seat_found:
  obtains ss r where "um_find seat_token (sm_sessions (rs_sessions (w_service returned))) = Some ss"
    and "s_state ss = offline" and "s_offline_deadline ss = 30000000000" and "s_room_id ss = 1"
    and "um_find 1 (rs_rooms (w_service returned)) = Some r" and "member_count r = 1"
proof -
  have "w_service returned = drop_service" by (simp add: returned_def w_accept_def dropped_eq)
  then show thesis using seat_facts that by auto
qed

lemma open_connections: "unclosed returned 5" "unclosed lobby 4" "unclosed seated 4"
  by (simp_all add: unclosed_def returned_def w_accept_def lobby_fields seated_eq)

lemma lobby_service: "w_service lobby =
    \<lparr>rs_rooms = [(1, Room_new 1 2)], rs_sessions = SessionManager_new 30000\<rparr>"
  by (simp add: lobby_def w_accept_def world_new_def Let_def rs_add_room_def quiet_def RoomService_new_def
      rm_add_room_def contains_room_def um_find_def um_assign_def)

lemma lobby_join:
  "env_of id lobby seat_env"
  "decode_join_request join_payload = Some \<lparr>jq_room_id = 1, jq_player_name = [97]\<rparr>"
  "generate_token (e_random seat_env) \<noteq> []"
  "um_find 1 [(1, Room_new 1 2)] = Some (Room_new 1 2)"
  "sm_view (SessionManager_new 30000) t = None"
  "sr_state (sm_lookup (e_addr seat_env) (Some 4) (SessionManager_new 30000)) = sm_not_bound"
       apply (simp add: env_of_def seat_env_def lobby_fields)
      apply code_simp
     apply code_simp
    apply (simp add: um_find_def)
   apply (simp add: sm_view_def SessionManager_new_def um_find_def)
  apply (simp add: not_bound_find SessionManager_new_def um_find_def)
  done

lemma new_room_fields: "room_state (Room_new k n) = waiting" "member_count (Room_new k n) = 0"
  "r_capacity (Room_new k n) = n" "r_next_player_id (Room_new k n) = 1"
  by (simp_all add: Room_new_def room_state_def Roomstatemachine_new_def member_count_def)

theorem join_is_a_transaction_witness:
  "roster (rs_rooms (fst (handle_join seat_env (Some 4) join_payload (w_state lobby)))) (1, 1) = Some (Some 4)"
proof -
  have "join_possible seat_env 4 join_payload (w_service lobby)"
    unfolding join_possible_def lobby_service
    by (rule exI [of _ "\<lparr>jq_room_id = 1, jq_player_name = [97]\<rparr>"], rule exI [of _ "Room_new 1 2"])
      (simp add: lobby_join new_room_fields name_ok_def protocol_sizes)
  then have "join_done seat_env 4 join_payload (w_state lobby) (handle_join seat_env (Some 4) join_payload (w_state lobby))"
    using join_is_a_transaction [OF lobby_reachable open_connections(2) lobby_join(1), of join_payload] by simp
  then show ?thesis
    by (auto simp: join_done_def w_state_def lobby_service lobby_join new_room_fields)
qed

theorem restore_has_three_outcomes_witness:
  "let cp = \<lparr>sv_generation = 1,
         sv_rooms = [\<lparr>rc_room_id = 7, rc_capacity = 2, rc_next_player_id = 2, rc_state = waiting, rc_tick_id = 0,
           rc_members = [\<lparr>cm_player_id = 1, cm_player_name = [97]\<rparr>], rc_game_states = []\<rparr>],
         sv_sessions = [\<lparr>sc_token = [120], sc_room_id = 7, sc_player_id = 1\<rparr>]\<rparr>;
       res = rs_restore_checkpoint seat_env cp 0 (RoomService_new 30000)
   in \<not> fst res \<and> roster (rs_rooms (RoomService_new 30000)) (7, 1) = None \<and>
      roster (rs_rooms (snd res)) (7, 1) = Some None \<and> rs_sessions (snd res) = SessionManager_new 30000"
proof -
  define cp where "cp = \<lparr>sv_generation = 1,
         sv_rooms = [\<lparr>rc_room_id = 7, rc_capacity = 2, rc_next_player_id = 2, rc_state = waiting, rc_tick_id = 0,
           rc_members = [\<lparr>cm_player_id = 1, cm_player_name = [97]\<rparr>], rc_game_states = []\<rparr>],
         sv_sessions = [\<lparr>sc_token = [120], sc_room_id = 7, sc_player_id = 1\<rparr>]\<rparr>"
  have "sv_generation cp \<noteq> 0" "identities_match (sv_rooms cp) (sv_sessions cp)"
    by (simp_all add: cp_def identities_match_def)
  moreover have "rooms_ok (sv_rooms cp)"
    by (simp add: cp_def rooms_ok_def checkpoint_ok_def restorable_def name_ok_def protocol_sizes)
  moreover have "\<not> sessions_ok (sv_sessions cp)" by (simp add: cp_def sessions_ok_def token_ok_def)
  moreover have "(7, 1) \<in> room_identities (sv_rooms cp)" by (simp add: cp_def room_identities_def)
  moreover have "e_in_base seat_env" by (simp add: seat_env_def)
  ultimately show ?thesis
    using restore_has_three_outcomes [of seat_env cp 0 "RoomService_new 30000"]
    unfolding cp_def [symmetric] Let_def by (auto simp: RoomService_new_def roster_def um_find_def)
qed

theorem dropped_players_can_come_back_witness:
  "sr_token (sm_lookup id (Some 5) (rs_sessions (fst (handle_resume (quiet id returned) (Some 5) (enc_str16 seat_token) (w_state returned))))) =
   seat_token"
proof -
  obtain ss r where f: "um_find seat_token (sm_sessions (rs_sessions (w_service returned))) = Some ss"
      "s_state ss = offline" "s_offline_deadline ss = 30000000000" "s_room_id ss = 1"
      "um_find 1 (rs_rooms (w_service returned)) = Some r" "member_count r = 1" by (rule seat_found)
  have "e_now (quiet id returned) < s_offline_deadline ss" by (simp add: quiet_def f)
  moreover have "sr_state (sm_lookup id (Some 5) (rs_sessions (w_service returned))) = sm_not_bound"
    using seat_facts(2) by (simp add: returned_def w_accept_def dropped_eq)
  ultimately show ?thesis
    using dropped_players_can_come_back [OF returned_reachable open_connections(1) quiet_env(1) f(1,2), of r]
    by (auto simp: f)
qed

lemma seat_lookup:
  "sm_lookup id (Some 4) (rs_sessions (fst seat_state)) =
     \<lparr>sr_state = sm_success, sr_token = seat_token, sr_room_id = 1, sr_player_id = 1\<rparr>"
  by code_simp

theorem closing_keeps_the_seat_witness:
  "roster (rs_rooms (handle_closed_in_loop (quiet id seated) (Some 4) (w_service seated))) =
     (roster (rs_rooms (w_service seated)))((1, 1) \<mapsto> None)"
  by (rule closing_keeps_the_seat [OF seated_reachable open_connections(3) quiet_env(1)
        seat_lookup [folded seated_eq(1)], THEN conjunct1])

theorem timeouts_remove_exactly_the_expired_witness:
  "sm_view (rs_sessions (fst (handle_session_timeouts (quiet id returned) 30000000000 (w_state returned)))) seat_token = None"
proof -
  obtain ss r where "um_find seat_token (sm_sessions (rs_sessions (w_service returned))) = Some ss"
      "s_state ss = offline" "s_offline_deadline ss = 30000000000" by (rule seat_found)
  then show ?thesis
    using timeouts_remove_exactly_the_expired [OF returned_reachable quiet_env(1), of 30000000000 seat_token]
    by simp
qed

theorem chat_reaches_the_whole_room_witness:
  "\<exists>r event. um_find 1 (rs_rooms (w_service seated)) = Some r \<and> encode_chat_event 1 1 [104, 105] = Some event \<and>
    handle_chat (quiet id seated) (Some 4) (enc_str16 [104, 105]) (w_state seated) =
      (w_service seated, snd (broadcast_frame (quiet id seated) (room_connections (w_alive seated) 0 r) mt_chat_event event (w_log seated))) \<and>
    4 \<in> set (room_connections (w_alive seated) 0 r)"
  by (rule chat_reaches_the_whole_room [OF seated_reachable open_connections(3) quiet_env(1)
        seat_lookup [folded seated_eq(1)]]) simp_all

end
