(* ===== verification/Service_Protocol.thy ===== *)
theory Service_Protocol
  imports Server_World
begin

text \<open>
  What the server sends, in every state it can reach: whole frames of the documented message
  types with payloads of the documented layouts, so that a client that decodes the stream it
  receives, however it is cut, understands every message.
\<close>

definition reads_all :: "(bytes \<Rightarrow> ('a \<times> bytes) option) \<Rightarrow> bytes \<Rightarrow> bool" where
  "reads_all dec p = (case dec p of Some (_, []) \<Rightarrow> True | _ \<Rightarrow> False)"

text \<open>The client's reader for a message type of the server; there are no others.\<close>

definition client_reads :: "u16 \<Rightarrow> bytes \<Rightarrow> bool" where
  "client_reads t p =
     (if t = message_code mt_join_ok then reads_all dec_join_ok p
      else if t = message_code mt_player_joined then reads_all dec_event p
      else if t = message_code mt_leave_ok then reads_all (dec_word 4 :: bytes \<Rightarrow> (u32 \<times> bytes) option) p
      else if t = message_code mt_player_left
        then reads_all (dec_pair (dec_word 4) (dec_word 8) :: bytes \<Rightarrow> ((u32 \<times> u64) \<times> bytes) option) p
      else if t = message_code mt_chat_event then reads_all dec_event p
      else if t = message_code mt_state_snapshot then reads_all dec_snapshot p
      else if t = message_code mt_error
        then reads_all (dec_pair (dec_word 2) (dec_word 2) :: bytes \<Rightarrow> ((u16 \<times> u16) \<times> bytes) option) p
      else if t = message_code mt_heartbeat_ack then reads_all (dec_word 8 :: bytes \<Rightarrow> (u64 \<times> bytes) option) p
      else if t = message_code mt_resume_ok then reads_all dec_resume_ok p
      else False)"

definition good_frame :: "bytes \<Rightarrow> bool" where
  "good_frame f \<longleftrightarrow> (\<exists>t p. Codec_encode t p = Some f \<and> client_reads t p)"

definition good_log :: "effect list \<Rightarrow> bool" where
  "good_log out \<longleftrightarrow> (\<forall>c f ok. Sent c f ok \<in> set out \<longrightarrow> good_frame f)"

named_theorems good

lemma good_log_simps [simp]:
  "good_log []" "good_log (out @ [CloseRequested c]) \<longleftrightarrow> good_log out" "good_log (out @ [PeerActivity c]) \<longleftrightarrow> good_log out"
  "good_log (out @ [Sent c f ok]) \<longleftrightarrow> good_log out \<and> good_frame f"
  "good_log (out @ [Sent c f ok, CloseRequested c]) \<longleftrightarrow> good_log out \<and> good_frame f"
  by (auto simp: good_log_def)

lemma client_reads_encoded:
  "encode_join_ok r i tok ms = Some p \<Longrightarrow> client_reads (message_code mt_join_ok) p"
  "encode_resume_ok r i st tid ms ss = Some p \<Longrightarrow> client_reads (message_code mt_resume_ok) p"
  "encode_state_snapshot r tid ss = Some p \<Longrightarrow> client_reads (message_code mt_state_snapshot) p"
  "encode_chat_event r i m = Some p \<Longrightarrow> client_reads (message_code mt_chat_event) p"
  "encode_player_joined r i n = Some p \<Longrightarrow> client_reads (message_code mt_player_joined) p"
  "encode_player_left r i = Some p \<Longrightarrow> client_reads (message_code mt_player_left) p"
  "encode_leave_ok r = Some p \<Longrightarrow> client_reads (message_code mt_leave_ok) p"
  "encode_heartbeat_ack s = Some p \<Longrightarrow> client_reads (message_code mt_heartbeat_ack) p"
  "encode_error mt ec = Some p \<Longrightarrow> client_reads (message_code mt_error) p"
  by (simp_all add: client_reads_def reads_all_def responses_read)

lemma good_frameI: "Codec_encode t p = Some f \<Longrightarrow> client_reads t p \<Longrightarrow> good_frame f"
  by (auto simp: good_frame_def)

section \<open>Sending\<close>

lemma good_send_frame [good]:
  "good_log out \<Longrightarrow> client_reads (message_code t) p \<Longrightarrow> good_log (snd (send_frame e c t p out))"
  by (auto simp: send_frame_def intro: good_frameI split: option.split)

lemma good_broadcast_loop: "good_log out \<Longrightarrow> good_frame f \<Longrightarrow> good_log (snd (broadcast_loop e flag f cs ans out))"
  by (induction cs arbitrary: ans out) auto

lemma good_broadcast [good]:
  "good_log out \<Longrightarrow> client_reads (message_code t) p \<Longrightarrow> good_log (snd (broadcast_frame e cs t p out))"
  by (auto simp: broadcast_frame_def intro: good_broadcast_loop good_frameI split: option.split)

lemma good_send_error [good]: "good_log out \<Longrightarrow> good_log (snd (send_error e c t ec out))"
  by (auto simp: send_error_def intro: good client_reads_encoded split: option.split)

lemma good_reply_error [good]: "good_log out \<Longrightarrow> good_log (reply_error e c t code out)"
  by (auto simp: reply_error_def intro: good split: option.split)

lemma good_lookup [good]: "good_log out \<Longrightarrow> good_log (snd (lookup_identity e c t s out))"
  by (auto simp: lookup_identity_def Let_def intro: good)

section \<open>Handlers\<close>

lemma good_join [good]: "good_log (snd st) \<Longrightarrow> good_log (snd (handle_join e c p st))"
  by (auto simp: handle_join_def Let_def intro!: good intro: client_reads_encoded split: prod.split option.split)

lemma good_resume [good]: "good_log (snd st) \<Longrightarrow> good_log (snd (handle_resume e c p st))"
  by (auto simp: handle_resume_def Let_def intro!: good intro: client_reads_encoded split: prod.split option.split)

lemma good_leave [good]:
  assumes "good_log (snd st)"
  shows "good_log (snd (handle_leave e c p st))"
proof -
  obtain s out where st: "st = (s, out)" by (cases st)
  obtain i out' where l: "lookup_identity e c mt_leave s out = (i, out')" by fastforce
  then have "good_log out'" using good_lookup [of out e c mt_leave s] assms by (simp add: st)
  then show ?thesis
    using assms by (auto simp: st handle_leave_def l Let_def intro!: good intro: client_reads_encoded split: prod.split option.split)
qed

lemma good_chat [good]:
  assumes "good_log (snd st)"
  shows "good_log (snd (handle_chat e c p st))"
proof -
  obtain s out where st: "st = (s, out)" by (cases st)
  obtain i out' where l: "lookup_identity e c mt_chat s out = (i, out')" by fastforce
  then have "good_log out'" using good_lookup [of out e c mt_chat s] assms by (simp add: st)
  then show ?thesis
    using assms by (auto simp: st handle_chat_def l Let_def intro!: good intro: client_reads_encoded split: prod.split option.split)
qed

lemma good_move [good]:
  assumes "good_log (snd st)"
  shows "good_log (snd (handle_move e c p st))"
proof -
  obtain s out where st: "st = (s, out)" by (cases st)
  obtain i out' where l: "lookup_identity e c mt_move s out = (i, out')" by fastforce
  then have "good_log out'" using good_lookup [of out e c mt_move s] assms by (simp add: st)
  then show ?thesis
    using assms by (auto simp: st handle_move_def l Let_def intro!: good split: prod.split option.split)
qed

lemma good_attack [good]:
  assumes "good_log (snd st)"
  shows "good_log (snd (handle_attack e c p st))"
proof -
  obtain s out where st: "st = (s, out)" by (cases st)
  obtain i out' where l: "lookup_identity e c mt_attack s out = (i, out')" by fastforce
  then have "good_log out'" using good_lookup [of out e c mt_attack s] assms by (simp add: st)
  then show ?thesis
    using assms by (auto simp: st handle_attack_def l Let_def intro!: good split: prod.split option.split)
qed

lemma good_task [good]: "good_log (snd st) \<Longrightarrow> good_log (snd (run_task e x st))"
  by (cases x) (auto simp: run_task_def handle_frame_in_loop_def intro: good)

lemma good_ticks: "good_log out \<Longrightarrow> good_log (broadcast_ticks e rs out)"
  by (induction e rs out rule: broadcast_ticks.induct) (auto intro: good client_reads_encoded split: option.split)

lemma good_tick [good]: "good_log (snd st) \<Longrightarrow> good_log (snd (handle_tick e n st))"
  by (auto simp: handle_tick_def intro: good_ticks split: prod.split)

lemma good_expire: "good_log out \<Longrightarrow> good_log (snd (expire_loop e now items (s, out)))"
proof (induction items arbitrary: s out)
  case (Cons item items)
  obtain token room_id player_id where i: "item = (token, room_id, player_id)" by (cases item)
  show ?case
    using Cons by (auto simp: i Let_def intro!: Cons.IH intro: good client_reads_encoded split: prod.split option.split)
qed simp

lemma good_timeouts [good]: "good_log (snd st) \<Longrightarrow> good_log (snd (handle_session_timeouts e now st))"
  by (cases st) (simp add: handle_session_timeouts_def good_expire)

lemma good_decoded:
  assumes "good_log (io_effects io)"
  shows "good_log (io_effects (snd (handle_decoded_frame e c t p io)))"
proof -
  have "good_log (snd (send_frame e c mt_heartbeat_ack temp (io_effects io @ [PeerActivity c'])))"
    if "encode_heartbeat_ack seq = Some temp" for c' seq temp
    using assms by (intro good client_reads_encoded(8) [OF that]) simp
  then show ?thesis
    using assms by (auto simp: handle_decoded_frame_def handle_heartbeat_def Let_def split_beta split: option.split)
qed

section \<open>The running server\<close>

lemma good_receive:
  assumes "w_receive e c d w = Some w'" and "buffer_wf (w_buffer w c)" and "good_log (w_log w)"
  shows "good_log (w_log w')"
proof -
  let ?b = "buffer_append d (w_buffer w c)" and ?io = "\<lparr>io_posted = [], io_effects = w_log w\<rparr>"
  have wf: "buffer_wf ?b" using assms(2) by (rule append_wf)
  obtain ok b io where h: "handle_message e (Some c) ?b ?io = Some (ok, b, io)"
      "w_log w' = io_effects io"
    using assms(1) by (auto simp: w_receive_def w_close_def Let_def split: option.splits prod.splits if_splits)
  have "good_log (io_effects io)"
  proof (cases "e_in_io e")
    case True
    let ?cb = "handle_decoded_frame e (Some c)"
    have "decode_loop ?cb ?b ?io = Some (ok, b, io)"
      using h(1) True by (simp add: handle_message_def Codec_decode_def)
    then have "snd (snd (run_frames ?cb (content ?b) ?io)) = io"
      using decode_loop_refines [OF wf, of ?cb ?io] by auto
    moreover have "good_log (io_effects (snd (snd (run_frames ?cb (content ?b) ?io))))"
      by (rule run_frames_inv [where P = "\<lambda>io. good_log (io_effects io)"]) (simp_all add: assms(3) good_decoded)
    ultimately show ?thesis by simp
  qed (use h(1) assms(3) in \<open>auto simp: handle_message_def\<close>)
  then show ?thesis using h(2) by simp
qed

definition spoken_inv :: "(conn \<Rightarrow> nat) \<Rightarrow> world \<Rightarrow> bool" where
  "spoken_inv addr w \<longleftrightarrow> world_inv addr w \<and> good_log (w_log w)"

lemma spoken_inv_step:
  assumes "spoken_inv addr w" and "world_step addr w w'"
  shows "spoken_inv addr w'"
proof -
  have i: "world_inv addr w" "good_log (w_log w)" using assms(1) by (simp_all add: spoken_inv_def)
  have "good_log (w_log w')"
    using assms(2)
  proof cases
    case (ws_receive c e d)
    then show ?thesis using good_receive world_invD(7) [OF i(1)] i(2) by blast
  next
    case (ws_task x q e)
    then show ?thesis using good_task [of "w_state w" e x] i(2) by (simp add: w_set_def w_state_def)
  next
    case (ws_tick e n)
    then show ?thesis using good_tick [of "w_state w" e n] i(2) by (simp add: w_set_def w_state_def)
  next
    case (ws_timeouts e now)
    then show ?thesis using good_timeouts [of "w_state w" e now] i(2) by (simp add: w_set_def w_state_def)
  qed (use i(2) in \<open>simp_all add: w_accept_def w_close_def world_new_def\<close>)
  then show ?thesis using world_step_inv [OF i(1) assms(2)] by (simp add: spoken_inv_def)
qed

lemma spoken_inv_started: "spoken_inv addr (world_new (RoomService_new ms) None)"
  using world.inv_init [of "world_new (RoomService_new ms) None" addr] by (auto simp: spoken_inv_def) (simp add: world_new_def)

interpretation spoken: invariant_system server_started "world_step addr" "spoken_inv addr" for addr
  by unfold_locales (auto intro: spoken_inv_started spoken_inv_step)

text \<open>The frames a connection has accepted for sending.\<close>

definition sent_to :: "conn \<Rightarrow> effect list \<Rightarrow> bytes list" where
  "sent_to c out = concat (map (\<lambda>x. case x of Sent d f ok \<Rightarrow> if d = c \<and> ok then [f] else [] | _ \<Rightarrow> []) out)"

lemma sent_to_good: "good_log out \<Longrightarrow> f \<in> set (sent_to c out) \<Longrightarrow> good_frame f"
  by (auto simp: sent_to_def good_log_def split: effect.splits if_splits)

lemma good_frames_decode:
  "\<forall>f \<in> set es. good_frame f \<Longrightarrow>
   \<exists>fs. map (\<lambda>(t, p). Codec_encode t p) fs = map Some es \<and> (\<forall>(t, p) \<in> set fs. client_reads t p)"
proof (induction es)
  case (Cons f es)
  then obtain fs where "map (\<lambda>(t, p). Codec_encode t p) fs = map Some es" "\<forall>(t, p) \<in> set fs. client_reads t p" by auto
  moreover obtain t p where "Codec_encode t p = Some f" "client_reads t p" using Cons.prems by (auto simp: good_frame_def)
  ultimately show ?case by (intro exI [of _ "(t, p) # fs"]) simp
qed simp

text \<open>C17: a client understands everything the server says. In every reachable state of the server,
  take the bytes it has successfully handed to a connection so far and let them reach the client
  cut into any chunks: a decoder finds exactly as many frames as were sent, with nothing left
  over, every frame has one of the nine message types of the server, and its payload is, to the
  last byte, of the layout that is documented for that type.\<close>

theorem clients_understand_the_server:
  assumes "reach server_started (world_step addr) w" and "concat chunks = concat (sent_to c (w_log w))"
  shows "\<exists>b msgs. feed collect chunks (Buffer_new n) [] = Some (True, b, msgs) \<and> buffer_empty b \<and>
    length msgs = length (sent_to c (w_log w)) \<and> (\<forall>(t, p) \<in> set msgs. client_reads t p)"
proof -
  have "good_log (w_log w)" using spoken.reach_inv [OF assms(1)] by (simp add: spoken_inv_def)
  then obtain fs where fs: "map (\<lambda>(t, p). Codec_encode t p) fs = map Some (sent_to c (w_log w))"
      "\<forall>(t, p) \<in> set fs. client_reads t p"
    using good_frames_decode sent_to_good by meson
  have "run_frames collect (concat chunks) [] = (True, [], fs)"
    using run_frames_encoded [OF fs(1), of "[]"] assms(2) by simp
  then have "\<exists>b. feed collect chunks (Buffer_new n) [] = Some (True, b, fs) \<and> buffer_empty b"
    using feed_run_frames [of "Buffer_new n" collect chunks "[]"] by (auto simp: buffer_empty_content)
  moreover have "length fs = length (sent_to c (w_log w))" using arg_cong [OF fs(1), of length] by simp
  ultimately show ?thesis using fs(2) by blast
qed

text \<open>The witness: a heartbeat arrives in two pieces and is answered.\<close>

definition beat :: bytes where
  "beat = [0, 0, 0, 10, 0, 6, 0, 0, 0, 0, 0, 0, 0, 5]"

definition beat_ack :: bytes where
  "beat_ack = [0, 0, 0, 10, 0, 108, 0, 0, 0, 0, 0, 0, 0, 5]"

lemma beat_seq: "be_write 8 (5 :: u64) = [0, 0, 0, 0, 0, 0, 0, 5]"
  by (simp add: be_write_def upt_rec)

lemma beat_frame:
  "Codec_encode 6 [0, 0, 0, 0, 0, 0, 0, 5] = Some beat" "Codec_encode 108 [0, 0, 0, 0, 0, 0, 0, 5] = Some beat_ack"
  "decode_heartbeat_request [0, 0, 0, 0, 0, 0, 0, 5] = Some 5" "encode_heartbeat_ack 5 = Some [0, 0, 0, 0, 0, 0, 0, 5]"
  "next_frame beat = Frame 6 [0, 0, 0, 0, 0, 0, 0, 5] []"
proof -
  show e: "Codec_encode 6 [0, 0, 0, 0, 0, 0, 0, 5] = Some beat" by (simp add: Codec_encode_def frame_sizes be_write_def upt_rec beat_def)
  show "Codec_encode 108 [0, 0, 0, 0, 0, 0, 0, 5] = Some beat_ack" by (simp add: Codec_encode_def frame_sizes be_write_def upt_rec beat_ack_def)
  show "decode_heartbeat_request [0, 0, 0, 0, 0, 0, 0, 5] = Some 5" by (simp add: decode_heartbeat_request_iff beat_seq)
  show "encode_heartbeat_ack 5 = Some [0, 0, 0, 0, 0, 0, 0, 5]" by (simp add: encode_heartbeat_ack_def wire_simps beat_seq)
  show "next_frame beat = Frame 6 [0, 0, 0, 0, 0, 0, 0, 5] []" using next_frame_encode [OF e, of "[]"] by simp
qed

lemma beaten_exists: "\<exists>w. reach server_started (world_step id) w \<and> sent_to 4 (w_log w) = [beat_ack]"
proof -
  let ?w = "w_accept 4 (world_new (RoomService_new 30000) None)" and ?e = "quiet id (w_accept 4 (world_new (RoomService_new 30000) None))"
  have r: "reach server_started (world_step id) ?w"
    by (rule reach_step [OF reach_init]) (auto intro!: ws_accept simp: world_new_def)
  let ?cb = "handle_decoded_frame ?e (Some 4)" and ?io = "\<lparr>io_posted = [], io_effects = []\<rparr>" and ?b = "buffer_append beat (Buffer_new 4096)"
  have wf: "buffer_wf ?b" by (simp add: append_wf)
  have c: "content ?b = beat" by (simp add: append_content del: length_content)
  have "?cb 6 [0, 0, 0, 0, 0, 0, 0, 5] ?io = (True, ?io\<lparr>io_effects := [PeerActivity 4, Sent 4 beat_ack True]\<rparr>)"
    by (simp add: handle_decoded_frame_def handle_heartbeat_def beat_frame send_frame_def quiet_def)
  then have run: "run_frames ?cb beat ?io = (True, [], ?io\<lparr>io_effects := [PeerActivity 4, Sent 4 beat_ack True]\<rparr>)"
    by (simp add: run_frames.simps [of ?cb beat] beat_frame(5) run_frames_incomplete next_frame_Nil)
  obtain b' where "decode_loop ?cb ?b ?io = Some (True, b', ?io\<lparr>io_effects := [PeerActivity 4, Sent 4 beat_ack True]\<rparr>)"
    using decode_loop_refines [OF wf, of ?cb ?io] run c by auto
  then have "w_receive ?e 4 beat ?w = Some (?w\<lparr>w_buffer := (w_buffer ?w)(4 := b'), w_log := [PeerActivity 4, Sent 4 beat_ack True]\<rparr>)"
    by (simp add: w_receive_def handle_message_def Codec_decode_def quiet_def w_accept_def world_new_def)
  then have "world_step id ?w (?w\<lparr>w_buffer := (w_buffer ?w)(4 := b'), w_log := [PeerActivity 4, Sent 4 beat_ack True]\<rparr>)"
    by (rule ws_receive [OF _ quiet_env(1), rotated]) (simp add: w_accept_def)
  then have "reach server_started (world_step id) (?w\<lparr>w_buffer := (w_buffer ?w)(4 := b'), w_log := [PeerActivity 4, Sent 4 beat_ack True]\<rparr>)"
    by (rule reach_step [OF r])
  moreover have "sent_to 4 [PeerActivity 4, Sent 4 beat_ack True] = [beat_ack]" by (simp add: sent_to_def)
  ultimately show ?thesis by fastforce
qed

theorem clients_understand_the_server_witness:
  "\<exists>b msgs. feed collect [take 5 beat_ack, drop 5 beat_ack] (Buffer_new 16) [] = Some (True, b, msgs) \<and> buffer_empty b \<and>
    length msgs = 1 \<and> (\<forall>(t, p) \<in> set msgs. client_reads t p)"
proof -
  obtain w where w: "reach server_started (world_step id) w" "sent_to 4 (w_log w) = [beat_ack]"
    using beaten_exists by blast
  have "concat [take 5 beat_ack, drop 5 beat_ack] = concat (sent_to 4 (w_log w))" by (simp add: w(2))
  from clients_understand_the_server [OF w(1) this, of 16] show ?thesis by (simp add: w(2))
qed

end
