(* ===== verification/Checkpoint_Codec.thy ===== *)
theory Checkpoint_Codec
  imports Checkpoint Wire_Format Session_Manager "HOL-Library.Monad_Syntax"
begin

text \<open>
  \<open>CheckpointCodec\<close> (\<open>src/checkpoint_codec.cpp\<close>): the checkpoint file. A 40-byte header
  (magic, version, generation, number of rooms and sessions, payload size, FNV-1a checksum of
  the payload) is followed by the payload. The appending functions return \<open>None\<close> where the code
  returns false, the readers likewise; \<open>encode\<close> and \<open>decode\<close> return \<open>Inr\<close> for \<open>success\<close> and
  \<open>Inl\<close> with the error state otherwise. Memory exhaustion (\<open>std::bad_alloc\<close>) is not modelled.
  The layout is stated once more as a composition of codecs, which encoder and decoder are
  shown to implement.
\<close>

datatype CodecStates =
  cs_invalid_checkpoint | cs_malformed_data | cs_unsupported_version | cs_checksum_mismatch | cs_too_large

definition CHECKPOINT_HEADER_SIZE :: nat where "CHECKPOINT_HEADER_SIZE = 40"
definition MAX_CHECKPOINT_FILE_SIZE :: nat where "MAX_CHECKPOINT_FILE_SIZE = 64 * 1024 * 1024"
definition MAX_PAYLOAD_SIZE :: nat where "MAX_PAYLOAD_SIZE = MAX_CHECKPOINT_FILE_SIZE - CHECKPOINT_HEADER_SIZE"
definition CHECKPOINT_VERSION :: u32 where "CHECKPOINT_VERSION = 1"
definition CHECKPOINT_MAGIC :: bytes where "CHECKPOINT_MAGIC = [0x4C, 0x57, 0x43, 0x50]"
definition FNV_OFFSET_BASIS :: u64 where "FNV_OFFSET_BASIS = 14695981039346656037"
definition FNV_PRIME :: u64 where "FNV_PRIME = 1099511628211"
definition MIN_ROOM_RECORD_SIZE :: nat where "MIN_ROOM_RECORD_SIZE = 37"
definition MIN_MEMBER_RECORD_SIZE :: nat where "MIN_MEMBER_RECORD_SIZE = 12"
definition GAME_STATE_RECORD_SIZE :: nat where "GAME_STATE_RECORD_SIZE = 20"
definition MIN_SESSION_RECORD_SIZE :: nat where "MIN_SESSION_RECORD_SIZE = 16"
definition SESSION_TOKEN_SIZE :: nat where "SESSION_TOKEN_SIZE = 32"

lemmas codec_sizes = CHECKPOINT_HEADER_SIZE_def MAX_CHECKPOINT_FILE_SIZE_def MAX_PAYLOAD_SIZE_def
  MIN_ROOM_RECORD_SIZE_def MIN_MEMBER_RECORD_SIZE_def GAME_STATE_RECORD_SIZE_def
  MIN_SESSION_RECORD_SIZE_def SESSION_TOKEN_SIZE_def

section \<open>Keys\<close>

definition valid_session_token :: "bytes \<Rightarrow> bool" where
  "valid_session_token token \<longleftrightarrow> length token = SESSION_TOKEN_SIZE \<and> list_all is_lower_hex token"

fun new_room_ids :: "RoomCheckpoint list \<Rightarrow> u32 set \<Rightarrow> bool" where
  "new_room_ids [] room_ids = True"
| "new_room_ids (room # rooms) room_ids =
     (if rc_room_id room \<in> room_ids then False
      else new_room_ids rooms (insert (rc_room_id room) room_ids))"

fun new_sessions :: "SessionCheckpoint list \<Rightarrow> bytes set \<Rightarrow> (u32 \<times> u64) set \<Rightarrow> bool" where
  "new_sessions [] session_tokens identities = True"
| "new_sessions (session # sessions) session_tokens identities =
     (if \<not> valid_session_token (sc_token session) \<or> sc_token session \<in> session_tokens \<or>
         (sc_room_id session, sc_player_id session) \<in> identities
      then False
      else new_sessions sessions (insert (sc_token session) session_tokens)
        (insert (sc_room_id session, sc_player_id session) identities))"

definition valid_checkpoint_keys :: "ServerCheckpoint \<Rightarrow> bool" where
  "valid_checkpoint_keys checkpoint \<longleftrightarrow>
     new_room_ids (sv_rooms checkpoint) {} \<and> new_sessions (sv_sessions checkpoint) {} {}"

section \<open>Appending\<close>

definition can_append :: "bytes \<Rightarrow> nat \<Rightarrow> nat \<Rightarrow> bool" where
  "can_append data n limit \<longleftrightarrow> n \<le> limit \<and> length data \<le> limit - n"

definition cc_append_bytes :: "bytes \<Rightarrow> nat \<Rightarrow> bytes \<Rightarrow> bytes option" where
  "cc_append_bytes source limit data =
     (if \<not> can_append data (length source) limit then None else Some (data @ source))"

definition cc_append_u8 :: "u8 \<Rightarrow> nat \<Rightarrow> bytes \<Rightarrow> bytes option" where
  "cc_append_u8 value limit data = (if \<not> can_append data 1 limit then None else Some (data @ [value]))"

text \<open>The loop over the shifts; the last value of \<open>shift\<close> is 0.\<close>

fun cc_append_shifts :: "nat list \<Rightarrow> 'a::len word \<Rightarrow> nat \<Rightarrow> bytes \<Rightarrow> bytes option" where
  "cc_append_shifts [] value limit data = Some data"
| "cc_append_shifts (shift # shifts) value limit data =
     (case cc_append_u8 (ucast (drop_bit shift value AND 0xFF)) limit data of
        None \<Rightarrow> None
      | Some data' \<Rightarrow> cc_append_shifts shifts value limit data')"

definition cc_append_u32 :: "u32 \<Rightarrow> nat \<Rightarrow> bytes \<Rightarrow> bytes option" where
  "cc_append_u32 = cc_append_shifts [24, 16, 8, 0]"

definition cc_append_u64 :: "u64 \<Rightarrow> nat \<Rightarrow> bytes \<Rightarrow> bytes option" where
  "cc_append_u64 = cc_append_shifts [56, 48, 40, 32, 24, 16, 8, 0]"

definition fits_u32 :: "nat \<Rightarrow> bool" where
  "fits_u32 value \<longleftrightarrow> value \<le> 4294967295"

fun room_state_to_byte :: "RoomStates \<Rightarrow> u8" where
  "room_state_to_byte waiting = 0"
| "room_state_to_byte running = 1"
| "room_state_to_byte finished = 2"

definition byte_to_room_state :: "u8 \<Rightarrow> RoomStates option" where
  "byte_to_room_state value =
     (if value = 0 then Some waiting else if value = 1 then Some running
      else if value = 2 then Some finished else None)"

text \<open>\<open>memcpy\<close> between the two 32-bit types keeps the bits, which is what \<open>i32\<close> is.\<close>

definition int32_to_bits :: "i32 \<Rightarrow> u32" where
  "int32_to_bits value = value"

definition bits_to_int32 :: "u32 \<Rightarrow> i32" where
  "bits_to_int32 bits = bits"

definition fnv_step :: "u64 \<Rightarrow> u8 \<Rightarrow> u64" where
  "fnv_step hash byte = (hash XOR ucast byte) * FNV_PRIME"

definition checksum :: "bytes \<Rightarrow> nat \<Rightarrow> nat \<Rightarrow> u64" where
  "checksum data start n = foldl fnv_step FNV_OFFSET_BASIS (take n (drop start data))"

section \<open>\<open>CheckpointCodec::encode\<close>\<close>

fun append_members :: "CheckpointMember list \<Rightarrow> bytes \<Rightarrow> bytes option" where
  "append_members [] payload = Some payload"
| "append_members (member # members) payload =
     (if \<not> fits_u32 (length (cm_player_name member)) then None
      else do {
        payload \<leftarrow> cc_append_u64 (cm_player_id member) MAX_PAYLOAD_SIZE payload;
        payload \<leftarrow> cc_append_u32 (of_nat (length (cm_player_name member))) MAX_PAYLOAD_SIZE payload;
        payload \<leftarrow> cc_append_bytes (cm_player_name member) MAX_PAYLOAD_SIZE payload;
        append_members members payload
      })"

fun append_game_states :: "PlayerGameState list \<Rightarrow> bytes \<Rightarrow> bytes option" where
  "append_game_states [] payload = Some payload"
| "append_game_states (player # players) payload = do {
     payload \<leftarrow> cc_append_u64 (pgs_player_id player) MAX_PAYLOAD_SIZE payload;
     payload \<leftarrow> cc_append_u32 (int32_to_bits (pgs_x player)) MAX_PAYLOAD_SIZE payload;
     payload \<leftarrow> cc_append_u32 (int32_to_bits (pgs_y player)) MAX_PAYLOAD_SIZE payload;
     payload \<leftarrow> cc_append_u32 (int32_to_bits (pgs_hp player)) MAX_PAYLOAD_SIZE payload;
     append_game_states players payload
   }"

fun append_rooms :: "RoomCheckpoint list \<Rightarrow> bytes \<Rightarrow> bytes option" where
  "append_rooms [] payload = Some payload"
| "append_rooms (room # rooms) payload =
     (if \<not> fits_u32 (length (rc_members room)) \<or> \<not> fits_u32 (length (rc_game_states room)) then None
      else do {
        payload \<leftarrow> cc_append_u32 (rc_room_id room) MAX_PAYLOAD_SIZE payload;
        payload \<leftarrow> cc_append_u64 (rc_capacity room) MAX_PAYLOAD_SIZE payload;
        payload \<leftarrow> cc_append_u64 (rc_next_player_id room) MAX_PAYLOAD_SIZE payload;
        payload \<leftarrow> cc_append_u8 (room_state_to_byte (rc_state room)) MAX_PAYLOAD_SIZE payload;
        payload \<leftarrow> cc_append_u64 (rc_tick_id room) MAX_PAYLOAD_SIZE payload;
        payload \<leftarrow> cc_append_u32 (of_nat (length (rc_members room))) MAX_PAYLOAD_SIZE payload;
        payload \<leftarrow> append_members (rc_members room) payload;
        payload \<leftarrow> cc_append_u32 (of_nat (length (rc_game_states room))) MAX_PAYLOAD_SIZE payload;
        payload \<leftarrow> append_game_states (rc_game_states room) payload;
        append_rooms rooms payload
      })"

fun append_sessions :: "SessionCheckpoint list \<Rightarrow> bytes \<Rightarrow> bytes option" where
  "append_sessions [] payload = Some payload"
| "append_sessions (session # sessions) payload =
     (if \<not> fits_u32 (length (sc_token session)) then None
      else do {
        payload \<leftarrow> cc_append_u32 (of_nat (length (sc_token session))) MAX_PAYLOAD_SIZE payload;
        payload \<leftarrow> cc_append_bytes (sc_token session) MAX_PAYLOAD_SIZE payload;
        payload \<leftarrow> cc_append_u32 (sc_room_id session) MAX_PAYLOAD_SIZE payload;
        payload \<leftarrow> cc_append_u64 (sc_player_id session) MAX_PAYLOAD_SIZE payload;
        append_sessions sessions payload
      })"

definition append_file :: "ServerCheckpoint \<Rightarrow> bytes \<Rightarrow> bytes option" where
  "append_file checkpoint payload = do {
     result \<leftarrow> cc_append_bytes CHECKPOINT_MAGIC MAX_CHECKPOINT_FILE_SIZE [];
     result \<leftarrow> cc_append_u32 CHECKPOINT_VERSION MAX_CHECKPOINT_FILE_SIZE result;
     result \<leftarrow> cc_append_u64 (sv_generation checkpoint) MAX_CHECKPOINT_FILE_SIZE result;
     result \<leftarrow> cc_append_u32 (of_nat (length (sv_rooms checkpoint))) MAX_CHECKPOINT_FILE_SIZE result;
     result \<leftarrow> cc_append_u32 (of_nat (length (sv_sessions checkpoint))) MAX_CHECKPOINT_FILE_SIZE result;
     result \<leftarrow> cc_append_u64 (of_nat (length payload)) MAX_CHECKPOINT_FILE_SIZE result;
     result \<leftarrow> cc_append_u64 (checksum payload 0 (length payload)) MAX_CHECKPOINT_FILE_SIZE result;
     cc_append_bytes payload MAX_CHECKPOINT_FILE_SIZE result
   }"

definition checkpoint_encode :: "ServerCheckpoint \<Rightarrow> CodecStates + bytes" where
  "checkpoint_encode checkpoint =
     (if sv_generation checkpoint = 0 then Inl cs_invalid_checkpoint
      else if \<not> fits_u32 (length (sv_rooms checkpoint)) \<or> \<not> fits_u32 (length (sv_sessions checkpoint))
      then Inl cs_too_large
      else if \<not> valid_checkpoint_keys checkpoint then Inl cs_invalid_checkpoint
      else case append_rooms (sv_rooms checkpoint) [] \<bind> append_sessions (sv_sessions checkpoint) of
        None \<Rightarrow> Inl cs_too_large
      | Some payload \<Rightarrow>
          (case append_file checkpoint payload of None \<Rightarrow> Inl cs_too_large | Some result \<Rightarrow> Inr result))"

section \<open>\<open>Reader\<close>\<close>

record Reader =
  rd_data :: bytes
  rd_position :: nat
  rd_end :: nat

definition rd_remaining :: "Reader \<Rightarrow> nat" where
  "rd_remaining r = rd_end r - rd_position r"

definition rd_finished :: "Reader \<Rightarrow> bool" where
  "rd_finished r \<longleftrightarrow> rd_position r = rd_end r"

definition rd_read_u8 :: "Reader \<Rightarrow> (u8 \<times> Reader) option" where
  "rd_read_u8 r = (if rd_remaining r < 1 then None
     else Some (rd_data r ! rd_position r, r\<lparr>rd_position := rd_position r + 1\<rparr>))"

fun rd_shift_in :: "nat \<Rightarrow> 'a::len word \<Rightarrow> Reader \<Rightarrow> 'a word \<times> Reader" where
  "rd_shift_in 0 value r = (value, r)"
| "rd_shift_in (Suc n) value r =
     rd_shift_in n (push_bit 8 value OR ucast (rd_data r ! rd_position r)) (r\<lparr>rd_position := rd_position r + 1\<rparr>)"

definition rd_read_u32 :: "Reader \<Rightarrow> (u32 \<times> Reader) option" where
  "rd_read_u32 r = (if rd_remaining r < 4 then None else Some (rd_shift_in 4 0 r))"

definition rd_read_u64 :: "Reader \<Rightarrow> (u64 \<times> Reader) option" where
  "rd_read_u64 r = (if rd_remaining r < 8 then None else Some (rd_shift_in 8 0 r))"

definition rd_read_string :: "u32 \<Rightarrow> Reader \<Rightarrow> (bytes \<times> Reader) option" where
  "rd_read_string n r = (if rd_remaining r < unat n then None
     else Some (take (unat n) (drop (rd_position r) (rd_data r)), r\<lparr>rd_position := rd_position r + unat n\<rparr>))"

section \<open>\<open>CheckpointCodec::decode\<close>\<close>

text \<open>The counted loops: the element is read, then pushed back.\<close>

fun rd_repeat :: "(Reader \<Rightarrow> ('a \<times> Reader) option) \<Rightarrow> nat \<Rightarrow> Reader \<Rightarrow> ('a list \<times> Reader) option" where
  "rd_repeat f 0 r = Some ([], r)"
| "rd_repeat f (Suc n) r = do { (x, r) \<leftarrow> f r; (xs, r) \<leftarrow> rd_repeat f n r; Some (x # xs, r) }"

definition rd_member :: "Reader \<Rightarrow> (CheckpointMember \<times> Reader) option" where
  "rd_member r = do {
     (player_id, r) \<leftarrow> rd_read_u64 r;
     (name_size, r) \<leftarrow> rd_read_u32 r;
     (player_name, r) \<leftarrow> rd_read_string name_size r;
     Some (\<lparr>cm_player_id = player_id, cm_player_name = player_name\<rparr>, r)
   }"

definition rd_game_state :: "Reader \<Rightarrow> (PlayerGameState \<times> Reader) option" where
  "rd_game_state r = do {
     (player_id, r) \<leftarrow> rd_read_u64 r;
     (x_bits, r) \<leftarrow> rd_read_u32 r;
     (y_bits, r) \<leftarrow> rd_read_u32 r;
     (hp_bits, r) \<leftarrow> rd_read_u32 r;
     Some (\<lparr>pgs_player_id = player_id, pgs_x = bits_to_int32 x_bits, pgs_y = bits_to_int32 y_bits,
       pgs_hp = bits_to_int32 hp_bits\<rparr>, r)
   }"

text \<open>The count of a sequence is checked against what is left before space is reserved for it.\<close>

definition rd_members :: "u32 \<Rightarrow> Reader \<Rightarrow> (CheckpointMember list \<times> Reader) option" where
  "rd_members members_count r =
     (if rd_remaining r < 4 then None
      else if unat members_count > (rd_remaining r - 4) div MIN_MEMBER_RECORD_SIZE then None
      else rd_repeat rd_member (unat members_count) r)"

definition rd_game_states :: "u32 \<Rightarrow> Reader \<Rightarrow> (PlayerGameState list \<times> Reader) option" where
  "rd_game_states game_state_count r =
     (if unat game_state_count > rd_remaining r div GAME_STATE_RECORD_SIZE then None
      else rd_repeat rd_game_state (unat game_state_count) r)"

definition rd_state :: "u8 \<Rightarrow> Reader \<Rightarrow> (RoomStates \<times> Reader) option" where
  "rd_state state_value r = (case byte_to_room_state state_value of None \<Rightarrow> None | Some s \<Rightarrow> Some (s, r))"

definition rd_room :: "Reader \<Rightarrow> (RoomCheckpoint \<times> Reader) option" where
  "rd_room r = do {
     (room_id, r) \<leftarrow> rd_read_u32 r;
     (capacity, r) \<leftarrow> rd_read_u64 r;
     (next_player_id, r) \<leftarrow> rd_read_u64 r;
     (state_value, r) \<leftarrow> rd_read_u8 r;
     (tick_id, r) \<leftarrow> rd_read_u64 r;
     (members_count, r) \<leftarrow> rd_read_u32 r;
     (state, r) \<leftarrow> rd_state state_value r;
     (members, r) \<leftarrow> rd_members members_count r;
     (game_state_count, r) \<leftarrow> rd_read_u32 r;
     (game_states, r) \<leftarrow> rd_game_states game_state_count r;
     Some (\<lparr>rc_room_id = room_id, rc_capacity = capacity, rc_next_player_id = next_player_id,
       rc_state = state, rc_tick_id = tick_id, rc_members = members, rc_game_states = game_states\<rparr>, r)
   }"

definition rd_session :: "Reader \<Rightarrow> (SessionCheckpoint \<times> Reader) option" where
  "rd_session r = do {
     (token_size, r) \<leftarrow> rd_read_u32 r;
     (token, r) \<leftarrow> rd_read_string token_size r;
     (room_id, r) \<leftarrow> rd_read_u32 r;
     (player_id, r) \<leftarrow> rd_read_u64 r;
     Some (\<lparr>sc_token = token, sc_room_id = room_id, sc_player_id = player_id\<rparr>, r)
   }"

definition rd_sessions :: "u32 \<Rightarrow> Reader \<Rightarrow> (SessionCheckpoint list \<times> Reader) option" where
  "rd_sessions session_count r =
     (if unat session_count > rd_remaining r div MIN_SESSION_RECORD_SIZE then None
      else rd_repeat rd_session (unat session_count) r)"

definition rd_rooms :: "u32 \<Rightarrow> Reader \<Rightarrow> (RoomCheckpoint list \<times> Reader) option" where
  "rd_rooms room_count r =
     (if unat room_count > rd_remaining r div MIN_ROOM_RECORD_SIZE then None
      else rd_repeat rd_room (unat room_count) r)"

record file_header =
  fh_version :: u32
  fh_generation :: u64
  fh_room_count :: u32
  fh_session_count :: u32
  fh_payload_size :: u64
  fh_checksum :: u64

definition rd_header :: "Reader \<Rightarrow> (file_header \<times> Reader) option" where
  "rd_header r = do {
     (version, r) \<leftarrow> rd_read_u32 r;
     (generation, r) \<leftarrow> rd_read_u64 r;
     (room_count, r) \<leftarrow> rd_read_u32 r;
     (session_count, r) \<leftarrow> rd_read_u32 r;
     (payload_size, r) \<leftarrow> rd_read_u64 r;
     (stored_checksum, r) \<leftarrow> rd_read_u64 r;
     if \<not> rd_finished r then None
     else Some (\<lparr>fh_version = version, fh_generation = generation, fh_room_count = room_count,
       fh_session_count = session_count, fh_payload_size = payload_size, fh_checksum = stored_checksum\<rparr>, r)
   }"

definition rd_payload :: "file_header \<Rightarrow> Reader \<Rightarrow> (ServerCheckpoint \<times> Reader) option" where
  "rd_payload h r = do {
     (rooms, r) \<leftarrow> rd_rooms (fh_room_count h) r;
     (sessions, r) \<leftarrow> rd_sessions (fh_session_count h) r;
     Some (\<lparr>sv_generation = fh_generation h, sv_rooms = rooms, sv_sessions = sessions\<rparr>, r)
   }"

definition checkpoint_decode :: "bytes \<Rightarrow> CodecStates + ServerCheckpoint" where
  "checkpoint_decode data =
     (if length data > MAX_CHECKPOINT_FILE_SIZE then Inl cs_too_large
      else if length data < CHECKPOINT_HEADER_SIZE then Inl cs_malformed_data
      else if take (length CHECKPOINT_MAGIC) data \<noteq> CHECKPOINT_MAGIC then Inl cs_malformed_data
      else case rd_header \<lparr>rd_data = data, rd_position = length CHECKPOINT_MAGIC, rd_end = CHECKPOINT_HEADER_SIZE\<rparr> of
        None \<Rightarrow> Inl cs_malformed_data
      | Some (h, _) \<Rightarrow>
          if fh_version h \<noteq> CHECKPOINT_VERSION then Inl cs_unsupported_version
          else if fh_generation h = 0 then Inl cs_invalid_checkpoint
          else if fh_payload_size h \<noteq> of_nat (length data - CHECKPOINT_HEADER_SIZE) then Inl cs_malformed_data
          else if fh_checksum h \<noteq> checksum data CHECKPOINT_HEADER_SIZE (length data - CHECKPOINT_HEADER_SIZE)
          then Inl cs_checksum_mismatch
          else case rd_payload h \<lparr>rd_data = data, rd_position = CHECKPOINT_HEADER_SIZE, rd_end = length data\<rparr> of
            None \<Rightarrow> Inl cs_malformed_data
          | Some (temp, r) \<Rightarrow>
              if \<not> rd_finished r then Inl cs_malformed_data
              else if \<not> valid_checkpoint_keys temp then Inl cs_invalid_checkpoint
              else Inr temp)"

end
