(* ===== verification/Checkpoint_Format.thy ===== *)
theory Checkpoint_Format
  imports Checkpoint_Codec
begin

text \<open>
  What \<open>CheckpointCodec\<close> guarantees: the layout of the file as a composition of codecs, the
  appending loops and the \<open>Reader\<close> shown to implement it, encoding and decoding as inverses of
  each other, and what the checksum detects.
\<close>

section \<open>Appending up to a limit\<close>

text \<open>An appending function writes \<open>x\<close> if \<open>P\<close> holds and the limit allows, and fails otherwise.\<close>

definition appends :: "nat \<Rightarrow> (bytes \<Rightarrow> bytes option) \<Rightarrow> bytes \<Rightarrow> bool \<Rightarrow> bool" where
  "appends L f x P \<longleftrightarrow>
     (\<forall>d. length d \<le> L \<longrightarrow> f d = (if P \<and> length d + length x \<le> L then Some (d @ x) else None))"

named_theorems append_intros

lemma appendsD: "appends L f x P \<Longrightarrow> length d \<le> L \<Longrightarrow>
    f d = (if P \<and> length d + length x \<le> L then Some (d @ x) else None)"
  by (simp add: appends_def)

lemma appends_bind [append_intros]:
  assumes "appends L f x P" and "appends L g y Q"
  shows "appends L (\<lambda>d. f d \<bind> g) (x @ y) (P \<and> Q)"
  using assms by (auto simp: appends_def)

lemma appends_Some: "appends L Some [] True"
  by (simp add: appends_def)

lemma appends_guard [append_intros]:
  assumes "appends L f x P"
  shows "appends L (\<lambda>d. if \<not> b then None else f d) x (b \<and> P)"
  using assms by (simp add: appends_def)

lemma appends_bytes [append_intros]: "appends L (cc_append_bytes x L) x True"
  by (auto simp: appends_def cc_append_bytes_def can_append_def)

lemma appends_u8 [append_intros]: "appends L (cc_append_u8 v L) [v] True"
  by (auto simp: appends_def cc_append_u8_def can_append_def)

lemma appends_shifts:
  "appends L (cc_append_shifts ss v L) (map (\<lambda>s. ucast (drop_bit s v)) ss) True"
proof (induction ss)
  case Nil
  show ?case by (simp add: appends_def)
next
  case (Cons s ss)
  have m: "(ucast (drop_bit s v AND 0xFF) :: u8) = ucast (drop_bit s v)"
  proof -
    have "(0xFF :: 'a word) = mask 8" by (simp add: mask_eq_exp_minus_1)
    then have "drop_bit s v AND 0xFF = take_bit 8 (drop_bit s v)" by (simp only: take_bit_eq_mask)
    then show ?thesis
      by (simp only:) (rule bit_word_eqI, auto simp: bit_simps dest: bit_imp_le_length)
  qed
  show ?case
    using Cons.IH by (auto simp: appends_def cc_append_u8_def can_append_def m split: option.splits)
qed

lemma appends_u32 [append_intros]: "appends L (cc_append_u32 v L) (be_write 4 v) True"
  using appends_shifts [of L "[24, 16, 8, 0]" v] by (simp add: cc_append_u32_def be_write_def upt_rec)

lemma appends_u64 [append_intros]: "appends L (cc_append_u64 v L) (be_write 8 v) True"
  using appends_shifts [of L "[56, 48, 40, 32, 24, 16, 8, 0]" v]
  by (simp add: cc_append_u64_def be_write_def upt_rec)

section \<open>Reading\<close>

text \<open>The reader stands for the bytes between its position and its end; a reading function
  implements a decoder that consumes a prefix.\<close>

definition rd_wf :: "Reader \<Rightarrow> bool" where
  "rd_wf r \<longleftrightarrow> rd_position r \<le> rd_end r \<and> rd_end r \<le> length (rd_data r)"

definition rd_view :: "Reader \<Rightarrow> bytes" where
  "rd_view r = take (rd_end r - rd_position r) (drop (rd_position r) (rd_data r))"

definition reads :: "(Reader \<Rightarrow> ('a \<times> Reader) option) \<Rightarrow> (bytes \<Rightarrow> ('a \<times> bytes) option) \<Rightarrow> bool" where
  "reads f d \<longleftrightarrow> (\<forall>r. rd_wf r \<longrightarrow>
     (case f r of None \<Rightarrow> d (rd_view r) = None
      | Some (x, r') \<Rightarrow> d (rd_view r) = Some (x, rd_view r') \<and> rd_wf r'))"

named_theorems read_intros

lemma rd_remaining_view: "rd_wf r \<Longrightarrow> rd_remaining r = length (rd_view r)"
  by (auto simp: rd_remaining_def rd_view_def rd_wf_def min_def)

lemma rd_finished_view: "rd_wf r \<Longrightarrow> rd_finished r \<longleftrightarrow> rd_view r = []"
  by (auto simp: rd_finished_def rd_view_def rd_wf_def)

lemma rd_advance:
  assumes "rd_wf r" and "n \<le> length (rd_view r)"
  shows "rd_wf (r\<lparr>rd_position := rd_position r + n\<rparr>)"
    and "rd_view (r\<lparr>rd_position := rd_position r + n\<rparr>) = drop n (rd_view r)"
    and "take n (drop (rd_position r) (rd_data r)) = take n (rd_view r)"
  using assms by (auto simp: rd_wf_def rd_view_def drop_take add.commute)

lemma reads_bind [read_intros]:
  assumes "reads f d" and "\<And>x. reads (g x) (e x)"
  shows "reads (\<lambda>r. f r \<bind> (\<lambda>(x, r'). g x r')) (\<lambda>bs. d bs \<bind> (\<lambda>(x, bs'). e x bs'))"
  unfolding reads_def
proof (intro allI impI)
  fix r assume r: "rd_wf r"
  show "case f r \<bind> (\<lambda>(x, r'). g x r') of None \<Rightarrow> d (rd_view r) \<bind> (\<lambda>(x, bs'). e x bs') = None
    | Some (x, r') \<Rightarrow> d (rd_view r) \<bind> (\<lambda>(x, bs'). e x bs') = Some (x, rd_view r') \<and> rd_wf r'"
  proof (cases "f r")
    case None
    then show ?thesis using assms(1) r by (auto simp: reads_def)
  next
    case (Some p)
    obtain x r' where p: "p = (x, r')" by (cases p)
    have d: "d (rd_view r) = Some (x, rd_view r')" and w: "rd_wf r'"
      using assms(1) r Some p by (auto simp: reads_def)
    have "case g x r' of None \<Rightarrow> e x (rd_view r') = None
        | Some (y, r'') \<Rightarrow> e x (rd_view r') = Some (y, rd_view r'') \<and> rd_wf r''"
      using assms(2) [of x] w by (simp add: reads_def)
    then show ?thesis by (cases "g x r'") (auto simp: Some p d)
  qed
qed

lemma reads_return [read_intros]: "reads (\<lambda>r. Some (x, r)) (\<lambda>bs. Some (x, bs))"
  by (simp add: reads_def)

lemma reads_if [read_intros]:
  assumes "reads f d" and "\<And>r. rd_wf r \<Longrightarrow> P r \<longleftrightarrow> Q (rd_view r)"
  shows "reads (\<lambda>r. if P r then None else f r) (\<lambda>bs. if Q bs then None else d bs)"
  using assms by (auto simp: reads_def)

lemma rd_shift_in_eq:
  "rd_wf r \<Longrightarrow> n \<le> length (rd_view r) \<Longrightarrow>
   rd_shift_in n v r = (foldl (\<lambda>acc b. push_bit 8 acc OR ucast b) v (take n (rd_view r)),
     r\<lparr>rd_position := rd_position r + n\<rparr>)"
proof (induction n arbitrary: v r)
  case (Suc n)
  have ne: "rd_view r \<noteq> []" using Suc.prems by auto
  have hd: "rd_data r ! rd_position r = hd (rd_view r)"
    using Suc.prems ne by (auto simp: rd_view_def rd_wf_def hd_conv_nth)
  note adv = rd_advance [of r 1]
  have w: "rd_wf (r\<lparr>rd_position := rd_position r + 1\<rparr>)" "n \<le> length (rd_view (r\<lparr>rd_position := rd_position r + 1\<rparr>))"
    using adv(1,2) Suc.prems by simp_all
  have "take (Suc n) (rd_view r) = hd (rd_view r) # take n (tl (rd_view r))"
    using ne by (cases "rd_view r") auto
  moreover have "tl (rd_view r) = rd_view (r\<lparr>rd_position := rd_position r + 1\<rparr>)"
    using adv(2) Suc.prems by (simp add: drop_Suc)
  ultimately show ?case using Suc.IH [OF w] by (simp add: hd)
qed simp

lemma reads_word:
  "reads (\<lambda>r. if rd_remaining r < n then None else Some (rd_shift_in n 0 r)) (dec_word n)"
  by (auto simp: reads_def dec_word_def rd_remaining_view rd_shift_in_eq rd_advance be_read_def)

lemma reads_u32 [read_intros]: "reads rd_read_u32 (dec_word 4)"
  using reads_word [of 4] by (simp add: rd_read_u32_def [abs_def])

lemma reads_u64 [read_intros]: "reads rd_read_u64 (dec_word 8)"
  using reads_word [of 8] by (simp add: rd_read_u64_def [abs_def])

lemma reads_u8 [read_intros]: "reads rd_read_u8 (dec_word 1)"
proof -
  have "(if rd_remaining r < 1 then None else Some (rd_shift_in 1 0 r)) = rd_read_u8 r" for r
    by (simp add: rd_read_u8_def)
  then show ?thesis using reads_word [of 1, where ?'a = 8] by simp
qed

definition dec_bytes :: "u32 \<Rightarrow> bytes \<Rightarrow> (bytes \<times> bytes) option" where
  "dec_bytes n bs = (if length bs < unat n then None else Some (take (unat n) bs, drop (unat n) bs))"

lemma reads_string [read_intros]: "reads (rd_read_string n) (dec_bytes n)"
  by (auto simp: reads_def rd_read_string_def dec_bytes_def rd_remaining_view rd_advance)

lemma reads_repeat:
  assumes "reads f d"
  shows "reads (rd_repeat f n) (dec_seq d n)"
proof (induction n)
  case 0
  show ?case by (simp add: reads_def)
next
  case (Suc n)
  have "dec_seq d (Suc n) = (\<lambda>bs. d bs \<bind> (\<lambda>(x, r). dec_seq d n r \<bind> (\<lambda>(xs, r). Some (x # xs, r))))"
    by (auto simp: fun_eq_iff split: option.splits)
  moreover have "reads (\<lambda>r. f r \<bind> (\<lambda>(x, r). rd_repeat f n r \<bind> (\<lambda>(xs, r). Some (x # xs, r))))
      (\<lambda>bs. d bs \<bind> (\<lambda>(x, r). dec_seq d n r \<bind> (\<lambda>(xs, r). Some (x # xs, r))))"
    by (intro read_intros assms Suc.IH)
  moreover have "rd_repeat f (Suc n) = (\<lambda>r. f r \<bind> (\<lambda>(x, r). rd_repeat f n r \<bind> (\<lambda>(xs, r). Some (x # xs, r))))"
    by (simp add: fun_eq_iff)
  ultimately show ?case by (simp only:)
qed

section \<open>The layout\<close>

lemma canonical_codecI:
  assumes "\<And>bs x r. dec bs = Some (x, r) \<longleftrightarrow> ok x \<and> bs = enc x @ r"
  shows "canonical_codec enc dec ok"
  by unfold_locales (simp_all add: assms)

lemma dec_bytes_iff: "dec_bytes n bs = Some (s, r) \<longleftrightarrow> length s = unat n \<and> bs = s @ r"
  by (auto simp: dec_bytes_def)

lemma fits_u32_iff: "fits_u32 n \<longleftrightarrow> n < 2 ^ 32"
  by (auto simp: fits_u32_def)

lemma unat_count_iff: "(n :: nat) = unat (c :: u32) \<longleftrightarrow> fits_u32 n \<and> c = of_nat n"
  using unsigned_less [where ?'a = nat, of c] unat_of_nat_u32 [of n]
  by (auto simp: fits_u32_iff)

lemma unat_u32_of_nat: "fits_u32 n \<Longrightarrow> unat (of_nat n :: u32) = n"
  by (simp add: fits_u32_iff unat_of_nat_u32)

lemma dec_u8_iff: "dec_word (Suc 0) bs = Some (v :: u8, r) \<longleftrightarrow> bs = v # r"
proof -
  have "be_write (Suc 0) v = [v]" by (simp add: be_write_def)
  then show ?thesis using dec_word_enc [of 1 v r] dec_word_sound [of 1 bs v r] by auto
qed

lemmas dec_iffs = w32.dec_iff w64.dec_iff dec_u8_iff dec_bytes_iff

definition enc_cm :: "CheckpointMember \<Rightarrow> bytes" where
  "enc_cm m = be_write 8 (cm_player_id m) @ be_write 4 (of_nat (length (cm_player_name m)) :: u32) @ cm_player_name m"

definition cm_ok :: "CheckpointMember \<Rightarrow> bool" where
  "cm_ok m \<longleftrightarrow> fits_u32 (length (cm_player_name m))"

definition dec_cm :: "bytes \<Rightarrow> (CheckpointMember \<times> bytes) option" where
  "dec_cm bs = do {
     (i, bs) \<leftarrow> dec_word 8 bs; (n, bs) \<leftarrow> dec_word 4 bs; (s, bs) \<leftarrow> dec_bytes n bs;
     Some (\<lparr>cm_player_id = i, cm_player_name = s\<rparr>, bs) }"

interpretation cm: canonical_codec enc_cm dec_cm cm_ok
proof (rule canonical_codecI)
  fix bs m r
  show "dec_cm bs = Some (m, r) \<longleftrightarrow> cm_ok m \<and> bs = enc_cm m @ r"
    by (cases m) (auto simp: dec_cm_def enc_cm_def cm_ok_def bind_eq_Some_conv dec_iffs unat_count_iff)
qed

definition enc_pgs :: "PlayerGameState \<Rightarrow> bytes" where
  "enc_pgs s = be_write 8 (pgs_player_id s) @ be_write 4 (pgs_x s) @ be_write 4 (pgs_y s) @ be_write 4 (pgs_hp s)"

definition dec_pgs :: "bytes \<Rightarrow> (PlayerGameState \<times> bytes) option" where
  "dec_pgs bs = do {
     (i, bs) \<leftarrow> dec_word 8 bs; (x, bs) \<leftarrow> dec_word 4 bs; (y, bs) \<leftarrow> dec_word 4 bs; (h, bs) \<leftarrow> dec_word 4 bs;
     Some (\<lparr>pgs_player_id = i, pgs_x = bits_to_int32 x, pgs_y = bits_to_int32 y, pgs_hp = bits_to_int32 h\<rparr>, bs) }"

interpretation pgs: canonical_codec enc_pgs dec_pgs "\<lambda>_. True"
proof (rule canonical_codecI)
  fix bs m r
  show "dec_pgs bs = Some (m, r) \<longleftrightarrow> True \<and> bs = enc_pgs m @ r"
    by (cases m) (auto simp: dec_pgs_def enc_pgs_def bind_eq_Some_conv dec_iffs bits_to_int32_def)
qed

definition enc_sc :: "SessionCheckpoint \<Rightarrow> bytes" where
  "enc_sc s = be_write 4 (of_nat (length (sc_token s)) :: u32) @ sc_token s @
     be_write 4 (sc_room_id s) @ be_write 8 (sc_player_id s)"

definition sc_ok :: "SessionCheckpoint \<Rightarrow> bool" where
  "sc_ok s \<longleftrightarrow> fits_u32 (length (sc_token s))"

definition dec_sc :: "bytes \<Rightarrow> (SessionCheckpoint \<times> bytes) option" where
  "dec_sc bs = do {
     (n, bs) \<leftarrow> dec_word 4 bs; (t, bs) \<leftarrow> dec_bytes n bs; (k, bs) \<leftarrow> dec_word 4 bs; (i, bs) \<leftarrow> dec_word 8 bs;
     Some (\<lparr>sc_token = t, sc_room_id = k, sc_player_id = i\<rparr>, bs) }"

interpretation sc: canonical_codec enc_sc dec_sc sc_ok
proof (rule canonical_codecI)
  fix bs m r
  show "dec_sc bs = Some (m, r) \<longleftrightarrow> sc_ok m \<and> bs = enc_sc m @ r"
    by (cases m) (auto simp: dec_sc_def enc_sc_def sc_ok_def bind_eq_Some_conv dec_iffs unat_count_iff)
qed

text \<open>Every element takes at least so many bytes, so the checks before the counted loops never
  refuse what the loops would accept.\<close>

lemma length_concat_ge:
  assumes "\<And>x. k \<le> length (f x)"
  shows "length xs * k \<le> length (concat (map f xs))"
  using assms by (induction xs) (auto simp: add_mono)

lemma count_bound:
  assumes "\<And>x. k \<le> length (f x)" and "0 < k"
  shows "length xs \<le> length (concat (map f xs) @ r) div k"
  using length_concat_ge [of k f xs] assms by (simp add: less_eq_div_iff_mult_less_eq)

definition dec_guarded :: "nat \<Rightarrow> (bytes \<Rightarrow> ('a \<times> bytes) option) \<Rightarrow> u32 \<Rightarrow> bytes \<Rightarrow> ('a list \<times> bytes) option" where
  "dec_guarded k d n bs = (if unat n > length bs div k then None else dec_seq d (unat n) bs)"

context canonical_codec
begin

lemma dec_seq_iff:
  "dec_seq dec n bs = Some (xs, r) \<longleftrightarrow> length xs = n \<and> list_all ok xs \<and> bs = concat (map enc xs) @ r"
  using dec_seq_enc [of xs r] dec_seq_sound [of n bs xs r] by auto

lemma dec_guarded_iff:
  assumes "\<And>x. k \<le> length (enc x)" and "0 < k"
  shows "dec_guarded k dec n bs = Some (xs, r) \<longleftrightarrow>
    length xs = unat n \<and> list_all ok xs \<and> bs = concat (map enc xs) @ r"
  using count_bound [where f = enc and xs = xs and r = r, OF assms] by (auto simp: dec_guarded_def dec_seq_iff)

end

lemma enc_lengths:
  "12 \<le> length (enc_cm m)" "20 \<le> length (enc_pgs s)" "16 \<le> length (enc_sc t)"
  by (simp_all add: enc_cm_def enc_pgs_def enc_sc_def)

definition dec_members :: "u32 \<Rightarrow> bytes \<Rightarrow> (CheckpointMember list \<times> bytes) option" where
  "dec_members n bs =
     (if length bs < 4 then None else if unat n > (length bs - 4) div 12 then None
      else dec_seq dec_cm (unat n) bs)"

lemma dec_members_then:
  "dec_members n bs \<bind> (\<lambda>(ms, bs). (dec_word 4 bs :: (u32 \<times> bytes) option) \<bind> f ms) =
   dec_seq dec_cm (unat n) bs \<bind> (\<lambda>(ms, bs). (dec_word 4 bs :: (u32 \<times> bytes) option) \<bind> f ms)"
proof (cases "dec_seq dec_cm (unat n) bs")
  case None
  then show ?thesis by (simp add: dec_members_def)
next
  case (Some p)
  obtain ms r where p: "p = (ms, r)" by (cases p)
  then have b: "length ms = unat n" "bs = concat (map enc_cm ms) @ r"
    using Some by (auto simp: cm.dec_seq_iff)
  show ?thesis
  proof (cases "length r < 4")
    case True
    then have "(dec_word 4 r :: (u32 \<times> bytes) option) = None" by (simp add: dec_word_def)
    then show ?thesis using Some p by (auto simp: dec_members_def)
  next
    case False
    have "length ms * 12 \<le> length (concat (map enc_cm ms))"
      by (rule length_concat_ge) (rule enc_lengths)
    then have "\<not> unat n > (length bs - 4) div 12"
      using False b by (simp add: not_less less_eq_div_iff_mult_less_eq)
    then show ?thesis using False b by (simp add: dec_members_def)
  qed
qed

definition dec_state :: "u8 \<Rightarrow> bytes \<Rightarrow> (RoomStates \<times> bytes) option" where
  "dec_state v bs = (case byte_to_room_state v of None \<Rightarrow> None | Some s \<Rightarrow> Some (s, bs))"

lemma dec_state_iff: "dec_state v bs = Some (s, r) \<longleftrightarrow> v = room_state_to_byte s \<and> r = bs"
  by (cases s) (auto simp: dec_state_def byte_to_room_state_def split: option.splits if_splits)

definition enc_rc :: "RoomCheckpoint \<Rightarrow> bytes" where
  "enc_rc r = be_write 4 (rc_room_id r) @ be_write 8 (rc_capacity r) @ be_write 8 (rc_next_player_id r) @
     [room_state_to_byte (rc_state r)] @ be_write 8 (rc_tick_id r) @
     be_write 4 (of_nat (length (rc_members r)) :: u32) @ concat (map enc_cm (rc_members r)) @
     be_write 4 (of_nat (length (rc_game_states r)) :: u32) @ concat (map enc_pgs (rc_game_states r))"

definition rc_ok :: "RoomCheckpoint \<Rightarrow> bool" where
  "rc_ok r \<longleftrightarrow> fits_u32 (length (rc_members r)) \<and> fits_u32 (length (rc_game_states r)) \<and>
     list_all cm_ok (rc_members r)"

definition dec_rc :: "bytes \<Rightarrow> (RoomCheckpoint \<times> bytes) option" where
  "dec_rc bs = do {
     (k, bs) \<leftarrow> dec_word 4 bs; (c, bs) \<leftarrow> dec_word 8 bs; (i, bs) \<leftarrow> dec_word 8 bs;
     (v, bs) \<leftarrow> dec_word 1 bs; (t, bs) \<leftarrow> dec_word 8 bs; (n, bs) \<leftarrow> dec_word 4 bs;
     (s, bs) \<leftarrow> dec_state v bs; (ms, bs) \<leftarrow> dec_members n bs;
     (m, bs) \<leftarrow> dec_word 4 bs; (gs, bs) \<leftarrow> dec_guarded 20 dec_pgs m bs;
     Some (\<lparr>rc_room_id = k, rc_capacity = c, rc_next_player_id = i, rc_state = s, rc_tick_id = t,
       rc_members = ms, rc_game_states = gs\<rparr>, bs) }"

lemma dec_pgs_guarded_iff:
  "dec_guarded 20 dec_pgs n bs = Some (xs, r) \<longleftrightarrow> length xs = unat n \<and> bs = concat (map enc_pgs xs) @ r"
  using pgs.dec_guarded_iff [of 20 n bs xs r] enc_lengths by (simp add: list_all_iff)

interpretation rc: canonical_codec enc_rc dec_rc rc_ok
proof (rule canonical_codecI)
  fix bs m r
  show "dec_rc bs = Some (m, r) \<longleftrightarrow> rc_ok m \<and> bs = enc_rc m @ r"
    unfolding dec_rc_def dec_members_then
    by (cases m)
      (auto simp: enc_rc_def rc_ok_def bind_eq_Some_conv dec_iffs dec_state_iff cm.dec_seq_iff
        dec_pgs_guarded_iff unat_count_iff)
qed

lemma length_enc_rc: "37 \<le> length (enc_rc r)"
  by (simp add: enc_rc_def)

section \<open>Header and file\<close>

definition enc_header :: "file_header \<Rightarrow> bytes" where
  "enc_header h = be_write 4 (fh_version h) @ be_write 8 (fh_generation h) @ be_write 4 (fh_room_count h) @
     be_write 4 (fh_session_count h) @ be_write 8 (fh_payload_size h) @ be_write 8 (fh_checksum h)"

definition dec_header :: "bytes \<Rightarrow> (file_header \<times> bytes) option" where
  "dec_header bs = do {
     (v, bs) \<leftarrow> dec_word 4 bs; (g, bs) \<leftarrow> dec_word 8 bs; (n, bs) \<leftarrow> dec_word 4 bs;
     (m, bs) \<leftarrow> dec_word 4 bs; (z, bs) \<leftarrow> dec_word 8 bs; (c, bs) \<leftarrow> dec_word 8 bs;
     if bs \<noteq> [] then None
     else Some (\<lparr>fh_version = v, fh_generation = g, fh_room_count = n, fh_session_count = m,
       fh_payload_size = z, fh_checksum = c\<rparr>, bs) }"

lemma dec_header_iff: "dec_header bs = Some (h, r) \<longleftrightarrow> bs = enc_header h \<and> r = []"
  by (cases h) (auto simp: dec_header_def enc_header_def bind_eq_Some_conv dec_iffs split: if_splits)

definition payload_of :: "ServerCheckpoint \<Rightarrow> bytes" where
  "payload_of c = concat (map enc_rc (sv_rooms c)) @ concat (map enc_sc (sv_sessions c))"

definition header_of :: "ServerCheckpoint \<Rightarrow> file_header" where
  "header_of c = \<lparr>fh_version = CHECKPOINT_VERSION, fh_generation = sv_generation c,
     fh_room_count = of_nat (length (sv_rooms c)), fh_session_count = of_nat (length (sv_sessions c)),
     fh_payload_size = of_nat (length (payload_of c)),
     fh_checksum = checksum (payload_of c) 0 (length (payload_of c))\<rparr>"

definition file_of :: "ServerCheckpoint \<Rightarrow> bytes" where
  "file_of c = CHECKPOINT_MAGIC @ enc_header (header_of c) @ payload_of c"

definition counts_ok :: "ServerCheckpoint \<Rightarrow> bool" where
  "counts_ok c \<longleftrightarrow> fits_u32 (length (sv_rooms c)) \<and> fits_u32 (length (sv_sessions c))"

definition payload_ok :: "ServerCheckpoint \<Rightarrow> bool" where
  "payload_ok c \<longleftrightarrow> list_all rc_ok (sv_rooms c) \<and> list_all sc_ok (sv_sessions c) \<and>
     length (payload_of c) \<le> MAX_PAYLOAD_SIZE"

definition file_ok :: "ServerCheckpoint \<Rightarrow> bool" where
  "file_ok c \<longleftrightarrow> sv_generation c \<noteq> 0 \<and> counts_ok c \<and> valid_checkpoint_keys c \<and> payload_ok c"

definition dec_payload :: "file_header \<Rightarrow> bytes \<Rightarrow> (ServerCheckpoint \<times> bytes) option" where
  "dec_payload h bs = do {
     (rs, bs) \<leftarrow> dec_guarded 37 dec_rc (fh_room_count h) bs;
     (ss, bs) \<leftarrow> dec_guarded 16 dec_sc (fh_session_count h) bs;
     Some (\<lparr>sv_generation = fh_generation h, sv_rooms = rs, sv_sessions = ss\<rparr>, bs) }"

lemma dec_payload_iff:
  "dec_payload h bs = Some (c, r) \<longleftrightarrow>
     sv_generation c = fh_generation h \<and> length (sv_rooms c) = unat (fh_room_count h) \<and>
     length (sv_sessions c) = unat (fh_session_count h) \<and> list_all rc_ok (sv_rooms c) \<and>
     list_all sc_ok (sv_sessions c) \<and> bs = payload_of c @ r"
  by (cases c)
    (auto simp: dec_payload_def bind_eq_Some_conv payload_of_def rc.dec_guarded_iff length_enc_rc
      sc.dec_guarded_iff enc_lengths)

section \<open>The encoder writes the layout\<close>

lemma appends_cong: "appends L f x P \<Longrightarrow> x = y \<Longrightarrow> P = Q \<Longrightarrow> appends L f y Q"
  by simp

lemma append_members_appends:
  "appends MAX_PAYLOAD_SIZE (append_members ms) (concat (map enc_cm ms)) (list_all cm_ok ms)"
proof (induction ms)
  case Nil
  show ?case by (simp add: appends_def)
next
  case (Cons m ms)
  show ?case
    unfolding append_members.simps [abs_def]
    by (rule appends_cong, (rule append_intros Cons.IH)+) (simp_all add: enc_cm_def cm_ok_def)
qed

lemma append_game_states_appends:
  "appends MAX_PAYLOAD_SIZE (append_game_states ss) (concat (map enc_pgs ss)) True"
proof (induction ss)
  case Nil
  show ?case by (simp add: appends_def)
next
  case (Cons s ss)
  show ?case
    unfolding append_game_states.simps [abs_def]
    by (rule appends_cong, (rule append_intros Cons.IH)+) (simp_all add: enc_pgs_def int32_to_bits_def)
qed

lemma append_sessions_appends:
  "appends MAX_PAYLOAD_SIZE (append_sessions ss) (concat (map enc_sc ss)) (list_all sc_ok ss)"
proof (induction ss)
  case Nil
  show ?case by (simp add: appends_def)
next
  case (Cons s ss)
  show ?case
    unfolding append_sessions.simps [abs_def]
    by (rule appends_cong, (rule append_intros Cons.IH)+) (simp_all add: enc_sc_def sc_ok_def)
qed

lemma append_rooms_appends:
  "appends MAX_PAYLOAD_SIZE (append_rooms rs) (concat (map enc_rc rs)) (list_all rc_ok rs)"
proof (induction rs)
  case Nil
  show ?case by (simp add: appends_def)
next
  case (Cons r rs)
  have e: "append_rooms (r # rs) = (\<lambda>d. if \<not> (fits_u32 (length (rc_members r)) \<and> fits_u32 (length (rc_game_states r)))
      then None else append_rooms (r # rs) d)"
    by (auto simp: fun_eq_iff)
  show ?case
    unfolding append_rooms.simps [abs_def] de_Morgan_conj [symmetric]
    by (rule appends_cong, (rule append_intros append_members_appends append_game_states_appends Cons.IH)+)
      (simp_all add: enc_rc_def rc_ok_def conj_ac)
qed

lemma length_file_of: "length (file_of c) = CHECKPOINT_HEADER_SIZE + length (payload_of c)"
  by (simp add: file_of_def enc_header_def CHECKPOINT_MAGIC_def CHECKPOINT_HEADER_SIZE_def)

lemma append_file_eq:
  assumes "length (payload_of c) \<le> MAX_PAYLOAD_SIZE"
  shows "append_file c (payload_of c) = Some (file_of c)"
proof -
  have "appends MAX_CHECKPOINT_FILE_SIZE (\<lambda>d. do {
     result \<leftarrow> cc_append_bytes CHECKPOINT_MAGIC MAX_CHECKPOINT_FILE_SIZE d;
     result \<leftarrow> cc_append_u32 CHECKPOINT_VERSION MAX_CHECKPOINT_FILE_SIZE result;
     result \<leftarrow> cc_append_u64 (sv_generation c) MAX_CHECKPOINT_FILE_SIZE result;
     result \<leftarrow> cc_append_u32 (of_nat (length (sv_rooms c))) MAX_CHECKPOINT_FILE_SIZE result;
     result \<leftarrow> cc_append_u32 (of_nat (length (sv_sessions c))) MAX_CHECKPOINT_FILE_SIZE result;
     result \<leftarrow> cc_append_u64 (of_nat (length (payload_of c))) MAX_CHECKPOINT_FILE_SIZE result;
     result \<leftarrow> cc_append_u64 (checksum (payload_of c) 0 (length (payload_of c))) MAX_CHECKPOINT_FILE_SIZE result;
     cc_append_bytes (payload_of c) MAX_CHECKPOINT_FILE_SIZE result }) (file_of c) True"
    by (rule appends_cong, (rule append_intros)+) (simp_all add: file_of_def enc_header_def header_of_def)
  from appendsD [OF this, of "[]"] show ?thesis
    using assms unfolding append_file_def by (simp add: length_file_of codec_sizes)
qed

text \<open>All errors of the encoder, in the order it checks them.\<close>

lemma checkpoint_encode_eq:
  "checkpoint_encode c =
     (if sv_generation c = 0 then Inl cs_invalid_checkpoint
      else if \<not> counts_ok c then Inl cs_too_large
      else if \<not> valid_checkpoint_keys c then Inl cs_invalid_checkpoint
      else if \<not> payload_ok c then Inl cs_too_large
      else Inr (file_of c))"
proof -
  have b: "appends MAX_PAYLOAD_SIZE (\<lambda>d. append_rooms (sv_rooms c) d \<bind> append_sessions (sv_sessions c))
      (payload_of c) (list_all rc_ok (sv_rooms c) \<and> list_all sc_ok (sv_sessions c))"
    unfolding payload_of_def by (intro append_intros append_rooms_appends append_sessions_appends)
  have "append_rooms (sv_rooms c) [] \<bind> append_sessions (sv_sessions c) =
      (if payload_ok c then Some (payload_of c) else None)"
    using appendsD [OF b, of "[]"] by (auto simp: payload_ok_def)
  moreover have "payload_ok c \<Longrightarrow> append_file c (payload_of c) = Some (file_of c)"
    by (rule append_file_eq) (simp add: payload_ok_def)
  ultimately show ?thesis by (simp add: checkpoint_encode_def counts_ok_def)
qed

lemma checkpoint_encode_iff: "checkpoint_encode c = Inr d \<longleftrightarrow> file_ok c \<and> d = file_of c"
  by (auto simp: checkpoint_encode_eq file_ok_def)

section \<open>The decoder reads the layout\<close>

lemma reads_member: "reads rd_member dec_cm"
  unfolding rd_member_def [abs_def] dec_cm_def [abs_def] by (rule read_intros)+

lemma reads_game_state: "reads rd_game_state dec_pgs"
  unfolding rd_game_state_def [abs_def] dec_pgs_def [abs_def] by (rule read_intros)+

lemma reads_session: "reads rd_session dec_sc"
  unfolding rd_session_def [abs_def] dec_sc_def [abs_def] by (rule read_intros)+

lemma reads_state [read_intros]: "reads (rd_state v) (dec_state v)"
  by (auto simp: reads_def rd_state_def dec_state_def split: option.splits)

lemma reads_members [read_intros]: "reads (rd_members n) (dec_members n)"
  unfolding rd_members_def [abs_def] dec_members_def [abs_def] MIN_MEMBER_RECORD_SIZE_def
  by (rule read_intros reads_repeat reads_member)+ (simp_all add: rd_remaining_view)

lemma reads_game_states [read_intros]: "reads (rd_game_states n) (dec_guarded 20 dec_pgs n)"
  unfolding rd_game_states_def [abs_def] dec_guarded_def [abs_def] GAME_STATE_RECORD_SIZE_def
  by (rule read_intros reads_repeat reads_game_state)+ (simp_all add: rd_remaining_view)

lemma reads_sessions [read_intros]: "reads (rd_sessions n) (dec_guarded 16 dec_sc n)"
  unfolding rd_sessions_def [abs_def] dec_guarded_def [abs_def] MIN_SESSION_RECORD_SIZE_def
  by (rule read_intros reads_repeat reads_session)+ (simp_all add: rd_remaining_view)

lemma reads_room: "reads rd_room dec_rc"
  unfolding rd_room_def [abs_def] dec_rc_def [abs_def] One_nat_def [symmetric] by (rule read_intros)+

lemma reads_rooms [read_intros]: "reads (rd_rooms n) (dec_guarded 37 dec_rc n)"
  unfolding rd_rooms_def [abs_def] dec_guarded_def [abs_def] MIN_ROOM_RECORD_SIZE_def
  by (rule read_intros reads_repeat reads_room)+ (simp_all add: rd_remaining_view)

lemma reads_payload: "reads (rd_payload h) (dec_payload h)"
  unfolding rd_payload_def [abs_def] dec_payload_def [abs_def] by (rule read_intros)+

lemma reads_header: "reads rd_header dec_header"
  unfolding rd_header_def [abs_def] dec_header_def [abs_def]
  by (rule read_intros)+ (simp_all add: rd_finished_view)

lemma readsD:
  assumes "reads f d" and "rd_wf r"
  shows "f r = None \<Longrightarrow> d (rd_view r) = None"
    and "f r = Some (x, r') \<Longrightarrow> d (rd_view r) = Some (x, rd_view r') \<and> rd_wf r'"
  using assms(1) [unfolded reads_def, rule_format, OF assms(2)] by simp_all

text \<open>The decoder as a function of the three parts of the file; the checks are in the code's order.\<close>

lemma checkpoint_decode_eq:
  "checkpoint_decode d =
     (if length d > MAX_CHECKPOINT_FILE_SIZE then Inl cs_too_large
      else if length d < 40 then Inl cs_malformed_data
      else if take 4 d \<noteq> CHECKPOINT_MAGIC then Inl cs_malformed_data
      else case dec_header (take 36 (drop 4 d)) of
        None \<Rightarrow> Inl cs_malformed_data
      | Some (h, _) \<Rightarrow>
          if fh_version h \<noteq> CHECKPOINT_VERSION then Inl cs_unsupported_version
          else if fh_generation h = 0 then Inl cs_invalid_checkpoint
          else if fh_payload_size h \<noteq> of_nat (length (drop 40 d)) then Inl cs_malformed_data
          else if fh_checksum h \<noteq> checksum (drop 40 d) 0 (length (drop 40 d)) then Inl cs_checksum_mismatch
          else case dec_payload h (drop 40 d) of
            None \<Rightarrow> Inl cs_malformed_data
          | Some (c, rest) \<Rightarrow>
              if rest \<noteq> [] then Inl cs_malformed_data
              else if \<not> valid_checkpoint_keys c then Inl cs_invalid_checkpoint
              else Inr c)"
  (is "?lhs = ?rhs")
proof (cases "length d < 40 \<or> length d > MAX_CHECKPOINT_FILE_SIZE")
  case True
  then show ?thesis by (auto simp: checkpoint_decode_def CHECKPOINT_HEADER_SIZE_def)
next
  case False
  let ?r = "\<lparr>rd_data = d, rd_position = length CHECKPOINT_MAGIC, rd_end = CHECKPOINT_HEADER_SIZE\<rparr>"
  let ?p = "\<lparr>rd_data = d, rd_position = CHECKPOINT_HEADER_SIZE, rd_end = length d\<rparr>"
  have wr: "rd_wf ?r" and wp: "rd_wf ?p"
    using False by (auto simp: rd_wf_def CHECKPOINT_HEADER_SIZE_def CHECKPOINT_MAGIC_def)
  have vr: "rd_view ?r = take 36 (drop 4 d)" and vp: "rd_view ?p = drop 40 d"
    using False by (auto simp: rd_view_def CHECKPOINT_HEADER_SIZE_def CHECKPOINT_MAGIC_def numeral_eq_Suc)
  have "map_option fst (rd_header ?r) = map_option fst (dec_header (take 36 (drop 4 d)))"
    using readsD [OF reads_header wr] by (cases "rd_header ?r") (auto simp: vr)
  then have hdr: "(case rd_header ?r of None \<Rightarrow> Inl cs_malformed_data | Some (h, x) \<Rightarrow> F h) =
      (case dec_header (take 36 (drop 4 d)) of None \<Rightarrow> Inl cs_malformed_data | Some (h, x) \<Rightarrow> F h)"
      for F :: "file_header \<Rightarrow> CodecStates + ServerCheckpoint"
    by (cases "rd_header ?r"; cases "dec_header (take 36 (drop 4 d))") auto
  have pl: "(case rd_payload h ?p of None \<Rightarrow> Inl cs_malformed_data
      | Some (temp, r) \<Rightarrow> if \<not> rd_finished r then Inl cs_malformed_data else G temp) =
    (case dec_payload h (drop 40 d) of None \<Rightarrow> Inl cs_malformed_data
      | Some (c, rest) \<Rightarrow> if rest \<noteq> [] then Inl cs_malformed_data else G c)"
      for h and G :: "ServerCheckpoint \<Rightarrow> CodecStates + ServerCheckpoint"
    using readsD [OF reads_payload wp, of h]
    by (cases "rd_payload h ?p") (auto simp: vp rd_finished_view)
  have m: "length CHECKPOINT_MAGIC = 4" by (simp add: CHECKPOINT_MAGIC_def)
  have k: "checksum d CHECKPOINT_HEADER_SIZE (length (drop 40 d)) =
      checksum (drop 40 d) 0 (length (drop 40 d))" "length d - CHECKPOINT_HEADER_SIZE = length (drop 40 d)"
    by (simp_all add: checksum_def CHECKPOINT_HEADER_SIZE_def)
  show ?thesis
    unfolding checkpoint_decode_def hdr pl k using False
    by (simp add: m CHECKPOINT_HEADER_SIZE_def)
qed

lemma file_of_parts:
  "take 4 (file_of c) = CHECKPOINT_MAGIC" "take 36 (drop 4 (file_of c)) = enc_header (header_of c)"
  "drop 40 (file_of c) = payload_of c"
  by (simp_all add: file_of_def CHECKPOINT_MAGIC_def enc_header_def)

lemma checkpoint_decode_file_of:
  assumes "file_ok c"
  shows "checkpoint_decode (file_of c) = Inr c"
proof -
  have h: "dec_header (enc_header (header_of c)) = Some (header_of c, [])" by (simp add: dec_header_iff)
  have p: "dec_payload (header_of c) (payload_of c) = Some (c, [])"
    using assms by (simp add: dec_payload_iff file_ok_def counts_ok_def payload_ok_def header_of_def unat_u32_of_nat)
  have l: "\<not> length (file_of c) > MAX_CHECKPOINT_FILE_SIZE" "\<not> length (file_of c) < 40"
    using assms by (auto simp: file_ok_def payload_ok_def length_file_of codec_sizes)
  show ?thesis
    using assms l by (simp add: checkpoint_decode_eq file_of_parts h p) (simp add: header_of_def file_ok_def)
qed

lemma checkpoint_decode_generation_0:
  assumes "sv_generation c = 0" and "length (file_of c) \<le> MAX_CHECKPOINT_FILE_SIZE"
  shows "checkpoint_decode (file_of c) = Inl cs_invalid_checkpoint"
proof -
  have h: "dec_header (enc_header (header_of c)) = Some (header_of c, [])" by (simp add: dec_header_iff)
  have "\<not> length (file_of c) < 40" by (simp add: length_file_of CHECKPOINT_HEADER_SIZE_def)
  then show ?thesis
    using assms by (simp add: checkpoint_decode_eq file_of_parts h) (simp add: header_of_def)
qed

lemma checkpoint_decode_sound:
  assumes "checkpoint_decode d = Inr c"
  shows "file_ok c \<and> d = file_of c"
proof -
  have len: "length d \<le> MAX_CHECKPOINT_FILE_SIZE" "40 \<le> length d" and m: "take 4 d = CHECKPOINT_MAGIC"
    using assms by (auto simp: checkpoint_decode_eq split: if_splits)
  then obtain h x where dh: "dec_header (take 36 (drop 4 d)) = Some (h, x)"
    using assms by (auto simp: checkpoint_decode_eq split: option.splits)
  have v: "fh_version h = CHECKPOINT_VERSION" "fh_generation h \<noteq> 0"
      "fh_payload_size h = of_nat (length (drop 40 d))"
      "fh_checksum h = checksum (drop 40 d) 0 (length (drop 40 d))"
    using assms len m dh by (auto simp: checkpoint_decode_eq split: if_splits)
  have p: "dec_payload h (drop 40 d) = Some (c, [])" and k: "valid_checkpoint_keys c"
    using assms len m dh v by (auto simp: checkpoint_decode_eq split: if_splits option.splits)
  have pd: "drop 40 d = payload_of c" and cs: "sv_generation c = fh_generation h"
      "length (sv_rooms c) = unat (fh_room_count h)" "length (sv_sessions c) = unat (fh_session_count h)"
      "list_all rc_ok (sv_rooms c)" "list_all sc_ok (sv_sessions c)"
    using p by (simp_all add: dec_payload_iff)
  have "h = header_of c"
    using v cs(1-3) by (cases h) (simp add: header_of_def pd unat_count_iff)
  moreover have "d = take 4 d @ take 36 (drop 4 d) @ drop 40 d"
    using append_take_drop_id [of 4 d] append_take_drop_id [of 36 "drop 4 d"] by simp
  ultimately have "d = file_of c"
    using dh m pd by (simp add: dec_header_iff file_of_def)
  moreover have "length (payload_of c) \<le> MAX_PAYLOAD_SIZE"
    using len pd [symmetric] by (simp add: codec_sizes)
  ultimately show ?thesis
    using cs v(2) k unat_count_iff by (auto simp: file_ok_def counts_ok_def payload_ok_def)
qed

text \<open>C7: decoding and encoding are inverse to each other. The decoder accepts exactly the files
  the encoder writes, and returns the checkpoint they were written from; so nothing is lost in a
  file, no two checkpoints share one, and no file that was not written by the encoder (trailing
  bytes, other counts, duplicate keys, a wrong size or checksum) is ever accepted.\<close>

theorem decode_inverts_encode:
  "checkpoint_decode d = Inr c \<longleftrightarrow> checkpoint_encode c = Inr d"
  using checkpoint_decode_sound [of d c] checkpoint_decode_file_of [of c] by (auto simp: checkpoint_encode_iff)

section \<open>What the checksum protects\<close>

lemma fnv_prime_unit: "FNV_PRIME * 14886173955864302971 = 1"
  by (simp add: FNV_PRIME_def)

lemma fnv_step_inj: "fnv_step h b = fnv_step h' b \<Longrightarrow> h = h'"
proof -
  assume "fnv_step h b = fnv_step h' b"
  then have "(h XOR ucast b) * FNV_PRIME * 14886173955864302971 = (h' XOR ucast b) * FNV_PRIME * 14886173955864302971"
    by (simp only: fnv_step_def)
  then have "h XOR ucast b = h' XOR ucast b" by (simp only: mult.assoc fnv_prime_unit mult_1_right)
  then have "(h XOR ucast b) XOR ucast b = (h' XOR ucast b) XOR ucast b" by (simp only:)
  then show ?thesis by (simp add: xor.assoc)
qed

lemma fnv_step_byte: "fnv_step h b = fnv_step h b' \<Longrightarrow> b = b'"
proof -
  assume "fnv_step h b = fnv_step h b'"
  then have "(h XOR ucast b) * FNV_PRIME * 14886173955864302971 = (h XOR ucast b') * FNV_PRIME * 14886173955864302971"
    by (simp only: fnv_step_def)
  then have "h XOR ucast b = h XOR ucast b'" by (simp only: mult.assoc fnv_prime_unit mult_1_right)
  then have "h XOR (h XOR ucast b) = h XOR (h XOR ucast b')" by (simp only:)
  then have "(ucast b :: u64) = ucast b'" by (simp add: xor.assoc [symmetric])
  then have "unat (ucast b :: u64) = unat (ucast b' :: u64)" by (simp only:)
  then show ?thesis by (simp add: unsigned_ucast_eq take_bit_nat_eq_self unsigned_less [where ?'a = nat, THEN less_le_trans] word_unat_eq_iff)
qed

lemma fnv_fold_inj: "foldl fnv_step h xs = foldl fnv_step h' xs \<Longrightarrow> h = h'"
  by (induction xs arbitrary: h h') (auto dest: fnv_step_inj)

lemma checksum_update:
  assumes "j < length xs" and "b \<noteq> xs ! j"
  shows "checksum (xs[j := b]) 0 (length xs) \<noteq> checksum xs 0 (length xs)"
proof
  let ?h = "foldl fnv_step FNV_OFFSET_BASIS (take j xs)"
  assume "checksum (xs[j := b]) 0 (length xs) = checksum xs 0 (length xs)"
  then have "foldl fnv_step FNV_OFFSET_BASIS (take j xs @ b # drop (Suc j) xs) =
      foldl fnv_step FNV_OFFSET_BASIS (take j xs @ xs ! j # drop (Suc j) xs)"
    using assms(1) by (simp add: checksum_def upd_conv_take_nth_drop id_take_nth_drop [symmetric])
  then have "foldl fnv_step (fnv_step ?h b) (drop (Suc j) xs) = foldl fnv_step (fnv_step ?h (xs ! j)) (drop (Suc j) xs)"
    by simp
  then show False using assms(2) by (auto dest!: fnv_fold_inj fnv_step_byte)
qed


context canonical_codec
begin

lemma concat_inject:
  assumes "\<And>x. enc x \<noteq> []"
  shows "list_all ok xs \<Longrightarrow> list_all ok ys \<Longrightarrow> concat (map enc xs) = concat (map enc ys) \<Longrightarrow> xs = ys"
proof (induction xs arbitrary: ys)
  case Nil
  then show ?case using assms by (cases ys) auto
next
  case (Cons x xs)
  have "ys \<noteq> []" using Cons.prems assms [of x] by auto
  then obtain y ys' where ys: "ys = y # ys'" by (cases ys) simp_all
  have "ok x" "ok y" "list_all ok xs" "list_all ok ys'"
    "enc x @ concat (map enc xs) = enc y @ concat (map enc ys')"
    using Cons.prems by (simp_all add: ys)
  then have "x = y" "concat (map enc xs) = concat (map enc ys')" using enc_inject [of x y] by simp_all
  then have "x = y" "xs = ys'" using Cons.IH [of ys'] \<open>list_all ok xs\<close> \<open>list_all ok ys'\<close> by simp_all
  then show ?case by (simp add: ys)
qed

lemma concat_inject_prefix:
  assumes "list_all ok xs" and "list_all ok ys" and "length xs = length ys"
    and "concat (map enc xs) @ r = concat (map enc ys) @ r'"
  shows "xs = ys \<and> r = r'"
proof -
  have "Some (xs, r) = Some (ys, r')"
    using dec_seq_enc [OF assms(1), of r] dec_seq_enc [OF assms(2), of r'] unfolding assms(3,4) by (rule trans [OF sym])
  then show ?thesis by simp
qed

end

lemma new_sessions_tokens:
  "new_sessions ss ts ids \<Longrightarrow> s \<in> set ss \<Longrightarrow> valid_session_token (sc_token s)"
  by (induction ss ts ids rule: new_sessions.induct) (auto split: if_splits)

lemma length_sessions:
  assumes "valid_checkpoint_keys c"
  shows "length (concat (map enc_sc (sv_sessions c))) = 48 * length (sv_sessions c)"
proof -
  have "length (enc_sc s) = 48" if "s \<in> set (sv_sessions c)" for s
    using new_sessions_tokens [of "sv_sessions c" "{}" "{}" s] that assms
    by (simp add: valid_checkpoint_keys_def valid_session_token_def SESSION_TOKEN_SIZE_def enc_sc_def)
  then have "map length (map enc_sc (sv_sessions c)) = replicate (length (sv_sessions c)) 48"
    by (simp add: map_replicate_const [symmetric] cong: map_cong)
  then show ?thesis by (simp add: length_concat sum_list_replicate)
qed

text \<open>The payload determines one count from the other: session records have a fixed size.\<close>

lemma payload_counts:
  assumes "file_ok c" and "file_ok c'" and "payload_of c = payload_of c'"
    and "length (sv_rooms c) = length (sv_rooms c') \<or> length (sv_sessions c) = length (sv_sessions c')"
  shows "length (sv_rooms c) = length (sv_rooms c') \<and> length (sv_sessions c) = length (sv_sessions c')"
proof -
  note ok = assms(1,2)[unfolded file_ok_def payload_ok_def]
  have ls: "length (concat (map enc_sc (sv_sessions c))) = 48 * length (sv_sessions c)"
    "length (concat (map enc_sc (sv_sessions c'))) = 48 * length (sv_sessions c')"
    using ok by (simp_all add: length_sessions)
  have e: "concat (map enc_rc (sv_rooms c)) @ concat (map enc_sc (sv_sessions c)) =
      concat (map enc_rc (sv_rooms c')) @ concat (map enc_sc (sv_sessions c'))"
    using assms(3) by (simp add: payload_of_def)
  from assms(4) show ?thesis
  proof
    assume r: "length (sv_rooms c) = length (sv_rooms c')"
    then have "concat (map enc_sc (sv_sessions c)) = concat (map enc_sc (sv_sessions c'))"
      using rc.concat_inject_prefix [OF _ _ r e] ok by simp
    then have "48 * length (sv_sessions c) = 48 * length (sv_sessions c')" using ls by simp
    then show ?thesis using r by simp
  next
    assume s: "length (sv_sessions c) = length (sv_sessions c')"
    then have "concat (map enc_rc (sv_rooms c)) = concat (map enc_rc (sv_rooms c'))"
      using e ls by (simp add: append_eq_append_conv)
    moreover have "enc_rc r \<noteq> []" for r using length_enc_rc [of r] by auto
    ultimately have "sv_rooms c = sv_rooms c'"
      using rc.concat_inject [of "sv_rooms c" "sv_rooms c'"] ok by simp
    then show ?thesis using s by simp
  qed
qed

lemma file_of_layout:
  "file_of c = CHECKPOINT_MAGIC @ be_write 4 CHECKPOINT_VERSION @ be_write 8 (sv_generation c) @
     be_write 4 (of_nat (length (sv_rooms c)) :: u32) @ be_write 4 (of_nat (length (sv_sessions c)) :: u32) @
     be_write 8 (of_nat (length (payload_of c)) :: u64) @
     be_write 8 (checksum (payload_of c) 0 (length (payload_of c))) @ payload_of c"
  by (simp add: file_of_def enc_header_def header_of_def)

lemma length_header_start: "length CHECKPOINT_MAGIC = 4"
  by (simp add: CHECKPOINT_MAGIC_def)

lemma file_of_update_generation:
  assumes "8 \<le> i" and "i < 16"
  shows "(file_of c)[i := b] = file_of (c\<lparr>sv_generation := be_read (take 8 (drop 8 ((file_of c)[i := b])))\<rparr>)"
proof -
  obtain k where k: "i = 8 + k" "k < 8" using assms by (metis le_Suc_ex nat_add_left_cancel_less numeral_Bit0)
  let ?g = "(be_write 8 (sv_generation c))[k := b]"
  have u: "(file_of c)[i := b] = (CHECKPOINT_MAGIC @ be_write 4 CHECKPOINT_VERSION) @ ?g @
     be_write 4 (of_nat (length (sv_rooms c)) :: u32) @ be_write 4 (of_nat (length (sv_sessions c)) :: u32) @
     be_write 8 (of_nat (length (payload_of c)) :: u64) @
     be_write 8 (checksum (payload_of c) 0 (length (payload_of c))) @ payload_of c"
    using k by (simp add: file_of_layout list_update_append length_header_start not_less)
  have t: "take 8 (drop 8 ((file_of c)[i := b])) = ?g"
    unfolding u by (simp add: length_header_start)
  have "be_write 8 (be_read ?g :: u64) = ?g" by (rule be_write_read) simp_all
  moreover have "payload_of (c\<lparr>sv_generation := x\<rparr>) = payload_of c" for x by (simp add: payload_of_def)
  ultimately have "(file_of c)[i := b] = file_of (c\<lparr>sv_generation := be_read ?g\<rparr>)"
    unfolding u by (simp add: file_of_layout)
  then show ?thesis unfolding t .
qed

lemma file_of_counts:
  "take 4 (drop 16 (file_of c)) = be_write 4 (of_nat (length (sv_rooms c)) :: u32)"
  "take 4 (drop 20 (file_of c)) = be_write 4 (of_nat (length (sv_sessions c)) :: u32)"
  by (simp_all add: file_of_layout length_header_start)

lemma be_write_4_inj: "be_write 4 (a :: u32) = be_write 4 b \<Longrightarrow> a = b"
  using w32.enc_inject [where x = a and y = b and r = "[]" and r' = "[]"] by simp

lemma slice_update: "i < k \<or> k + n \<le> i \<Longrightarrow> take n (drop k (d[i := b])) = take n (drop k d)"
  by (auto simp: drop_update_swap take_update_swap list_eq_iff_nth_eq nth_list_update)

lemma file_of_change_detected:
  assumes ok: "file_ok c" "file_ok c'" and e: "(file_of c)[i := b] = file_of c'"
    and i: "i < 40" "i < 8 \<or> 16 \<le> i"
  shows "b = file_of c ! i"
proof -
  have "drop 40 ((file_of c)[i := b]) = drop 40 (file_of c)" using i(1) by simp
  then have p: "payload_of c' = payload_of c" by (simp add: e file_of_parts(3))
  have fits: "fits_u32 (length (sv_rooms c))" "fits_u32 (length (sv_rooms c'))"
    "fits_u32 (length (sv_sessions c))" "fits_u32 (length (sv_sessions c'))"
    using ok by (simp_all add: file_ok_def counts_ok_def)
  have inj: "m = n" if "be_write 4 (of_nat m :: u32) = be_write 4 (of_nat n :: u32)" "fits_u32 m" "fits_u32 n" for m n
    using be_write_4_inj [OF that(1)] that(2,3) unat_u32_of_nat by metis
  have "length (sv_rooms c) = length (sv_rooms c') \<or> length (sv_sessions c) = length (sv_sessions c')"
  proof (cases "16 \<le> i \<and> i < 20")
    case True
    then have "take 4 (drop 20 (file_of c')) = take 4 (drop 20 (file_of c))"
      unfolding e [symmetric] by (intro slice_update) simp
    then show ?thesis using inj fits by (simp add: file_of_counts)
  next
    case False
    then have "take 4 (drop 16 (file_of c')) = take 4 (drop 16 (file_of c))"
      unfolding e [symmetric] by (intro slice_update) auto
    then show ?thesis using inj fits by (simp add: file_of_counts)
  qed
  with payload_counts [OF ok p [symmetric]]
  have n: "length (sv_rooms c) = length (sv_rooms c')" "length (sv_sessions c) = length (sv_sessions c')"
    by simp_all
  have "i < length (file_of c)" using i(1) by (simp add: length_file_of CHECKPOINT_HEADER_SIZE_def)
  then have "b = file_of c' ! i" by (simp add: e [symmetric])
  also have "\<dots> = file_of c ! i"
    using i(2) by (auto simp: file_of_layout nth_append length_header_start p n)
  finally show ?thesis .
qed

text \<open>C39: a single corrupted byte in a checkpoint file is detected: in the payload always as a
  checksum mismatch, in the magic, version, counts, size and checksum fields by one of the
  checks. The exception is the generation (bytes 8 to 15): the checksum does not cover it, so
  the file is accepted as it was, under the generation the damaged bytes spell, unless
  that is zero.\<close>

theorem one_corrupted_byte_is_detected:
  assumes "checkpoint_decode d = Inr c" and "i < length d" and "b \<noteq> d ! i"
  shows "if 8 \<le> i \<and> i < 16
    then checkpoint_decode (d[i := b]) =
      (let g = be_read (take 8 (drop 8 (d[i := b]))) in
       if g = 0 then Inl cs_invalid_checkpoint else Inr (c\<lparr>sv_generation := g\<rparr>))
    else \<exists>e. checkpoint_decode (d[i := b]) = Inl e \<and> (40 \<le> i \<longrightarrow> e = cs_checksum_mismatch)"
proof -
  have ok: "file_ok c" and d: "d = file_of c" using checkpoint_decode_sound [OF assms(1)] by simp_all
  have len: "length d \<le> MAX_CHECKPOINT_FILE_SIZE" "40 \<le> length d"
    using ok by (auto simp: d length_file_of file_ok_def payload_ok_def codec_sizes)
  consider "8 \<le> i" "i < 16" | "i < 40" "i < 8 \<or> 16 \<le> i" | "40 \<le> i" by linarith
  then show ?thesis
  proof cases
    case 1
    obtain g :: u64 where g: "be_read (take 8 (drop 8 (d[i := b]))) = g" by simp
    let ?c = "c\<lparr>sv_generation := g\<rparr>"
    have u: "d[i := b] = file_of ?c" using file_of_update_generation [OF 1, of c b] g by (simp add: d)
    have "file_ok ?c" if "g \<noteq> 0"
      using ok that
      by (simp add: file_ok_def counts_ok_def payload_ok_def payload_of_def valid_checkpoint_keys_def)
    then have a: "g \<noteq> 0 \<Longrightarrow> checkpoint_decode (d[i := b]) = Inr ?c"
      unfolding u by (rule checkpoint_decode_file_of)
    have "length (file_of ?c) \<le> MAX_CHECKPOINT_FILE_SIZE" using len unfolding u [symmetric] by simp
    then have "checkpoint_decode (d[i := b]) = Inl cs_invalid_checkpoint" if "g = 0"
      unfolding u using that by (intro checkpoint_decode_generation_0) simp_all
    then show ?thesis using 1 a unfolding Let_def g by simp
  next
    case 2
    have "checkpoint_decode (d[i := b]) \<noteq> Inr c'" for c'
    proof
      assume "checkpoint_decode (d[i := b]) = Inr c'"
      then have "file_ok c'" "(file_of c)[i := b] = file_of c'"
        using checkpoint_decode_sound [of "d[i := b]" c'] by (simp_all add: d)
      then show False using file_of_change_detected [OF ok _ _ 2] assms(3) d by blast
    qed
    then show ?thesis using 2 by (cases "checkpoint_decode (d[i := b])") auto
  next
    case 3
    have n: "i - 40 < length (payload_of c)"
      using 3 assms(2) by (auto simp: d length_file_of CHECKPOINT_HEADER_SIZE_def)
    moreover have "payload_of c ! (i - 40) = d ! i"
      unfolding file_of_parts(3) [symmetric] d using 3 assms(2) by (simp add: d)
    ultimately have "i - 40 < length (payload_of c)" "b \<noteq> payload_of c ! (i - 40)" using assms(3) by simp_all
    then have "checksum ((payload_of c)[i - 40 := b]) 0 (length (payload_of c)) \<noteq>
        checksum (payload_of c) 0 (length (payload_of c))"
      by (rule checksum_update)
    moreover have "dec_header (enc_header (header_of c)) = Some (header_of c, [])" by (simp add: dec_header_iff)
    moreover have "take 4 (d[i := b]) = CHECKPOINT_MAGIC" "take 36 (drop 4 (d[i := b])) = enc_header (header_of c)"
      "drop 40 (d[i := b]) = (payload_of c)[i - 40 := b]"
      using 3 file_of_parts [of c] slice_update [of i 4 36 "file_of c" b]
      by (simp_all add: d drop_update_swap)
    ultimately show ?thesis
      using 3 len ok by (simp add: checkpoint_decode_eq) (simp add: header_of_def file_ok_def)
  qed
qed

text \<open>A checkpoint with one running room of one player and its session.\<close>

definition sample_checkpoint :: ServerCheckpoint where
  "sample_checkpoint = \<lparr>sv_generation = 7,
     sv_rooms = [\<lparr>rc_room_id = 1, rc_capacity = 1, rc_next_player_id = 2, rc_state = running, rc_tick_id = 3,
       rc_members = [\<lparr>cm_player_id = 1, cm_player_name = [97]\<rparr>],
       rc_game_states = [\<lparr>pgs_player_id = 1, pgs_x = - 5, pgs_y = 0, pgs_hp = 100\<rparr>]\<rparr>],
     sv_sessions = [\<lparr>sc_token = replicate 32 48, sc_room_id = 1, sc_player_id = 1\<rparr>]\<rparr>"

lemma sample_file: "file_ok sample_checkpoint" "file_of sample_checkpoint ! 40 = 0"
proof -
  show "file_ok sample_checkpoint"
    by (simp add: file_ok_def counts_ok_def payload_ok_def sample_checkpoint_def fits_u32_def rc_ok_def sc_ok_def
        cm_ok_def valid_checkpoint_keys_def valid_session_token_def SESSION_TOKEN_SIZE_def is_lower_hex_def
        payload_of_def enc_rc_def enc_cm_def enc_pgs_def enc_sc_def codec_sizes list_all_iff)
  show "file_of sample_checkpoint ! 40 = 0"
    by (simp add: file_of_layout nth_append length_header_start payload_of_def sample_checkpoint_def enc_rc_def)
      (simp add: be_write_def upt_rec)
qed

theorem one_corrupted_byte_is_detected_witness:
  "checkpoint_decode ((file_of sample_checkpoint)[40 := 1]) = Inl cs_checksum_mismatch"
proof -
  have l: "40 < length (file_of sample_checkpoint)"
    by (simp add: length_file_of CHECKPOINT_HEADER_SIZE_def payload_of_def sample_checkpoint_def enc_rc_def)
  show ?thesis
    using one_corrupted_byte_is_detected [OF checkpoint_decode_file_of [OF sample_file(1)] l, of 1]
    by (simp add: sample_file(2))
qed

end
