(* ===== verification/Checkpoint_Store.thy ===== *)
theory Checkpoint_Store
  imports Checkpoint_Format
begin

text \<open>
  \<open>CheckpointStore\<close> (\<open>src/checkpoint_store.cpp\<close>): checkpoints are handed to a writer thread that
  writes each to a temporary file, syncs it, renames it over the checkpoint file and syncs the
  directory. Every critical section of the mutex and every system call is one step. What the
  code uses of the file system is modelled down to a crash: contents of a file are safe once it
  was synced, a rename is atomic, and until the directory is synced a crash may find it in any
  state it went through since the last sync. What a system call answers is given by an
  \<open>outcome\<close>.
\<close>

section \<open>Files\<close>

type_synonym path = bytes
type_synonym inode = nat

record fs =
  f_dir :: "path \<Rightarrow> inode option"
  f_past :: "(path \<Rightarrow> inode option) list" \<comment> \<open>what else a crash may leave of the directory\<close>
  f_data :: "inode \<Rightarrow> bytes"
  f_synced :: "inode \<Rightarrow> bool"
  f_next :: inode

datatype outcome = Returned nat | Eintr | Failed

definition fs_new :: fs where
  "fs_new = \<lparr>f_dir = (\<lambda>_. None), f_past = [], f_data = (\<lambda>_. []), f_synced = (\<lambda>_. True), f_next = 0\<rparr>"

definition fs_set_dir :: "(path \<Rightarrow> inode option) \<Rightarrow> fs \<Rightarrow> fs" where
  "fs_set_dir d f = f\<lparr>f_dir := d, f_past := f_dir f # f_past f\<rparr>"

text \<open>\<open>open\<close> with \<open>O_WRONLY | O_CREAT | O_TRUNC\<close>.\<close>

definition fs_create :: "path \<Rightarrow> fs \<Rightarrow> inode \<times> fs" where
  "fs_create p f = (case f_dir f p of
       Some i \<Rightarrow> (i, f\<lparr>f_data := (f_data f)(i := []), f_synced := (f_synced f)(i := False)\<rparr>)
     | None \<Rightarrow> let i = f_next f in
         (i, fs_set_dir ((f_dir f)(p := Some i))
           (f\<lparr>f_data := (f_data f)(i := []), f_synced := (f_synced f)(i := False), f_next := Suc i\<rparr>)))"

definition fs_append :: "inode \<Rightarrow> bytes \<Rightarrow> fs \<Rightarrow> fs" where
  "fs_append i d f = f\<lparr>f_data := (f_data f)(i := f_data f i @ d), f_synced := (f_synced f)(i := False)\<rparr>"

definition fs_sync :: "inode \<Rightarrow> fs \<Rightarrow> fs" where
  "fs_sync i f = f\<lparr>f_synced := (f_synced f)(i := True)\<rparr>"

definition fs_unlink :: "path \<Rightarrow> fs \<Rightarrow> fs" where
  "fs_unlink p f = fs_set_dir ((f_dir f)(p := None)) f"

definition fs_rename :: "path \<Rightarrow> path \<Rightarrow> fs \<Rightarrow> fs" where
  "fs_rename p q f = fs_set_dir ((f_dir f)(q := f_dir f p, p := None)) f"

text \<open>\<open>parent_directory\<close>, and \<open>fsync\<close> on it: its entries on disk become the current ones.\<close>

definition parent_directory :: "path \<Rightarrow> path" where
  "parent_directory p =
     (if 0x2F \<notin> set p then [0x2E]
      else let position = length (dropWhile (\<lambda>c. c \<noteq> 0x2F) (rev p)) - 1 in
        if position = 0 then [0x2F] else take position p)"

definition fs_sync_dir :: "path \<Rightarrow> fs \<Rightarrow> fs" where
  "fs_sync_dir d f = f\<lparr>f_past := map (\<lambda>D p. if parent_directory p = d then f_dir f p else D p) (f_past f)\<rparr>"

definition fs_crash :: "fs \<Rightarrow> fs \<Rightarrow> bool" where
  "fs_crash f f' \<longleftrightarrow> f_dir f' \<in> set (f_dir f # f_past f) \<and> f_past f' = [] \<and>
     (\<forall>i. f_synced f i \<longrightarrow> f_data f' i = f_data f i) \<and> f_synced f' = (\<lambda>_. True) \<and> f_next f' = f_next f"

definition fs_read :: "path \<Rightarrow> fs \<Rightarrow> bytes option" where
  "fs_read p f = map_option (f_data f) (f_dir f p)"

section \<open>\<open>CheckpointStore\<close>\<close>

record CheckpointStore =
  cs_path :: path
  cs_temporary_path :: path
  cs_valid :: bool
  cs_started :: bool
  cs_stopping :: bool
  cs_writing :: bool
  cs_pending :: "ServerCheckpoint option"
  cs_last_submitted :: u64
  cs_last_committed :: u64
  cs_last_failed :: u64

definition CheckpointStore_new :: "path \<Rightarrow> CheckpointStore" where
  "CheckpointStore_new p = \<lparr>cs_path = p, cs_temporary_path = p @ [0x2E, 0x74, 0x6D, 0x70], cs_valid = (p \<noteq> []),
     cs_started = False, cs_stopping = False, cs_writing = False, cs_pending = None,
     cs_last_submitted = 0, cs_last_committed = 0, cs_last_failed = 0\<rparr>"

datatype Loadstates = ld_success | ld_not_found | ld_invalid_state | ld_io_error | ld_decode_error

definition READ_BUFFER_SIZE :: nat where "READ_BUFFER_SIZE = 8192"

text \<open>The loop of \<open>load\<close> over the rest of the file: \<open>read\<close> gives at least one byte unless nothing
  is left, at most a buffer full, or fails. \<open>None\<close>: the outcomes end before the loop does.
  The result is whether reading failed, whether the file was too large, and the data.\<close>

primrec load_loop :: "outcome list \<Rightarrow> bytes \<Rightarrow> bytes \<Rightarrow> (bool \<times> bool \<times> bytes) option" where
  "load_loop [] rest data = None"
| "load_loop (a # os) rest data =
     (case a of
        Returned n \<Rightarrow>
          let count = min (max 1 n) (min READ_BUFFER_SIZE (length rest)) in
          if count > 0 then
            if count > MAX_CHECKPOINT_FILE_SIZE \<or> length data > MAX_CHECKPOINT_FILE_SIZE - count
            then Some (False, True, data)
            else load_loop os (drop count rest) (data @ take count rest)
          else Some (False, False, data)
      | Eintr \<Rightarrow> load_loop os rest data
      | Failed \<Rightarrow> Some (True, False, data))"

definition cs_busy :: "CheckpointStore \<Rightarrow> bool" where
  "cs_busy s \<longleftrightarrow> \<not> cs_valid s \<or> cs_started s \<or> cs_stopping s \<or> cs_writing s \<or> cs_pending s \<noteq> None"

definition store_load ::
  "fs \<Rightarrow> bool \<Rightarrow> outcome list \<Rightarrow> bool \<Rightarrow> CheckpointStore \<Rightarrow> (Loadstates \<times> ServerCheckpoint option \<times> CheckpointStore) option" where
  "store_load f open_ok os close_ok s =
     (if cs_busy s then Some (ld_invalid_state, None, s)
      else if \<not> open_ok then Some (ld_io_error, None, s)
      else case fs_read (cs_path s) f of
        None \<Rightarrow> Some (ld_not_found, None, s)
      | Some content \<Rightarrow>
          (case load_loop os content [] of
             None \<Rightarrow> None
           | Some (read_failed, file_too_large, data) \<Rightarrow>
               Some (if read_failed \<or> \<not> close_ok then (ld_io_error, None, s)
                 else if file_too_large then (ld_decode_error, None, s)
                 else case checkpoint_decode data of
                   Inl _ \<Rightarrow> (ld_decode_error, None, s)
                 | Inr checkpoint \<Rightarrow>
                     (ld_success, Some checkpoint, s\<lparr>cs_last_submitted := sv_generation checkpoint,
                        cs_last_committed := sv_generation checkpoint\<rparr>))))"

definition store_start :: "bool \<Rightarrow> CheckpointStore \<Rightarrow> bool \<times> CheckpointStore" where
  "store_start thread_ok s =
     (if cs_busy s then (False, s)
      else if \<not> thread_ok then (False, s)
      else (True, s\<lparr>cs_started := True\<rparr>))"

definition store_submit :: "ServerCheckpoint \<Rightarrow> CheckpointStore \<Rightarrow> bool \<times> CheckpointStore" where
  "store_submit checkpoint s =
     (let generation = sv_generation checkpoint in
      if \<not> cs_valid s \<or> \<not> cs_started s \<or> cs_stopping s \<or> generation = 0 \<or> generation \<le> cs_last_submitted s
      then (False, s)
      else (True, s\<lparr>cs_pending := Some checkpoint, cs_last_submitted := generation\<rparr>))"

text \<open>\<open>flush\<close> waits until \<open>flush_ready\<close> (at once when the store is not valid), then returns.\<close>

definition flush_ready :: "CheckpointStore \<Rightarrow> bool" where
  "flush_ready s \<longleftrightarrow> \<not> cs_valid s \<or> cs_pending s = None \<and> \<not> cs_writing s"

definition flush_result :: "CheckpointStore \<Rightarrow> bool" where
  "flush_result s \<longleftrightarrow> cs_valid s \<and> cs_last_submitted s = cs_last_committed s"

text \<open>\<open>stop\<close>: before the thread is joined (\<open>Some\<close>: returns at once), and after.\<close>

definition stop_request :: "CheckpointStore \<Rightarrow> bool option \<times> CheckpointStore" where
  "stop_request s =
     (if \<not> cs_started s then (Some (cs_valid s \<and> cs_last_submitted s = cs_last_committed s), s)
      else (None, s\<lparr>cs_stopping := True\<rparr>))"

definition stop_finish :: "CheckpointStore \<Rightarrow> bool \<times> CheckpointStore" where
  "stop_finish s = (cs_last_submitted s = cs_last_committed s,
     s\<lparr>cs_started := False, cs_stopping := False, cs_writing := False\<rparr>)"

definition store_states :: "CheckpointStore \<Rightarrow> u64 \<times> u64 \<times> u64" where
  "store_states s = (cs_last_submitted s, cs_last_committed s, cs_last_failed s)"

section \<open>\<open>commit_checkpoint\<close>\<close>

datatype CommitPc =
    CpEncode ServerCheckpoint | CpOpen bytes | CpWrite bytes nat inode | CpSync inode | CpAbort
  | CpClose | CpUnlink | CpRename | CpDirOpen | CpDirSync | CpDirClose bool | CpDone bool

text \<open>\<open>write_all\<close> has an offset into the data; it is over when everything is written.\<close>

definition next_write :: "bytes \<Rightarrow> nat \<Rightarrow> inode \<Rightarrow> CommitPc" where
  "next_write data offset i = (if offset < length data then CpWrite data offset i else CpSync i)"

text \<open>Where \<open>EINTR\<close> is not tried again it is a failure like any other.\<close>

fun call_ok :: "outcome \<Rightarrow> bool" where
  "call_ok (Returned n) = True"
| "call_ok _ = False"

fun commit_step :: "CheckpointStore \<Rightarrow> outcome \<Rightarrow> CommitPc \<Rightarrow> fs \<Rightarrow> CommitPc \<times> fs" where
  "commit_step s a (CpEncode checkpoint) f =
     (case checkpoint_encode checkpoint of Inl _ \<Rightarrow> (CpDone False, f) | Inr data \<Rightarrow> (CpOpen data, f))"
| "commit_step s a (CpOpen data) f =
     (if \<not> call_ok a then (CpDone False, f)
      else case fs_create (cs_temporary_path s) f of (i, f') \<Rightarrow> (next_write data 0 i, f'))"
| "commit_step s a (CpWrite data offset i) f =
     (case a of
        Returned n \<Rightarrow>
          let written = min n (length data - offset) in
          if written > 0
          then (next_write data (offset + written) i, fs_append i (take written (drop offset data)) f)
          else (CpAbort, f)
      | Eintr \<Rightarrow> (CpWrite data offset i, f)
      | Failed \<Rightarrow> (CpAbort, f))"
| "commit_step s a (CpSync i) f =
     (case a of Returned _ \<Rightarrow> (CpClose, fs_sync i f) | Eintr \<Rightarrow> (CpSync i, f) | Failed \<Rightarrow> (CpAbort, f))"
| "commit_step s a CpAbort f = (CpUnlink, f)"
| "commit_step s a CpClose f = (if \<not> call_ok a then (CpUnlink, f) else (CpRename, f))"
| "commit_step s a CpRename f =
     (if \<not> call_ok a then (CpUnlink, f) else (CpDirOpen, fs_rename (cs_temporary_path s) (cs_path s) f))"
| "commit_step s a CpUnlink f =
     (CpDone False, if \<not> call_ok a then f else fs_unlink (cs_temporary_path s) f)"
| "commit_step s a CpDirOpen f = (if \<not> call_ok a then (CpDone False, f) else (CpDirSync, f))"
| "commit_step s a CpDirSync f =
     (case a of
        Returned _ \<Rightarrow> (CpDirClose True, fs_sync_dir (parent_directory (cs_path s)) f)
      | Eintr \<Rightarrow> (CpDirSync, f)
      | Failed \<Rightarrow> (CpDirClose False, f))"
| "commit_step s a (CpDirClose directory_synced) f = (CpDone (directory_synced \<and> call_ok a), f)"
| "commit_step s a (CpDone committed) f = (CpDone committed, f)"

fun commit_run :: "CheckpointStore \<Rightarrow> outcome list \<Rightarrow> CommitPc \<Rightarrow> fs \<Rightarrow> CommitPc \<times> fs" where
  "commit_run s [] pc f = (pc, f)"
| "commit_run s (a # os) pc f = (case commit_step s a pc f of (pc', f') \<Rightarrow> commit_run s os pc' f')"

section \<open>\<open>thread_main\<close>\<close>

datatype writer = wr_none | wr_waiting | wr_committing ServerCheckpoint CommitPc | wr_exited

text \<open>The critical section before a commit: \<open>None\<close> while the condition is waited for.\<close>

definition thread_take :: "CheckpointStore \<Rightarrow> (writer \<times> CheckpointStore) option" where
  "thread_take s =
     (if \<not> (cs_stopping s \<or> cs_pending s \<noteq> None) then None
      else case cs_pending s of
        None \<Rightarrow> Some (wr_exited, s)
      | Some checkpoint \<Rightarrow>
          Some (wr_committing checkpoint (CpEncode checkpoint), s\<lparr>cs_pending := None, cs_writing := True\<rparr>))"

definition thread_finish :: "ServerCheckpoint \<Rightarrow> bool \<Rightarrow> CheckpointStore \<Rightarrow> CheckpointStore" where
  "thread_finish checkpoint committed s =
     (let s' = s\<lparr>cs_writing := False\<rparr> in
      if committed then s'\<lparr>cs_last_committed := sv_generation checkpoint\<rparr>
      else s'\<lparr>cs_last_failed := sv_generation checkpoint\<rparr>)"

section \<open>All threads\<close>

text \<open>
  The history variables: the checkpoints ever accepted; the last one the writer reported as
  committed, and those accepted since it was taken up; the generation the present process loaded.
\<close>

record store_world =
  sw_store :: CheckpointStore
  sw_writer :: writer
  sw_fs :: fs
  sw_accepted :: "ServerCheckpoint list"
  sw_committed :: "ServerCheckpoint option"
  sw_newer :: "ServerCheckpoint list"
  sw_loaded :: u64

text \<open>A new process finds the files as they are; nothing else survives.\<close>

definition boot :: "fs \<Rightarrow> store_world \<Rightarrow> store_world" where
  "boot f w = w\<lparr>sw_store := CheckpointStore_new (cs_path (sw_store w)), sw_writer := wr_none, sw_fs := f,
     sw_loaded := 0\<rparr>"

definition first_boot :: "path \<Rightarrow> store_world" where
  "first_boot p = \<lparr>sw_store = CheckpointStore_new p, sw_writer = wr_none, sw_fs = fs_new, sw_accepted = [],
     sw_committed = None, sw_newer = [], sw_loaded = 0\<rparr>"

definition after_load :: "Loadstates \<Rightarrow> CheckpointStore \<Rightarrow> store_world \<Rightarrow> store_world" where
  "after_load r s w = w\<lparr>sw_store := s, sw_loaded := if r = ld_success then cs_last_submitted s else sw_loaded w\<rparr>"

definition after_submit :: "ServerCheckpoint \<Rightarrow> bool \<Rightarrow> CheckpointStore \<Rightarrow> store_world \<Rightarrow> store_world" where
  "after_submit c ok s w = (if ok
     then w\<lparr>sw_store := s, sw_accepted := c # sw_accepted w, sw_newer := c # sw_newer w\<rparr>
     else w\<lparr>sw_store := s\<rparr>)"

definition after_finish :: "ServerCheckpoint \<Rightarrow> bool \<Rightarrow> store_world \<Rightarrow> store_world" where
  "after_finish c committed w =
     (let w' = w\<lparr>sw_store := thread_finish c committed (sw_store w), sw_writer := wr_waiting\<rparr> in
      if committed
      then w'\<lparr>sw_committed := Some c,
        sw_newer := (case cs_pending (sw_store w) of None \<Rightarrow> [] | Some q \<Rightarrow> [q])\<rparr>
      else w')"

inductive store_step :: "store_world \<Rightarrow> store_world \<Rightarrow> bool" where
  ss_load: "store_load (sw_fs w) open_ok os close_ok (sw_store w) = Some (r, c, s) \<Longrightarrow>
    store_step w (after_load r s w)"
| ss_start: "store_start thread_ok (sw_store w) = (ok, s) \<Longrightarrow>
    store_step w (w\<lparr>sw_store := s, sw_writer := if ok then wr_waiting else sw_writer w\<rparr>)"
| ss_submit: "store_submit c (sw_store w) = (ok, s) \<Longrightarrow> store_step w (after_submit c ok s w)"
| ss_take: "sw_writer w = wr_waiting \<Longrightarrow> thread_take (sw_store w) = Some (wr, s) \<Longrightarrow>
    store_step w (w\<lparr>sw_store := s, sw_writer := wr\<rparr>)"
| ss_commit: "sw_writer w = wr_committing c pc \<Longrightarrow> commit_step (sw_store w) a pc (sw_fs w) = (pc', f) \<Longrightarrow>
    store_step w (w\<lparr>sw_writer := wr_committing c pc', sw_fs := f\<rparr>)"
| ss_finish: "sw_writer w = wr_committing c (CpDone committed) \<Longrightarrow> store_step w (after_finish c committed w)"
| ss_stop: "stop_request (sw_store w) = (r, s) \<Longrightarrow> store_step w (w\<lparr>sw_store := s\<rparr>)"
| ss_join: "sw_writer w = wr_exited \<Longrightarrow> stop_finish (sw_store w) = (r, s) \<Longrightarrow>
    store_step w (w\<lparr>sw_store := s, sw_writer := wr_none\<rparr>)"
| ss_restart: "store_step w (boot (sw_fs w) w)"
| ss_crash: "fs_crash (sw_fs w) f \<Longrightarrow> store_step w (boot f w)"

inductive_cases store_stepE: "store_step w w'"

end
