(* ===== verification/Store_Laws.thy ===== *)
theory Store_Laws
  imports Checkpoint_Store
begin

text \<open>
  What \<open>CheckpointStore\<close> guarantees: at every moment, whatever has failed and wherever the
  process or the machine stops, the checkpoint file is a complete checkpoint that was accepted,
  and at least as new as the last one reported as committed; and what \<open>flush\<close> answers is true.
\<close>

section \<open>The disk\<close>

definition dirs :: "fs \<Rightarrow> (path \<Rightarrow> inode option) set" where
  "dirs f = set (f_dir f # f_past f)"

text \<open>In every state the disk may be in, the checkpoint file \<open>p\<close> holds a checkpoint of \<open>K\<close> (or,
  where \<open>opt\<close> allows it, does not exist), and the temporary file \<open>t\<close> is a different file.\<close>

definition file_good :: "ServerCheckpoint set \<Rightarrow> fs \<Rightarrow> inode \<Rightarrow> bool" where
  "file_good K f i \<longleftrightarrow> i < f_next f \<and> f_synced f i \<and> (\<exists>c\<in>K. file_ok c \<and> f_data f i = file_of c)"

definition dir_ok :: "bool \<Rightarrow> ServerCheckpoint set \<Rightarrow> path \<Rightarrow> path \<Rightarrow> fs \<Rightarrow> (path \<Rightarrow> inode option) \<Rightarrow> bool" where
  "dir_ok opt K p t f D \<longleftrightarrow> (D p = None \<longrightarrow> opt) \<and> (\<forall>i. D p = Some i \<longrightarrow> file_good K f i) \<and>
     (\<forall>i. D t = Some i \<longrightarrow> i < f_next f \<and> D p \<noteq> Some i)"

definition disk_inv :: "bool \<Rightarrow> ServerCheckpoint set \<Rightarrow> path \<Rightarrow> path \<Rightarrow> fs \<Rightarrow> bool" where
  "disk_inv opt K p t f \<longleftrightarrow> (\<forall>D\<in>dirs f. dir_ok opt K p t f D) \<and>
     (\<forall>i D. f_dir f t = Some i \<longrightarrow> D \<in> dirs f \<longrightarrow> D p \<noteq> Some i)"

lemma dirs_simps [simp]:
  "f_dir f \<in> dirs f"
  "dirs (fs_set_dir d f) = insert d (dirs f)"
  "dirs (fs_append i x f) = dirs f" "dirs (fs_sync i f) = dirs f"
  "dirs (f\<lparr>f_data := x1\<rparr>) = dirs f" "dirs (f\<lparr>f_synced := x2\<rparr>) = dirs f" "dirs (f\<lparr>f_next := x3\<rparr>) = dirs f"
  by (simp_all add: dirs_def fs_set_dir_def fs_append_def fs_sync_def)

lemma fs_set_dir_simps [simp]:
  "f_dir (fs_set_dir d f) = d" "f_data (fs_set_dir d f) = f_data f" "f_synced (fs_set_dir d f) = f_synced f"
  "f_next (fs_set_dir d f) = f_next f"
  by (simp_all add: fs_set_dir_def)

lemma dir_ok_cong:
  "D p = D' p \<Longrightarrow> D t = D' t \<Longrightarrow> dir_ok opt K p t f D = dir_ok opt K p t f D'"
  by (simp add: dir_ok_def)

lemma dir_ok_change:
  assumes "dir_ok opt K p t f D" and "f_next f \<le> f_next f'"
    and "\<And>i. D p = Some i \<Longrightarrow> i < f_next f \<Longrightarrow> f_synced f i \<Longrightarrow> f_data f' i = f_data f i \<and> f_synced f' i"
  shows "dir_ok opt K p t f' D"
  using assms unfolding dir_ok_def file_good_def by fastforce

lemma file_good_mono: "K \<subseteq> K' \<Longrightarrow> file_good K f i \<Longrightarrow> file_good K' f i"
  by (auto simp: file_good_def)

lemma dir_ok_mono:
  "dir_ok opt K p t f D \<Longrightarrow> K \<subseteq> K' \<Longrightarrow> (opt \<longrightarrow> opt') \<Longrightarrow> dir_ok opt' K' p t f D"
  using file_good_mono [of K K' f] by (simp add: dir_ok_def)

lemma disk_inv_mono: "disk_inv opt K p t f \<Longrightarrow> K \<subseteq> K' \<Longrightarrow> (opt \<longrightarrow> opt') \<Longrightarrow> disk_inv opt' K' p t f"
  using dir_ok_mono [of opt K p t f] by (simp add: disk_inv_def)

lemma disk_inv_dir: "disk_inv opt K p t f \<Longrightarrow> D \<in> dirs f \<Longrightarrow> dir_ok opt K p t f D"
  by (simp add: disk_inv_def)

lemma disk_inv_file: "disk_inv opt K p t f \<Longrightarrow> D \<in> dirs f \<Longrightarrow> D p = Some i \<Longrightarrow> file_good K f i"
  by (auto simp: disk_inv_def dir_ok_def)

lemma disk_inv_tmp:
  "disk_inv opt K p t f \<Longrightarrow> f_dir f t = Some i \<Longrightarrow> i < f_next f \<and> (\<forall>D\<in>dirs f. D p \<noteq> Some i)"
  using dirs_simps(1) [of f] unfolding disk_inv_def dir_ok_def by blast

lemma disk_inv_new: "disk_inv True K p t fs_new"
  by (simp add: disk_inv_def dir_ok_def dirs_def fs_new_def)

lemma disk_inv_change:
  assumes inv: "disk_inv opt K p t f" and "dirs f' = dirs f" and "f_dir f' = f_dir f" and le: "f_next f \<le> f_next f'"
    and keep: "\<And>i D. D \<in> dirs f \<Longrightarrow> D p = Some i \<Longrightarrow> f_data f' i = f_data f i \<and> (f_synced f i \<longrightarrow> f_synced f' i)"
  shows "disk_inv opt K p t f'"
proof -
  have "dir_ok opt K p t f' D" if "D \<in> dirs f" for D
    by (rule dir_ok_change [OF disk_inv_dir [OF inv that] le]) (use keep [OF that] in blast)
  then show ?thesis using inv assms(2,3) by (simp add: disk_inv_def)
qed

lemma disk_inv_set_dir:
  assumes "disk_inv opt K p t f" and "dir_ok opt K p t f d"
    and "\<And>i. d t = Some i \<Longrightarrow> d p \<noteq> Some i \<and> (\<forall>D\<in>dirs f. D p \<noteq> Some i)"
  shows "disk_inv opt K p t (fs_set_dir d f)"
proof -
  have "dir_ok opt K p t (fs_set_dir d f) D" if "dir_ok opt K p t f D" for D
    by (rule dir_ok_change [OF that]) simp_all
  then show ?thesis using assms by (auto simp: disk_inv_def)
qed

lemma disk_inv_create:
  assumes inv: "disk_inv opt K p t f" and pt: "p \<noteq> t" and e: "fs_create t f = (i, f')"
  shows "disk_inv opt K p t f' \<and> f_dir f' t = Some i \<and> f_data f' i = []"
proof (cases "f_dir f t")
  case (Some j)
  then have f': "i = j" "f' = f\<lparr>f_data := (f_data f)(j := []), f_synced := (f_synced f)(j := False)\<rparr>"
    using e by (auto simp: fs_create_def)
  have "\<forall>D\<in>dirs f. D p \<noteq> Some j" using disk_inv_tmp [OF inv Some] by simp
  then have "disk_inv opt K p t f'" by (intro disk_inv_change [OF inv]) (auto simp: f'(2))
  then show ?thesis using Some f' by simp
next
  case None
  let ?g = "f\<lparr>f_data := (f_data f)(i := []), f_synced := (f_synced f)(i := False), f_next := Suc i\<rparr>"
  have f': "i = f_next f" "f' = fs_set_dir ((f_dir f)(t := Some i)) ?g"
    using None e by (auto simp: fs_create_def Let_def)
  have new: "D p \<noteq> Some i" if "D \<in> dirs f" for D
    using disk_inv_file [OF inv that, of i] by (auto simp: f'(1) file_good_def)
  have g: "disk_inv opt K p t ?g" by (rule disk_inv_change [OF inv]) (auto simp: f'(1) dest: new)
  have cur: "dir_ok opt K p t ?g (f_dir f)" using disk_inv_dir [OF g] dirs_simps(1) [of ?g] by simp
  have "disk_inv opt K p t f'" unfolding f'(2)
  proof (rule disk_inv_set_dir [OF g])
    show "dir_ok opt K p t ?g ((f_dir f)(t := Some i))"
      using cur pt new [OF dirs_simps(1)] by (auto simp: dir_ok_def)
    fix j assume "((f_dir f)(t := Some i)) t = Some j"
    then show "((f_dir f)(t := Some i)) p \<noteq> Some j \<and> (\<forall>D\<in>dirs ?g. D p \<noteq> Some j)"
      using pt new new [OF dirs_simps(1)] by auto
  qed
  then show ?thesis by (simp add: f'(2))
qed

lemma disk_inv_append:
  assumes "disk_inv opt K p t f" and "f_dir f t = Some i"
  shows "disk_inv opt K p t (fs_append i d f)"
proof -
  have "\<forall>D\<in>dirs f. D p \<noteq> Some i" using disk_inv_tmp [OF assms] by simp
  then show ?thesis by (intro disk_inv_change [OF assms(1)]) (auto simp: fs_append_def)
qed

lemma disk_inv_sync: "disk_inv opt K p t f \<Longrightarrow> disk_inv opt K p t (fs_sync i f)"
  by (rule disk_inv_change) (auto simp: fs_sync_def)

lemma disk_inv_unlink:
  assumes inv: "disk_inv opt K p t f" and pt: "p \<noteq> t"
  shows "disk_inv opt K p t (fs_unlink t f)"
  unfolding fs_unlink_def
proof (rule disk_inv_set_dir [OF inv])
  show "dir_ok opt K p t f ((f_dir f)(t := None))"
    using disk_inv_dir [OF inv dirs_simps(1)] pt by (simp add: dir_ok_def)
qed simp

lemma disk_inv_rename:
  assumes inv: "disk_inv opt K p t f" and pt: "p \<noteq> t" and i: "f_dir f t = Some i" "file_good K f i"
  shows "disk_inv opt K p t (fs_rename t p f)"
  unfolding fs_rename_def
proof (rule disk_inv_set_dir [OF inv])
  show "dir_ok opt K p t f ((f_dir f)(p := f_dir f t, t := None))"
    using pt i by (simp add: dir_ok_def)
qed simp

lemma parent_of_temporary: "p \<noteq> [] \<Longrightarrow> parent_directory (p @ [0x2E, 0x74, 0x6D, 0x70]) = parent_directory p"
proof (cases "0x2F \<in> set p")
  case True
  have "length (dropWhile (\<lambda>c. c \<noteq> 0x2F) (rev p)) \<le> length p"
    using length_dropWhile_le [of "\<lambda>c. c \<noteq> 0x2F" "rev p"] by simp
  then show ?thesis using True by (simp add: parent_directory_def Let_def)
qed (simp add: parent_directory_def)

lemma dirs_sync_dir:
  "D \<in> dirs (fs_sync_dir d f) \<Longrightarrow> parent_directory q = d \<Longrightarrow> D q = f_dir f q"
  by (auto simp: dirs_def fs_sync_dir_def)

lemma fs_sync_dir_simps [simp]:
  "f_dir (fs_sync_dir d f) = f_dir f" "f_next (fs_sync_dir d f) = f_next f" "f_data (fs_sync_dir d f) = f_data f"
  "f_synced (fs_sync_dir d f) = f_synced f"
  by (simp_all add: fs_sync_dir_def)

lemma disk_inv_sync_dir:
  assumes inv: "disk_inv opt K p t f" and par: "parent_directory p = parent_directory t"
  shows "disk_inv opt K p t (fs_sync_dir (parent_directory p) f)"
proof -
  let ?f = "fs_sync_dir (parent_directory p) f"
  have d: "D p = f_dir f p" "D t = f_dir f t" if "D \<in> dirs ?f" for D
    using dirs_sync_dir [OF that refl] dirs_sync_dir [OF that par [symmetric]] by simp_all
  have c: "dir_ok opt K p t ?f (f_dir f)"
    by (rule dir_ok_change [OF disk_inv_dir [OF inv dirs_simps(1)]]) simp_all
  have "dir_ok opt K p t ?f D" if "D \<in> dirs ?f" for D
    using c dir_ok_cong [where D = D and D' = "f_dir f", OF d [OF that]] by simp
  moreover have "D p \<noteq> Some i" if "f_dir f t = Some i" "D \<in> dirs ?f" for i D
    using disk_inv_tmp [OF inv that(1)] d(1) [OF that(2)] dirs_simps(1) [of f] by simp
  ultimately show ?thesis by (simp add: disk_inv_def)
qed

lemma disk_inv_crash:
  assumes inv: "disk_inv opt K p t f" and "fs_crash f f'"
  shows "disk_inv opt K p t f'"
proof -
  have d: "dirs f' = {f_dir f'}" "f_dir f' \<in> dirs f" "f_next f' = f_next f" "f_synced f' = (\<lambda>_. True)"
      "\<And>i. f_synced f i \<Longrightarrow> f_data f' i = f_data f i"
    using assms(2) by (auto simp: fs_crash_def dirs_def)
  have "dir_ok opt K p t f' (f_dir f')"
    by (rule dir_ok_change [OF disk_inv_dir [OF inv d(2)]]) (simp_all add: d)
  then show ?thesis by (auto simp: disk_inv_def d(1) dir_ok_def)
qed

section \<open>The commit\<close>

definition on_disk :: "path \<Rightarrow> ServerCheckpoint \<Rightarrow> fs \<Rightarrow> bool" where
  "on_disk p c f \<longleftrightarrow> file_ok c \<and> (\<exists>i. (\<forall>D\<in>dirs f. D p = Some i) \<and> f_synced f i \<and> f_data f i = file_of c)"

fun pc_inv :: "path \<Rightarrow> path \<Rightarrow> ServerCheckpoint \<Rightarrow> fs \<Rightarrow> CommitPc \<Rightarrow> bool" where
  "pc_inv p t c f (CpEncode c') \<longleftrightarrow> c' = c"
| "pc_inv p t c f (CpOpen data) \<longleftrightarrow> file_ok c \<and> data = file_of c"
| "pc_inv p t c f (CpWrite data offset i) \<longleftrightarrow> file_ok c \<and> data = file_of c \<and> offset < length data \<and>
     f_dir f t = Some i \<and> f_data f i = take offset data"
| "pc_inv p t c f (CpSync i) \<longleftrightarrow> file_ok c \<and> f_dir f t = Some i \<and> f_data f i = file_of c"
| "pc_inv p t c f CpClose \<longleftrightarrow> file_ok c \<and> (\<exists>i. f_dir f t = Some i \<and> f_synced f i \<and> f_data f i = file_of c)"
| "pc_inv p t c f CpRename \<longleftrightarrow> file_ok c \<and> (\<exists>i. f_dir f t = Some i \<and> f_synced f i \<and> f_data f i = file_of c)"
| "pc_inv p t c f CpDirOpen \<longleftrightarrow> file_ok c \<and> (\<exists>i. f_dir f p = Some i \<and> f_synced f i \<and> f_data f i = file_of c)"
| "pc_inv p t c f CpDirSync \<longleftrightarrow> file_ok c \<and> (\<exists>i. f_dir f p = Some i \<and> f_synced f i \<and> f_data f i = file_of c)"
| "pc_inv p t c f (CpDirClose b) \<longleftrightarrow> (b \<longrightarrow> on_disk p c f)"
| "pc_inv p t c f (CpDone b) \<longleftrightarrow> (b \<longrightarrow> on_disk p c f)"
| "pc_inv p t c f _ \<longleftrightarrow> True"

definition store_paths :: "CheckpointStore \<Rightarrow> bool" where
  "store_paths s \<longleftrightarrow> cs_temporary_path s = cs_path s @ [0x2E, 0x74, 0x6D, 0x70] \<and> (cs_valid s \<longleftrightarrow> cs_path s \<noteq> [])"

lemma store_paths_update [simp]:
  "store_paths (s\<lparr>cs_started := b1\<rparr>) = store_paths s" "store_paths (s\<lparr>cs_stopping := b2\<rparr>) = store_paths s"
  "store_paths (s\<lparr>cs_writing := b3\<rparr>) = store_paths s" "store_paths (s\<lparr>cs_pending := q\<rparr>) = store_paths s"
  "store_paths (s\<lparr>cs_last_submitted := x1\<rparr>) = store_paths s" "store_paths (s\<lparr>cs_last_committed := x2\<rparr>) = store_paths s"
  "store_paths (s\<lparr>cs_last_failed := x3\<rparr>) = store_paths s"
  by (simp_all add: store_paths_def)

lemma pc_inv_next_write:
  assumes "file_ok c" and "data = file_of c" and "f_dir f t = Some i" and "f_data f i = take offset data"
  shows "pc_inv p t c f (next_write data offset i)"
  using assms by (auto simp: next_write_def)

lemma commit_step_inv:
  assumes inv: "disk_inv opt K (cs_path s) (cs_temporary_path s) f" and s: "store_paths s" "cs_valid s"
    and pc: "pc_inv (cs_path s) (cs_temporary_path s) c f pc" and c: "c \<in> K"
    and e: "commit_step s a pc f = (pc', f')"
  shows "disk_inv opt K (cs_path s) (cs_temporary_path s) f' \<and> pc_inv (cs_path s) (cs_temporary_path s) c f' pc'"
proof -
  have ne: "cs_path s \<noteq> cs_temporary_path s" using s(1) by (simp add: store_paths_def)
  have par: "parent_directory (cs_path s) = parent_directory (cs_temporary_path s)"
    using s by (simp add: store_paths_def parent_of_temporary)
  show ?thesis
  proof (cases pc)
    case (CpEncode c')
    then show ?thesis using inv pc e by (auto simp: checkpoint_encode_iff split: sum.splits)
  next
    case (CpOpen data)
    then show ?thesis
      using inv pc e disk_inv_create [OF inv ne] pc_inv_next_write [of c data]
      by (auto split: if_splits prod.splits)
  next
    case (CpWrite data offset i)
    then have w: "file_ok c" "data = file_of c" "offset < length data" "f_dir f (cs_temporary_path s) = Some i"
      "f_data f i = take offset data" using pc unfolding CpWrite pc_inv.simps by blast+
    have next_inv: "pc_inv (cs_path s) (cs_temporary_path s) c (fs_append i (take n (drop offset data)) f)
        (next_write data (offset + n) i)" for n
      by (rule pc_inv_next_write) (use w in \<open>simp_all add: fs_append_def take_add\<close>)
    show ?thesis
      using inv pc e disk_inv_append [OF inv w(4)] next_inv
      by (auto simp: CpWrite Let_def split: outcome.splits if_splits)
  next
    case (CpSync i)
    then show ?thesis using inv pc e disk_inv_sync [OF inv] by (auto simp: fs_sync_def split: outcome.splits)
  next
    case CpUnlink
    then show ?thesis using inv e disk_inv_unlink [OF inv ne] by (auto split: if_splits)
  next
    case CpRename
    then obtain i where i: "file_ok c" "f_dir f (cs_temporary_path s) = Some i" "f_synced f i" "f_data f i = file_of c"
      using pc by auto
    then show ?thesis
      using inv e CpRename disk_inv_rename [OF inv ne i(2)] disk_inv_tmp [OF inv i(2)] c ne
      by (auto simp: fs_rename_def file_good_def split: if_splits)
  next
    case CpDirSync
    then obtain i where i: "file_ok c" "f_dir f (cs_path s) = Some i" "f_synced f i" "f_data f i = file_of c" using pc by auto
    have "\<forall>D\<in>dirs (fs_sync_dir (parent_directory (cs_path s)) f). D (cs_path s) = Some i"
      using i(2) dirs_sync_dir [OF _ refl] by metis
    with i(1,3,4) have "on_disk (cs_path s) c (fs_sync_dir (parent_directory (cs_path s)) f)"
      by (auto simp: on_disk_def)
    then show ?thesis
      using inv e i CpDirSync disk_inv_sync_dir [OF inv par] by (auto split: outcome.splits)
  qed (use inv pc e in \<open>auto split: if_splits\<close>)
qed

section \<open>The invariant of the store\<close>

definition known :: "store_world \<Rightarrow> ServerCheckpoint set" where
  "known w = set_option (sw_committed w) \<union> set (sw_newer w)"

text \<open>The thread and the fields under the mutex; \<open>l\<close> is the loaded generation.\<close>

fun writer_inv :: "store_world \<Rightarrow> writer \<Rightarrow> bool" where
  "writer_inv w (wr_committing c pc) \<longleftrightarrow>
     (let s = sw_store w in
      pc_inv (cs_path s) (cs_temporary_path s) c (sw_fs w) pc \<and> c \<in> set (sw_newer w) \<and> cs_started s \<and> cs_writing s \<and>
      cs_last_committed s < sv_generation c \<and> sw_loaded w < sv_generation c \<and>
      (case cs_pending s of None \<Rightarrow> sv_generation c = cs_last_submitted s
       | Some q \<Rightarrow> sv_generation c < cs_last_submitted s))"
| "writer_inv w wr_waiting \<longleftrightarrow> (let s = sw_store w in cs_started s \<and> \<not> cs_writing s)"
| "writer_inv w wr_exited \<longleftrightarrow> (let s = sw_store w in cs_started s \<and> \<not> cs_writing s \<and> cs_stopping s \<and> cs_pending s = None)"
| "writer_inv w wr_none \<longleftrightarrow> (let s = sw_store w in \<not> cs_started s \<and> \<not> cs_writing s \<and> \<not> cs_stopping s \<and> cs_pending s = None)"

definition counters_inv :: "store_world \<Rightarrow> bool" where
  "counters_inv w \<longleftrightarrow> (let s = sw_store w in
     cs_last_committed s \<le> cs_last_submitted s \<and> sw_loaded w \<le> cs_last_submitted s \<and>
     (cs_pending s = None \<and> \<not> cs_writing s \<longrightarrow>
        cs_last_submitted s = cs_last_committed s \<or> cs_last_submitted s = cs_last_failed s) \<and>
     (\<forall>q. cs_pending s = Some q \<longrightarrow> q \<in> set (sw_newer w) \<and> sv_generation q = cs_last_submitted s \<and>
        cs_last_committed s < sv_generation q \<and> sw_loaded w < sv_generation q) \<and>
     (cs_last_committed s = cs_last_submitted s \<and> sw_loaded w < cs_last_submitted s \<longrightarrow>
        sw_newer w = [] \<and> (\<exists>c. sw_committed w = Some c \<and> sv_generation c = cs_last_submitted s)))"

definition store_inv :: "path \<Rightarrow> store_world \<Rightarrow> bool" where
  "store_inv p w \<longleftrightarrow>
     cs_path (sw_store w) = p \<and> store_paths (sw_store w) \<and> (cs_started (sw_store w) \<longrightarrow> cs_valid (sw_store w)) \<and>
     disk_inv (sw_committed w = None) (known w) p (cs_temporary_path (sw_store w)) (sw_fs w) \<and>
     known w \<subseteq> set (sw_accepted w) \<and> writer_inv w (sw_writer w) \<and> counters_inv w"

lemma frame_simps [simp]:
  "counters_inv (w\<lparr>sw_writer := x\<rparr>) = counters_inv w" "counters_inv (w\<lparr>sw_fs := f\<rparr>) = counters_inv w"
  "known (w\<lparr>sw_writer := x\<rparr>) = known w" "known (w\<lparr>sw_fs := f\<rparr>) = known w" "known (w\<lparr>sw_store := s\<rparr>) = known w"
  by (simp_all add: counters_inv_def known_def)

lemma counters_stopping: "counters_inv (w\<lparr>sw_store := (sw_store w)\<lparr>cs_stopping := b\<rparr>\<rparr>) = counters_inv w"
  by (simp add: counters_inv_def Let_def)

lemma store_invD:
  assumes "store_inv p w"
  shows "cs_path (sw_store w) = p" and "store_paths (sw_store w)" and "cs_started (sw_store w) \<Longrightarrow> cs_valid (sw_store w)"
    and "disk_inv (sw_committed w = None) (known w) p (cs_temporary_path (sw_store w)) (sw_fs w)"
    and "known w \<subseteq> set (sw_accepted w)" and "writer_inv w (sw_writer w)" and "counters_inv w"
  using assms by (auto simp: store_inv_def)

lemma store_inv_first: "store_inv p (first_boot p)"
  by (simp add: store_inv_def first_boot_def CheckpointStore_new_def store_paths_def known_def disk_inv_new counters_inv_def)

lemma store_inv_boot:
  assumes inv: "store_inv p w"
    and f: "disk_inv (sw_committed w = None) (known w) p (cs_temporary_path (sw_store w)) f"
  shows "store_inv p (boot f w)"
proof -
  have t: "cs_temporary_path (sw_store w) = p @ [0x2E, 0x74, 0x6D, 0x70]"
    using store_invD(1,2) [OF inv] by (simp add: store_paths_def)
  show ?thesis
    using f store_invD(1,5) [OF inv]
    by (simp add: store_inv_def boot_def CheckpointStore_new_def store_paths_def known_def counters_inv_def t)
qed

lemma busy_idle:
  assumes "store_inv p w" and "\<not> cs_busy (sw_store w)"
  shows "sw_writer w = wr_none"
  using store_invD(6) [OF assms(1)] assms(2) by (cases "sw_writer w") (auto simp: cs_busy_def Let_def)

lemma store_inv_load:
  assumes inv: "store_inv p w" and e: "store_load (sw_fs w) open_ok os close_ok (sw_store w) = Some (r, c, s)"
  shows "store_inv p (after_load r s w)"
proof (cases "r = ld_success")
  case True
  then have "\<not> cs_busy (sw_store w) \<and>
      (\<exists>q :: ServerCheckpoint. s = (sw_store w)\<lparr>cs_last_submitted := sv_generation q, cs_last_committed := sv_generation q\<rparr>)"
    using e by (auto simp: store_load_def split: if_splits option.splits sum.splits)
  then obtain q :: ServerCheckpoint where q: "\<not> cs_busy (sw_store w)"
      "s = (sw_store w)\<lparr>cs_last_submitted := sv_generation q, cs_last_committed := sv_generation q\<rparr>" by blast
  have "sw_writer w = wr_none" by (rule busy_idle [OF inv q(1)])
  then show ?thesis
    using inv True q(2) by (simp add: store_inv_def after_load_def known_def counters_inv_def Let_def)
next
  case False
  then have "s = sw_store w" using e by (auto simp: store_load_def split: if_splits option.splits sum.splits)
  then show ?thesis using inv False by (simp add: after_load_def)
qed

lemma store_inv_start:
  assumes inv: "store_inv p w" and e: "store_start thread_ok (sw_store w) = (ok, s)"
  shows "store_inv p (w\<lparr>sw_store := s, sw_writer := if ok then wr_waiting else sw_writer w\<rparr>)"
proof (cases ok)
  case True
  then have b: "\<not> cs_busy (sw_store w)" and s: "s = (sw_store w)\<lparr>cs_started := True\<rparr>"
    using e by (auto simp: store_start_def split: if_splits)
  have "sw_writer w = wr_none" by (rule busy_idle [OF inv b])
  then show ?thesis
    using inv True b s by (simp add: store_inv_def known_def counters_inv_def cs_busy_def Let_def)
next
  case False
  then show ?thesis using inv e by (auto simp: store_start_def split: if_splits)
qed


lemma store_inv_submit:
  assumes inv: "store_inv p w" and e: "store_submit c (sw_store w) = (ok, s)"
  shows "store_inv p (after_submit c ok s w)"
proof (cases ok)
  case True
  then have g: "cs_started (sw_store w)" "\<not> cs_stopping (sw_store w)" "cs_last_submitted (sw_store w) < sv_generation c"
      and s: "s = (sw_store w)\<lparr>cs_pending := Some c, cs_last_submitted := sv_generation c\<rparr>"
    using e by (auto simp: store_submit_def Let_def split: if_splits)
  let ?w = "after_submit c True s w"
  have k: "known w \<subseteq> known ?w" by (auto simp: known_def after_submit_def)
  have d: "disk_inv (sw_committed ?w = None) (known ?w) p (cs_temporary_path (sw_store ?w)) (sw_fs ?w)"
    using disk_inv_mono [OF store_invD(4) [OF inv] k, of "sw_committed ?w = None"] by (simp add: after_submit_def s)
  have wr: "writer_inv ?w (sw_writer ?w)"
    using store_invD(6,7) [OF inv] g
    by (cases "sw_writer w") (auto simp: after_submit_def s counters_inv_def Let_def split: option.splits)
  have "cs_last_committed (sw_store w) < sv_generation c" "sw_loaded w < sv_generation c"
    using store_invD(7) [OF inv] g(3) by (auto simp: counters_inv_def Let_def)
  then have co: "counters_inv ?w" by (auto simp: after_submit_def s counters_inv_def Let_def)
  have "known ?w \<subseteq> set (sw_accepted ?w)"
    using store_invD(5) [OF inv] by (auto simp: known_def after_submit_def)
  then show ?thesis
    using inv d wr co True unfolding store_inv_def by (simp add: after_submit_def s)
next
  case False
  then have "s = sw_store w" using e by (auto simp: store_submit_def Let_def split: if_splits)
  then show ?thesis using inv False by (simp add: after_submit_def)
qed

lemma store_inv_take:
  assumes inv: "store_inv p w" and wr: "sw_writer w = wr_waiting" and e: "thread_take (sw_store w) = Some (wr', s)"
  shows "store_inv p (w\<lparr>sw_store := s, sw_writer := wr'\<rparr>)"
proof (cases "cs_pending (sw_store w)")
  case None
  then show ?thesis
    using inv wr e
    by (auto simp: thread_take_def store_inv_def known_def counters_inv_def Let_def split: if_splits)
next
  case (Some q)
  then have "wr' = wr_committing q (CpEncode q)" "s = (sw_store w)\<lparr>cs_pending := None, cs_writing := True\<rparr>"
    using e by (auto simp: thread_take_def)
  moreover have "q \<in> set (sw_newer w)" "sv_generation q = cs_last_submitted (sw_store w)"
      "cs_last_committed (sw_store w) < sv_generation q" "sw_loaded w < sv_generation q"
    using store_invD(7) [OF inv] Some by (auto simp: counters_inv_def Let_def)
  ultimately show ?thesis
    using inv wr by (simp add: store_inv_def) (auto simp: counters_inv_def Let_def)
qed

lemma store_inv_commit:
  assumes inv: "store_inv p w" and wr: "sw_writer w = wr_committing c pc"
    and e: "commit_step (sw_store w) a pc (sw_fs w) = (pc', f)"
  shows "store_inv p (w\<lparr>sw_writer := wr_committing c pc', sw_fs := f\<rparr>)"
proof -
  note i = store_invD [OF inv]
  have st: "cs_started (sw_store w)" "c \<in> known w" "pc_inv (cs_path (sw_store w)) (cs_temporary_path (sw_store w)) c (sw_fs w) pc"
    using i(6) wr by (auto simp: Let_def known_def)
  have "disk_inv (sw_committed w = None) (known w) p (cs_temporary_path (sw_store w)) f \<and>
      pc_inv p (cs_temporary_path (sw_store w)) c f pc'"
    using commit_step_inv [OF _ i(2) i(3) [OF st(1)] st(3) st(2) e] i(1,4) by simp
  then show ?thesis
    using i st wr by (simp add: store_inv_def Let_def)
qed

lemma store_inv_finish:
  assumes inv: "store_inv p w" and wr: "sw_writer w = wr_committing c (CpDone committed)"
  shows "store_inv p (after_finish c committed w)"
proof -
  note i = store_invD [OF inv]
  let ?s = "sw_store w" and ?w = "after_finish c committed w"
  have c: "c \<in> set (sw_newer w)" "cs_started ?s" "cs_last_committed ?s < sv_generation c" "sw_loaded w < sv_generation c"
      "cs_pending ?s = None \<Longrightarrow> sv_generation c = cs_last_submitted ?s"
      "\<And>q. cs_pending ?s = Some q \<Longrightarrow> sv_generation c < cs_last_submitted ?s"
      "pc_inv (cs_path ?s) (cs_temporary_path ?s) c (sw_fs w) (CpDone committed)"
    using i(6) wr by (auto simp: Let_def split: option.splits)
  have pend: "q \<in> set (sw_newer w) \<and> sv_generation q = cs_last_submitted ?s" if "cs_pending ?s = Some q" for q
    using i(7) that by (simp add: counters_inv_def Let_def)
  have co: "counters_inv ?w"
    using i(7) c pend
    by (cases "cs_pending ?s") (auto simp: counters_inv_def after_finish_def thread_finish_def Let_def)
  have paths: "cs_path (sw_store ?w) = p" "store_paths (sw_store ?w)" "cs_started (sw_store ?w) \<longrightarrow> cs_valid (sw_store ?w)"
      "cs_temporary_path (sw_store ?w) = cs_temporary_path ?s" "sw_fs ?w = sw_fs w" "sw_accepted ?w = sw_accepted w"
    using i(1-3) by (simp_all add: after_finish_def thread_finish_def Let_def)
  have wri: "writer_inv ?w (sw_writer ?w)"
    using c(2) by (simp add: after_finish_def thread_finish_def Let_def)
  have k: "known ?w \<subseteq> known w \<union> {c}" "\<not> committed \<Longrightarrow> known ?w = known w"
    using pend by (auto simp: known_def after_finish_def Let_def split: option.splits)
  have "known ?w \<subseteq> set (sw_accepted ?w)" using k(1) i(5) c(1) paths(6) by (auto simp: known_def)
  moreover have "disk_inv (sw_committed ?w = None) (known ?w) p (cs_temporary_path ?s) (sw_fs w)"
  proof (cases committed)
    case True
    then obtain j where j: "\<forall>D\<in>dirs (sw_fs w). D p = Some j" "f_data (sw_fs w) j = file_of c" "file_ok c"
      using c(7) i(1) by (auto simp: on_disk_def)
    have "file_good (known w) (sw_fs w) j" using disk_inv_file [OF i(4) dirs_simps(1)] j(1) by auto
    then have "file_good (known ?w) (sw_fs w) j"
      using j True by (auto simp: file_good_def known_def after_finish_def Let_def)
    then have "dir_ok False (known ?w) p (cs_temporary_path ?s) (sw_fs w) D" if "D \<in> dirs (sw_fs w)" for D
      using disk_inv_dir [OF i(4) that] bspec [OF j(1) that] by (simp add: dir_ok_def)
    moreover have "sw_committed ?w \<noteq> None" using True by (simp add: after_finish_def Let_def)
    ultimately show ?thesis using i(4) by (auto simp: disk_inv_def)
  next
    case False
    then show ?thesis using i(4) k(2) by (simp add: after_finish_def Let_def)
  qed
  ultimately show ?thesis using co paths wri by (simp add: store_inv_def)
qed

lemma store_inv_stop:
  assumes inv: "store_inv p w" and e: "stop_request (sw_store w) = (r, s)"
  shows "store_inv p (w\<lparr>sw_store := s\<rparr>)"
proof (cases "cs_started (sw_store w)")
  case True
  then have s: "s = (sw_store w)\<lparr>cs_stopping := True\<rparr>" using e by (auto simp: stop_request_def)
  show ?thesis
    using inv True by (cases "sw_writer w") (auto simp: s store_inv_def Let_def counters_stopping split: option.splits)
next
  case False
  then show ?thesis using inv e by (auto simp: stop_request_def)
qed

lemma store_inv_join:
  assumes "store_inv p w" and "sw_writer w = wr_exited" and "stop_finish (sw_store w) = (r, s)"
  shows "store_inv p (w\<lparr>sw_store := s, sw_writer := wr_none\<rparr>)"
  using assms by (auto simp: stop_finish_def store_inv_def known_def counters_inv_def Let_def)

lemma store_inv_step: "store_inv p w \<Longrightarrow> store_step w w' \<Longrightarrow> store_inv p w'"
  by (erule store_stepE)
    (auto intro: store_inv_load store_inv_start store_inv_submit store_inv_take store_inv_commit store_inv_finish
      store_inv_stop store_inv_join intro!: store_inv_boot dest: store_invD(4) disk_inv_crash split del: if_split)

interpretation store: invariant_system "\<lambda>w. w = first_boot p" store_step "store_inv p" for p
  by unfold_locales (auto simp: store_inv_first intro: store_inv_step)

end
