(* ===== verification/Store_Claims.thy ===== *)
theory Store_Claims
  imports Store_Laws "HOL-Library.Code_Target_Nat"
begin

text \<open>
  The properties of \<open>CheckpointStore\<close>: loading reads the whole file, the file survives crashes
  at any point, \<open>flush\<close> and \<open>stop\<close> tell the truth, and a commit always comes to an end.
\<close>

section \<open>Loading\<close>

lemma load_loop_Returned:
  assumes k: "k = min (max 1 n) (min READ_BUFFER_SIZE (length rest))"
    and len: "length data + length rest \<le> MAX_CHECKPOINT_FILE_SIZE" and ne: "rest \<noteq> []"
  shows "load_loop (Returned n # os) rest data = load_loop os (drop k rest) (data @ take k rest)"
    and "0 < k" and "k \<le> length rest"
proof -
  show "0 < k" "k \<le> length rest" using ne by (auto simp: k READ_BUFFER_SIZE_def)
  moreover from this have "\<not> (k > MAX_CHECKPOINT_FILE_SIZE \<or> length data > MAX_CHECKPOINT_FILE_SIZE - k)"
    using len by arith
  ultimately show "load_loop (Returned n # os) rest data = load_loop os (drop k rest) (data @ take k rest)"
    unfolding load_loop.simps outcome.case Let_def k [symmetric] by simp
qed

lemma load_loop_complete:
  assumes "Failed \<notin> set os" and "load_loop os rest data = Some (rf, large, d)"
    and "length data + length rest \<le> MAX_CHECKPOINT_FILE_SIZE"
  shows "\<not> rf \<and> \<not> large \<and> d = data @ rest"
  using assms
proof (induction os arbitrary: rest data)
  case (Cons a os)
  show ?case
  proof (cases a)
    case (Returned n)
    show ?thesis
    proof (cases "rest = []")
      case True
      then show ?thesis using Cons.prems by (simp add: Returned)
    next
      case False
      obtain k where k: "k = min (max 1 n) (min READ_BUFFER_SIZE (length rest))" by blast
      note step = load_loop_Returned [OF k Cons.prems(3) False]
      show ?thesis
        using Cons.IH [of "drop k rest" "data @ take k rest"] Cons.prems step by (simp add: Returned del: load_loop.simps)
    qed
  qed (use Cons in auto)
qed simp

lemma load_loop_ends:
  assumes "length data + length rest \<le> MAX_CHECKPOINT_FILE_SIZE" and "length rest < n"
  shows "load_loop (replicate n (Returned m)) rest data = Some (False, False, data @ rest)"
  using assms
proof (induction n arbitrary: rest data)
  case (Suc n)
  show ?case
  proof (cases "rest = []")
    case False
    obtain k where k: "k = min (max 1 m) (min READ_BUFFER_SIZE (length rest))" by blast
    note step = load_loop_Returned [OF k Suc.prems(1) False]
    show ?thesis
      using Suc.IH [of "data @ take k rest" "drop k rest"] Suc.prems step by (simp del: load_loop.simps)
  qed simp
qed simp

lemma store_load_file:
  assumes "p \<noteq> []" and "fs_read p f = Some (file_of c)" and "file_ok c" and "length (file_of c) < n"
  shows "store_load f True (replicate n (Returned k)) True (CheckpointStore_new p) =
    Some (ld_success, Some c, (CheckpointStore_new p)\<lparr>cs_last_submitted := sv_generation c,
      cs_last_committed := sv_generation c\<rparr>)"
proof -
  have l: "length (file_of c) \<le> MAX_CHECKPOINT_FILE_SIZE"
    using assms(3) by (auto simp: file_ok_def payload_ok_def length_file_of codec_sizes)
  then show ?thesis
    using load_loop_ends [of "[]" "file_of c" n k] assms
    by (simp add: store_load_def cs_busy_def CheckpointStore_new_def checkpoint_decode_file_of)
qed

section \<open>Crash safety\<close>

lemma crash_file:
  assumes inv: "store_inv p w" and "fs_crash (sw_fs w) f"
  shows "case fs_read p f of None \<Rightarrow> sw_committed w = None
    | Some d \<Rightarrow> \<exists>c\<in>known w. file_ok c \<and> d = file_of c"
proof -
  have "disk_inv (sw_committed w = None) (known w) p (cs_temporary_path (sw_store w)) f"
    using disk_inv_crash [OF store_invD(4) [OF inv] assms(2)] .
  from disk_inv_dir [OF this dirs_simps(1)] show ?thesis
    by (auto simp: dir_ok_def file_good_def fs_read_def split: option.splits)
qed

text \<open>C6: after a crash at any moment (in the middle of a write, before or after a sync or a
  rename, with any system calls having failed, after any number of earlier restarts) the next
  process finds in the checkpoint file a complete checkpoint that was accepted, and it is the
  last one reported as committed or one accepted after that was taken up; loading it succeeds.
  Only if none was ever committed may the file not exist.\<close>

theorem crash_leaves_a_complete_checkpoint:
  assumes "reach (\<lambda>w. w = first_boot p) store_step w" and "p \<noteq> []" and "fs_crash (sw_fs w) f"
  shows "case fs_read p f of
      None \<Rightarrow> sw_committed w = None
    | Some d \<Rightarrow> \<exists>c\<in>set (sw_accepted w). (Some c = sw_committed w \<or> c \<in> set (sw_newer w)) \<and>
        checkpoint_decode d = Inr c \<and>
        (\<exists>s. store_load f True (replicate (Suc (length d)) (Returned READ_BUFFER_SIZE)) True (CheckpointStore_new p) =
          Some (ld_success, Some c, s) \<and> cs_last_committed s = sv_generation c)"
proof -
  have inv: "store_inv p w" using assms(1) by (rule store.reach_inv)
  show ?thesis
  proof (cases "fs_read p f")
    case None
    then show ?thesis using crash_file [OF inv assms(3)] by simp
  next
    case (Some d)
    then obtain c where c: "c \<in> known w" "file_ok c" "d = file_of c" using crash_file [OF inv assms(3)] by auto
    have "c \<in> set (sw_accepted w)" using c(1) store_invD(5) [OF inv] by auto
    moreover have "Some c = sw_committed w \<or> c \<in> set (sw_newer w)" using c(1) by (auto simp: known_def)
    moreover have "\<exists>s. store_load f True (replicate (Suc (length d)) (Returned READ_BUFFER_SIZE)) True
        (CheckpointStore_new p) = Some (ld_success, Some c, s) \<and> cs_last_committed s = sv_generation c"
      using store_load_file [of p f c "Suc (length d)" READ_BUFFER_SIZE] assms(2) c Some by simp
    ultimately show ?thesis using c(2,3) by (auto simp: Some checkpoint_decode_file_of)
  qed
qed

text \<open>C37: \<open>flush\<close> and \<open>stop\<close> tell the truth. When \<open>flush\<close> returns true and something was
  submitted since the process loaded its file, the file on disk is the last submitted
  checkpoint, whatever crash follows; when it returns false, the last submitted one has failed. When the
  writer thread has exited nothing is left to write, and \<open>stop\<close> returns what \<open>flush\<close> would.\<close>

theorem flush_and_stop_tell_the_truth:
  assumes "reach (\<lambda>w. w = first_boot p) store_step w" and "fs_crash (sw_fs w) f"
  shows "(flush_result (sw_store w) \<and> sw_loaded w < cs_last_submitted (sw_store w) \<longrightarrow>
      (\<exists>c d. sw_committed w = Some c \<and> sv_generation c = cs_last_submitted (sw_store w) \<and>
         fs_read p f = Some d \<and> checkpoint_decode d = Inr c)) \<and>
    (cs_valid (sw_store w) \<and> flush_ready (sw_store w) \<and> \<not> flush_result (sw_store w) \<longrightarrow>
      cs_last_failed (sw_store w) = cs_last_submitted (sw_store w)) \<and>
    (sw_writer w = wr_exited \<longrightarrow>
      flush_ready (sw_store w) \<and> fst (stop_finish (sw_store w)) = flush_result (sw_store w))"
proof -
  have inv: "store_inv p w" using assms(1) by (rule store.reach_inv)
  note co = store_invD(7) [OF inv, unfolded counters_inv_def Let_def]
  have "\<exists>c d. sw_committed w = Some c \<and> sv_generation c = cs_last_submitted (sw_store w) \<and>
         fs_read p f = Some d \<and> checkpoint_decode d = Inr c"
    if r: "flush_result (sw_store w)" "sw_loaded w < cs_last_submitted (sw_store w)"
  proof -
    obtain c where c: "sw_newer w = []" "sw_committed w = Some c" "sv_generation c = cs_last_submitted (sw_store w)"
      using co r by (auto simp: flush_result_def)
    then have "known w = {c}" by (simp add: known_def)
    then show ?thesis
      using crash_file [OF inv assms(2)] c by (auto split: option.splits simp: checkpoint_decode_file_of)
  qed
  moreover have "cs_last_failed (sw_store w) = cs_last_submitted (sw_store w)"
    if "cs_valid (sw_store w)" "flush_ready (sw_store w)" "\<not> flush_result (sw_store w)"
    using co that by (auto simp: flush_ready_def flush_result_def)
  moreover have "flush_ready (sw_store w) \<and> fst (stop_finish (sw_store w)) = flush_result (sw_store w)"
    if "sw_writer w = wr_exited"
    using store_invD(3,6) [OF inv] that by (auto simp: flush_ready_def flush_result_def stop_finish_def Let_def)
  ultimately show ?thesis by blast
qed

section \<open>A commit ends\<close>

fun effort :: "CommitPc \<Rightarrow> nat" where
  "effort (CpEncode c) = length (file_of c) + 9"
| "effort (CpOpen data) = length data + 8"
| "effort (CpWrite data offset i) = length data - offset + 7"
| "effort (CpSync i) = 7"
| "effort CpClose = 6"
| "effort CpRename = 5"
| "effort CpDirOpen = 4"
| "effort CpDirSync = 3"
| "effort (CpDirClose b) = 1"
| "effort CpAbort = 2"
| "effort CpUnlink = 1"
| "effort (CpDone b) = 0"

fun sane :: "CommitPc \<Rightarrow> bool" where
  "sane (CpWrite data offset i) \<longleftrightarrow> offset < length data"
| "sane _ \<longleftrightarrow> True"

lemma effort_next_write: "effort (next_write data offset i) \<le> length data - offset + 7 \<and> sane (next_write data offset i)"
  by (simp add: next_write_def)

lemma effort_open: "effort (next_write data 0 i) < length data + 8 \<and> effort (next_write data 0 i) \<le> length data + 8"
  by (simp add: next_write_def)

lemma commit_step_effort:
  assumes "sane pc" and "commit_step s a pc f = (pc', f')"
  shows "sane pc' \<and> effort pc' \<le> effort pc \<and> (a \<noteq> Eintr \<and> effort pc \<noteq> 0 \<longrightarrow> effort pc' < effort pc)"
proof (cases pc)
  case (CpEncode c)
  then show ?thesis using assms by (auto simp: checkpoint_encode_iff split: sum.splits)
next
  case (CpOpen data)
  then show ?thesis using assms effort_next_write [of data 0]
    by (auto split: if_splits prod.splits simp: effort_open)
next
  case (CpWrite data offset i)
  show ?thesis
  proof (cases a)
    case (Returned n)
    let ?k = "min n (length data - offset)"
    have "effort (next_write data (offset + ?k) i) < effort pc" if "?k > 0"
      using effort_next_write [of data "offset + ?k" i] that assms(1) by (auto simp: CpWrite)
    then show ?thesis
      using assms effort_next_write [of data "offset + ?k" i] by (auto simp: CpWrite Returned Let_def split: if_splits)
  qed (use assms CpWrite in auto)
qed (use assms in \<open>auto split: outcome.splits if_splits\<close>)

lemma effort_0: "effort pc = 0 \<longleftrightarrow> (\<exists>b. pc = CpDone b)"
  by (cases pc) auto

lemma commit_run_Done: "commit_run s os (CpDone b) f = (CpDone b, f)"
  by (induction os) auto

lemma commit_run_ends:
  "sane pc \<Longrightarrow> effort pc \<le> length (filter (\<lambda>a. a \<noteq> Eintr) os) \<Longrightarrow>
   \<exists>b f'. commit_run s os pc f = (CpDone b, f')"
proof (induction os arbitrary: pc f)
  case Nil
  then show ?case by (auto simp: effort_0)
next
  case (Cons a os)
  obtain pc' f' where st: "commit_step s a pc f = (pc', f')" by (cases "commit_step s a pc f")
  note eff = commit_step_effort [OF Cons.prems(1) st]
  show ?case
  proof (cases "effort pc = 0")
    case True
    then show ?thesis using commit_run_Done [of s "a # os"] by (auto simp: effort_0)
  next
    case False
    then have "effort pc' \<le> length (filter (\<lambda>a. a \<noteq> Eintr) os)"
      using eff Cons.prems(2) by (cases "a = Eintr") auto
    then show ?thesis using Cons.IH [of pc' f'] eff st by simp
  qed
qed


text \<open>A run without failures.\<close>

fun on_course :: "CommitPc \<Rightarrow> bool" where
  "on_course CpAbort = False"
| "on_course CpUnlink = False"
| "on_course (CpDirClose b) = b"
| "on_course (CpDone b) = b"
| "on_course _ = True"

lemma on_course_next_write: "on_course (next_write data offset i)"
  by (simp add: next_write_def)

lemma fs_create_file: "fs_create t f = (i, f') \<Longrightarrow> f_dir f' t = Some i \<and> f_data f' i = []"
  by (auto simp: fs_create_def Let_def split: option.splits)

lemma commit_step_success:
  assumes "file_ok c" and ne: "cs_path s \<noteq> cs_temporary_path s" and a: "a = Returned n" "0 < n"
    and pc: "on_course pc" "pc_inv (cs_path s) (cs_temporary_path s) c f pc"
    and e: "commit_step s a pc f = (pc', f')"
  shows "on_course pc' \<and> pc_inv (cs_path s) (cs_temporary_path s) c f' pc'"
proof (cases pc)
  case (CpEncode c')
  have "checkpoint_encode c = Inr (file_of c)" using assms(1) by (simp add: checkpoint_encode_iff)
  then show ?thesis using assms CpEncode by auto
next
  case (CpOpen data)
  then show ?thesis
    using assms pc_inv_next_write [of c data] fs_create_file [of "cs_temporary_path s" f]
    by (auto split: prod.splits simp: on_course_next_write)
next
  case (CpWrite data offset i)
  then have w: "file_ok c" "data = file_of c" "offset < length data" "f_dir f (cs_temporary_path s) = Some i"
      "f_data f i = take offset data" using pc(2) unfolding CpWrite pc_inv.simps by blast+
  have "pc_inv (cs_path s) (cs_temporary_path s) c (fs_append i (take n (drop offset data)) f)
      (next_write data (offset + n) i)" for n
    by (rule pc_inv_next_write) (use w in \<open>simp_all add: fs_append_def take_add\<close>)
  moreover have "min n (length data - offset) > 0" using w(3) a(2) by simp
  ultimately show ?thesis using e by (auto simp: CpWrite a(1) Let_def on_course_next_write)
next
  case CpDirSync
  then obtain i where i: "file_ok c" "f_dir f (cs_path s) = Some i" "f_synced f i" "f_data f i = file_of c" using pc by auto
  have "\<forall>D\<in>dirs (fs_sync_dir (parent_directory (cs_path s)) f). D (cs_path s) = Some i"
    using i(2) dirs_sync_dir [OF _ refl] by metis
  with i(1,3,4) have "on_disk (cs_path s) c (fs_sync_dir (parent_directory (cs_path s)) f)"
    by (auto simp: on_disk_def)
  then show ?thesis using e a CpDirSync by auto
qed (use assms in \<open>auto simp: fs_sync_def fs_rename_def\<close>)

lemma commit_run_success:
  assumes "file_ok c" and "cs_path s \<noteq> cs_temporary_path s" and "\<forall>a\<in>set os. \<exists>n>0. a = Returned n"
    and "on_course pc" and "pc_inv (cs_path s) (cs_temporary_path s) c f pc" and "commit_run s os pc f = (pc', f')"
  shows "on_course pc' \<and> pc_inv (cs_path s) (cs_temporary_path s) c f' pc'"
  using assms(3-6)
proof (induction os arbitrary: pc f)
  case (Cons a os)
  obtain pc1 f1 where st: "commit_step s a pc f = (pc1, f1)" by (cases "commit_step s a pc f")
  obtain n where a: "a = Returned n" "0 < n" using Cons.prems(1) by auto
  have "on_course pc1 \<and> pc_inv (cs_path s) (cs_temporary_path s) c f1 pc1"
    by (rule commit_step_success [OF assms(1,2) a Cons.prems(2,3) st])
  then show ?case using Cons.IH [of pc1 f1] Cons.prems st by simp
qed simp

text \<open>The calls a commit makes, each with its answer, and which answers are failures: \<open>write_all\<close> and
  \<open>sync_fd\<close> repeat a call that was interrupted, the others give up.\<close>

primrec commit_calls :: "CheckpointStore \<Rightarrow> outcome list \<Rightarrow> CommitPc \<Rightarrow> fs \<Rightarrow> (CommitPc \<times> outcome) list" where
  "commit_calls s [] pc f = []"
| "commit_calls s (a # os) pc f = (pc, a) # (case commit_step s a pc f of (pc', f') \<Rightarrow> commit_calls s os pc' f')"

fun call_failed :: "CommitPc \<times> outcome \<Rightarrow> bool" where
  "call_failed (CpOpen data, a) \<longleftrightarrow> a \<in> {Eintr, Failed}"
| "call_failed (CpWrite data offset i, a) \<longleftrightarrow> a \<in> {Returned 0, Failed}"
| "call_failed (CpSync i, a) \<longleftrightarrow> a = Failed"
| "call_failed (CpClose, a) \<longleftrightarrow> a \<in> {Eintr, Failed}"
| "call_failed (CpRename, a) \<longleftrightarrow> a \<in> {Eintr, Failed}"
| "call_failed (CpDirOpen, a) \<longleftrightarrow> a \<in> {Eintr, Failed}"
| "call_failed (CpDirSync, a) \<longleftrightarrow> a = Failed"
| "call_failed (CpDirClose b, a) \<longleftrightarrow> a \<in> {Eintr, Failed}"
| "call_failed (pc, a) \<longleftrightarrow> False"

lemma call_ok_iff: "call_ok a \<longleftrightarrow> a \<notin> {Eintr, Failed}"
  by (cases a) auto

lemma on_course_step:
  assumes "sane pc" and "\<forall>c. pc \<noteq> CpEncode c" and "commit_step s a pc f = (pc', f')"
  shows "on_course pc' \<longleftrightarrow> on_course pc \<and> \<not> call_failed (pc, a)" and "\<forall>c. pc' \<noteq> CpEncode c"
proof -
  have "(on_course pc' \<longleftrightarrow> on_course pc \<and> \<not> call_failed (pc, a)) \<and> (\<forall>c. pc' \<noteq> CpEncode c)"
  proof (cases pc)
    case (CpWrite data offset i)
    then show ?thesis using assms by (cases a) (auto simp: on_course_next_write Let_def next_write_def split: if_splits)
  qed (use assms in \<open>auto simp: call_ok_iff on_course_next_write next_write_def split: outcome.splits if_splits prod.splits\<close>)
  then show "on_course pc' \<longleftrightarrow> on_course pc \<and> \<not> call_failed (pc, a)" "\<forall>c. pc' \<noteq> CpEncode c" by auto
qed

lemma on_course_run:
  "sane pc \<Longrightarrow> \<forall>c. pc \<noteq> CpEncode c \<Longrightarrow> commit_run s os pc f = (pc', f') \<Longrightarrow>
   on_course pc' \<longleftrightarrow> on_course pc \<and> (\<forall>x\<in>set (commit_calls s os pc f). \<not> call_failed x)"
proof (induction os arbitrary: pc f)
  case (Cons a os)
  obtain pc1 f1 where st: "commit_step s a pc f = (pc1, f1)" by (cases "commit_step s a pc f")
  have "sane pc1" using commit_step_effort [OF Cons.prems(1) st] by simp
  then show ?case using Cons.IH [of pc1 f1] Cons.prems(3) on_course_step [OF Cons.prems(1,2) st] st by auto
qed simp

text \<open>Whatever the calls answer, what the writer knows about its files stays true.\<close>

lemma commit_step_count: "\<forall>data offset i. pc \<noteq> CpWrite data offset i \<Longrightarrow> commit_step s (Returned n) pc f = commit_step s (Returned 1) pc f"
  by (cases pc) auto

lemma commit_step_keeps:
  assumes ne: "cs_path s \<noteq> cs_temporary_path s" and pc: "pc_inv (cs_path s) (cs_temporary_path s) c f pc"
    and e: "commit_step s a pc f = (pc', f')"
  shows "pc_inv (cs_path s) (cs_temporary_path s) c f' pc'"
proof -
  have good: "pc_inv (cs_path s) (cs_temporary_path s) c f' pc'" if "commit_step s (Returned n) pc f = (pc', f')" "0 < n" for n
  proof (cases "file_ok c \<and> on_course pc")
    case True
    then show ?thesis using commit_step_success [OF _ ne refl that(2) _ pc that(1)] by simp
  next
    case False
    then show ?thesis using pc that by (cases pc) (auto simp: checkpoint_encode_iff split: sum.splits)
  qed
  show ?thesis
  proof (cases a)
    case (Returned n)
    show ?thesis
    proof (cases "0 < n")
      case True
      then show ?thesis using good [of n] e Returned by simp
    next
      case False
      then show ?thesis
        using good [of 1] e Returned commit_step_count [of pc s n f] by (cases pc) (auto simp: Let_def)
    qed
  qed (use e pc in \<open>cases pc; auto simp: checkpoint_encode_iff split: sum.splits\<close>)+
qed

lemma commit_run_keeps:
  "cs_path s \<noteq> cs_temporary_path s \<Longrightarrow> pc_inv (cs_path s) (cs_temporary_path s) c f pc \<Longrightarrow> commit_run s os pc f = (pc', f') \<Longrightarrow>
   pc_inv (cs_path s) (cs_temporary_path s) c f' pc'"
proof (induction os arbitrary: pc f)
  case (Cons a os)
  obtain pc1 f1 where st: "commit_step s a pc f = (pc1, f1)" by (cases "commit_step s a pc f")
  show ?case using Cons.IH [of f1 pc1] Cons.prems commit_step_keeps [OF Cons.prems(1,2) st] st by simp
qed simp

text \<open>C38: \<open>commit_checkpoint\<close> terminates and its answer is true to what happened. As soon as the
  system calls have given as many answers other than \<open>EINTR\<close> as the file has bytes, and nine more,
  it has returned: short writes never make it loop for ever, only endless interruptions could. It
  returns true exactly if the checkpoint can be encoded and no call it made has failed - not
  one of opening, writing, syncing, closing, renaming, and opening, syncing and closing the directory -
  and then the file holds exactly that checkpoint, whatever crash follows.\<close>

theorem commit_terminates:
  assumes "length (file_of c) + 9 \<le> length (filter (\<lambda>a. a \<noteq> Eintr) os)" and "p \<noteq> []"
  shows "\<exists>b f'. commit_run (CheckpointStore_new p) os (CpEncode c) f = (CpDone b, f') \<and>
    (b \<longleftrightarrow> (\<exists>d. checkpoint_encode c = Inr d) \<and>
       (\<forall>x\<in>set (commit_calls (CheckpointStore_new p) os (CpEncode c) f). \<not> call_failed x)) \<and>
    (b \<longrightarrow> (\<forall>f''. fs_crash f' f'' \<longrightarrow> (\<exists>d. fs_read p f'' = Some d \<and> checkpoint_encode c = Inr d)))"
proof -
  let ?s = "CheckpointStore_new p"
  have ne: "cs_path ?s \<noteq> cs_temporary_path ?s" "cs_path ?s = p" by (simp_all add: CheckpointStore_new_def)
  obtain b f' where run: "commit_run ?s os (CpEncode c) f = (CpDone b, f')"
    using commit_run_ends [of "CpEncode c" os ?s f] assms(1) by auto
  obtain a os' where os: "os = a # os'" using assms(1) by (cases os) auto
  have "b \<longleftrightarrow> (\<exists>d. checkpoint_encode c = Inr d) \<and> (\<forall>x\<in>set (commit_calls ?s os (CpEncode c) f). \<not> call_failed x)"
  proof (cases "checkpoint_encode c")
    case (Inl e)
    then show ?thesis using run commit_run_Done by (simp add: os)
  next
    case (Inr d)
    then show ?thesis using on_course_run [of "CpOpen d" ?s os' f] run by (simp add: os)
  qed
  moreover have "\<exists>d. fs_read p f'' = Some d \<and> checkpoint_encode c = Inr d" if "b" "fs_crash f' f''" for f''
    using commit_run_keeps [OF ne(1) _ run, of c] that ne(2)
    by (auto simp: checkpoint_encode_iff on_disk_def dirs_def fs_crash_def fs_read_def)
  ultimately show ?thesis using run by blast
qed

section \<open>Witnesses\<close>

text \<open>A store on the file \<open>a\<close> that was started, given the sample checkpoint and left to write it,
  one byte at a time.\<close>

definition all_well :: "outcome list" where
  "all_well = replicate (length (file_of sample_checkpoint) + 9) (Returned 1)"

definition demo_taken :: store_world where
  "demo_taken = (let s = CheckpointStore_new [0x61] in (first_boot [0x61])\<lparr>
     sw_store := s\<lparr>cs_started := True, cs_last_submitted := 7, cs_writing := True\<rparr>,
     sw_writer := wr_committing sample_checkpoint (CpEncode sample_checkpoint),
     sw_accepted := [sample_checkpoint], sw_newer := [sample_checkpoint]\<rparr>)"

lemma sample_generation: "sv_generation sample_checkpoint = 7"
  by (simp add: sample_checkpoint_def)

lemma demo_taken_reachable: "reach (\<lambda>w. w = first_boot [0x61]) store_step demo_taken"
proof -
  let ?s = "CheckpointStore_new [0x61]" and ?w = "first_boot [0x61]"
  let ?s1 = "?s\<lparr>cs_started := True\<rparr>"
  let ?w1 = "?w\<lparr>sw_store := ?s1, sw_writer := wr_waiting\<rparr>"
  let ?s2 = "?s1\<lparr>cs_pending := Some sample_checkpoint, cs_last_submitted := 7\<rparr>"
  let ?w2 = "?w1\<lparr>sw_store := ?s2, sw_accepted := [sample_checkpoint], sw_newer := [sample_checkpoint]\<rparr>"
  have r0: "reach (\<lambda>w. w = first_boot [0x61]) store_step ?w" by (rule reach_init) simp
  have "store_start True (sw_store ?w) = (True, ?s1)"
    by (simp add: store_start_def cs_busy_def first_boot_def CheckpointStore_new_def)
  from reach_step [OF r0 ss_start [OF this]]
  have r1: "reach (\<lambda>w. w = first_boot [0x61]) store_step ?w1" by simp
  have "store_submit sample_checkpoint (sw_store ?w1) = (True, ?s2)"
    by (simp add: store_submit_def CheckpointStore_new_def sample_generation)
  from reach_step [OF r1 ss_submit [OF this]]
  have r2: "reach (\<lambda>w. w = first_boot [0x61]) store_step ?w2"
    by (simp add: after_submit_def first_boot_def)
  let ?s3 = "?s1\<lparr>cs_pending := None, cs_writing := True, cs_last_submitted := 7\<rparr>"
  have t: "thread_take (sw_store ?w2) = Some (wr_committing sample_checkpoint (CpEncode sample_checkpoint), ?s3)"
    by (simp add: thread_take_def)
  have "store_step ?w2 (?w2\<lparr>sw_store := ?s3, sw_writer := wr_committing sample_checkpoint (CpEncode sample_checkpoint)\<rparr>)"
    by (rule ss_take [where w = ?w2, OF _ t]) simp
  with r2 have "reach (\<lambda>w. w = first_boot [0x61]) store_step
      (?w2\<lparr>sw_store := ?s3, sw_writer := wr_committing sample_checkpoint (CpEncode sample_checkpoint)\<rparr>)"
    by (rule reach_step)
  then show ?thesis by (simp add: demo_taken_def Let_def first_boot_def CheckpointStore_new_def)
qed

lemma reach_commit_run:
  "reach I store_step w \<Longrightarrow> sw_writer w = wr_committing c pc \<Longrightarrow> commit_run (sw_store w) os pc (sw_fs w) = (pc', f') \<Longrightarrow>
   reach I store_step (w\<lparr>sw_writer := wr_committing c pc', sw_fs := f'\<rparr>)"
proof (induction os arbitrary: w pc)
  case Nil
  then have "w\<lparr>sw_writer := wr_committing c pc', sw_fs := f'\<rparr> = w" by (cases w) simp
  then show ?case using Nil.prems(1) by simp
next
  case (Cons a os)
  obtain pc1 f1 where st: "commit_step (sw_store w) a pc (sw_fs w) = (pc1, f1)"
    by (cases "commit_step (sw_store w) a pc (sw_fs w)")
  let ?w = "w\<lparr>sw_writer := wr_committing c pc1, sw_fs := f1\<rparr>"
  have "reach I store_step ?w" using Cons.prems(1) ss_commit [OF Cons.prems(2) st] by (rule reach_step)
  then show ?case using Cons.IH [of ?w pc1] Cons.prems(3) st by simp
qed

definition demo_fs :: fs where
  "demo_fs = snd (commit_run (sw_store demo_taken) all_well (CpEncode sample_checkpoint) fs_new)"

definition demo_committed :: store_world where
  "demo_committed = after_finish sample_checkpoint True
     (demo_taken\<lparr>sw_writer := wr_committing sample_checkpoint (CpDone True), sw_fs := demo_fs\<rparr>)"

lemma demo_run: "commit_run (sw_store demo_taken) all_well (CpEncode sample_checkpoint) fs_new = (CpDone True, demo_fs)"
proof -
  have "\<exists>b f'. commit_run (sw_store demo_taken) all_well (CpEncode sample_checkpoint) fs_new = (CpDone b, f')"
    by (rule commit_run_ends) (simp_all add: all_well_def)
  then obtain b f' where run: "commit_run (sw_store demo_taken) all_well (CpEncode sample_checkpoint) fs_new = (CpDone b, f')"
    by blast
  have "on_course (CpDone b)"
    using commit_run_success [OF sample_file(1) _ _ _ _ run]
    by (auto simp: all_well_def demo_taken_def Let_def CheckpointStore_new_def)
  then show ?thesis using run by (simp add: demo_fs_def)
qed

lemma demo_taken_parts:
  "sw_writer demo_taken = wr_committing sample_checkpoint (CpEncode sample_checkpoint)" "sw_fs demo_taken = fs_new"
  by (simp_all add: demo_taken_def Let_def first_boot_def)

lemma demo_committed_reachable: "reach (\<lambda>w. w = first_boot [0x61]) store_step demo_committed"
proof -
  have "reach (\<lambda>w. w = first_boot [0x61]) store_step
      (demo_taken\<lparr>sw_writer := wr_committing sample_checkpoint (CpDone True), sw_fs := demo_fs\<rparr>)"
    by (rule reach_commit_run [OF demo_taken_reachable demo_taken_parts(1)])
      (unfold demo_taken_parts(2), rule demo_run)
  then show ?thesis unfolding demo_committed_def by (rule reach_step) (rule ss_finish, simp)
qed

definition power_cut :: "fs \<Rightarrow> fs" where
  "power_cut f = f\<lparr>f_past := [], f_synced := \<lambda>_. True\<rparr>"

lemma power_cut: "fs_crash f (power_cut f)"
  by (simp add: fs_crash_def power_cut_def)

lemma demo_committed_state:
  "sw_committed demo_committed = Some sample_checkpoint" "sw_newer demo_committed = []" "sw_loaded demo_committed = 0"
  "cs_last_submitted (sw_store demo_committed) = 7" "cs_last_committed (sw_store demo_committed) = 7"
  "cs_valid (sw_store demo_committed)"
  by (simp_all add: demo_committed_def after_finish_def demo_taken_def thread_finish_def Let_def first_boot_def
      CheckpointStore_new_def sample_generation)

theorem crash_leaves_a_complete_checkpoint_witness:
  "\<exists>d s. fs_read [0x61] (power_cut (sw_fs demo_committed)) = Some d \<and> checkpoint_decode d = Inr sample_checkpoint \<and>
     store_load (power_cut (sw_fs demo_committed)) True (replicate (Suc (length d)) (Returned READ_BUFFER_SIZE)) True
       (CheckpointStore_new [0x61]) = Some (ld_success, Some sample_checkpoint, s)"
  using crash_leaves_a_complete_checkpoint [OF demo_committed_reachable _ power_cut]
  by (auto simp: demo_committed_state split: option.splits)

theorem flush_and_stop_tell_the_truth_witness:
  "\<exists>d. fs_read [0x61] (power_cut (sw_fs demo_committed)) = Some d \<and> checkpoint_decode d = Inr sample_checkpoint"
  using flush_and_stop_tell_the_truth [OF demo_committed_reachable power_cut]
  by (auto simp: demo_committed_state flush_result_def)

theorem commit_terminates_witness:
  "(\<exists>f'. commit_run (CheckpointStore_new [0x61]) all_well (CpEncode sample_checkpoint) fs_new = (CpDone True, f')) \<longleftrightarrow>
   (\<forall>x\<in>set (commit_calls (CheckpointStore_new [0x61]) all_well (CpEncode sample_checkpoint) fs_new). \<not> call_failed x)"
  using commit_terminates [of sample_checkpoint all_well "[0x61]" fs_new] sample_file(1)
  by (auto simp: all_well_def checkpoint_encode_iff)

end
