(* ===== verification/Event_Loop.thy ===== *)
theory Event_Loop
  imports LW_Prelude
begin

text \<open>
  \<open>EventLoop\<close> (\<open>src/event_loop.cpp\<close>): one thread waits for events on its file descriptors, runs
  their callbacks, then the functors other threads have queued. Callbacks and functors are
  named by values of type \<open>'c\<close> and \<open>'f\<close>. What the code relies on of the kernel is part of the
  state: the interest list of the epoll instance and whether the wake-up eventfd is readable.
  Whether a call is made on the loop's own thread, and what a system call answers, are
  arguments.
\<close>

datatype sys = Ok | Intr | Again | Error

definition EPOLLIN :: u32 where "EPOLLIN = 0x001"
definition EPOLLOUT :: u32 where "EPOLLOUT = 0x004"
definition EPOLLERR :: u32 where "EPOLLERR = 0x008"
definition EPOLLHUP :: u32 where "EPOLLHUP = 0x010"
definition EPOLLRDHUP :: u32 where "EPOLLRDHUP = 0x2000"
definition EPOLLONESHOT :: u32 where "EPOLLONESHOT = 0x40000000"
definition EPOLLET :: u32 where "EPOLLET = 0x80000000"

record ('c, 'f) EventLoop =
  el_epoll_fd :: int
  el_wakeup_fd :: int
  el_quit :: bool
  el_looping :: bool
  el_max_events :: nat
  el_callbacks :: "(int, 'c) umap"
  el_pending_functors :: "'f list"
  el_interest :: "(int, u32) umap" \<comment> \<open>the kernel's interest list\<close>
  el_signal :: bool \<comment> \<open>the eventfd is readable\<close>

definition el_valid :: "('c, 'f) EventLoop \<Rightarrow> bool" where
  "el_valid l \<longleftrightarrow> el_epoll_fd l \<noteq> -1 \<and> el_wakeup_fd l \<noteq> -1"

section \<open>File descriptors\<close>

text \<open>\<open>epoll_ctl\<close>: adding fails for a descriptor in the list, changing and removing for one that
  is not; any call may fail otherwise too.\<close>

definition add_fd :: "bool \<Rightarrow> bool \<Rightarrow> int \<Rightarrow> u32 \<Rightarrow> 'c option \<Rightarrow> ('c, 'f) EventLoop \<Rightarrow> bool \<times> ('c, 'f) EventLoop" where
  "add_fd here ctl_ok fd events callback l =
     (case callback of None \<Rightarrow> (False, l)
      | Some cb \<Rightarrow>
        if \<not> el_valid l \<or> fd < 0 then (False, l)
        else if \<not> here then (False, l)
        else if um_contains fd (el_callbacks l) then (False, l)
        else if \<not> ctl_ok \<or> um_contains fd (el_interest l) then (False, l)
        else (True, l\<lparr>el_interest := um_emplace fd events (el_interest l),
               el_callbacks := um_emplace fd cb (el_callbacks l)\<rparr>))"

definition update_fd :: "bool \<Rightarrow> bool \<Rightarrow> int \<Rightarrow> u32 \<Rightarrow> ('c, 'f) EventLoop \<Rightarrow> bool \<times> ('c, 'f) EventLoop" where
  "update_fd here ctl_ok fd events l =
     (if \<not> el_valid l \<or> fd < 0 then (False, l)
      else if \<not> here then (False, l)
      else if \<not> um_contains fd (el_callbacks l) then (False, l)
      else if \<not> ctl_ok \<or> \<not> um_contains fd (el_interest l) then (False, l)
      else (True, l\<lparr>el_interest := um_assign fd events (el_interest l)\<rparr>))"

definition remove_fd :: "bool \<Rightarrow> bool \<Rightarrow> int \<Rightarrow> ('c, 'f) EventLoop \<Rightarrow> bool \<times> ('c, 'f) EventLoop" where
  "remove_fd here ctl_ok fd l =
     (if \<not> el_valid l \<or> fd < 0 then (False, l)
      else if \<not> here then (False, l)
      else if \<not> um_contains fd (el_callbacks l) then (False, l)
      else if \<not> ctl_ok \<or> \<not> um_contains fd (el_interest l) then (False, l)
      else (True, l\<lparr>el_interest := um_erase fd (el_interest l),
             el_callbacks := um_erase fd (el_callbacks l)\<rparr>))"

section \<open>Waking up\<close>

text \<open>The retry loop of \<open>wakeup\<close>: \<open>Again\<close> means that the eventfd is readable to the brim.\<close>

primrec wakeup_loop :: "sys list \<Rightarrow> ('c, 'f) EventLoop \<Rightarrow> ('c, 'f) EventLoop" where
  "wakeup_loop [] l = l"
| "wakeup_loop (a # os) l =
     (case a of Ok \<Rightarrow> l\<lparr>el_signal := True\<rparr> | Intr \<Rightarrow> wakeup_loop os l | Again \<Rightarrow> l | Error \<Rightarrow> l)"

definition wakeup :: "sys list \<Rightarrow> ('c, 'f) EventLoop \<Rightarrow> ('c, 'f) EventLoop" where
  "wakeup os l = (if el_wakeup_fd l = -1 then l else wakeup_loop os l)"

primrec drain_wakeup :: "sys list \<Rightarrow> ('c, 'f) EventLoop \<Rightarrow> ('c, 'f) EventLoop" where
  "drain_wakeup [] l = l"
| "drain_wakeup (a # os) l =
     (case a of Ok \<Rightarrow> drain_wakeup os (l\<lparr>el_signal := False\<rparr>) | Intr \<Rightarrow> drain_wakeup os l | Again \<Rightarrow> l | Error \<Rightarrow> l)"

definition handle_wakeup :: "u32 \<Rightarrow> sys list \<Rightarrow> ('c, 'f) EventLoop \<Rightarrow> ('c, 'f) EventLoop" where
  "handle_wakeup events os l = (if events AND EPOLLIN = 0 then l else drain_wakeup os l)"

section \<open>Functors\<close>

definition queue_in_loop :: "sys list \<Rightarrow> 'f option \<Rightarrow> ('c, 'f) EventLoop \<Rightarrow> ('c, 'f) EventLoop" where
  "queue_in_loop os functor l =
     (case functor of None \<Rightarrow> l
      | Some f \<Rightarrow> wakeup os (l\<lparr>el_pending_functors := el_pending_functors l @ [f]\<rparr>))"

text \<open>\<open>run_in_loop\<close>: the functor to call at once, if it is to be called at once.\<close>

definition run_in_loop :: "bool \<Rightarrow> sys list \<Rightarrow> 'f option \<Rightarrow> ('c, 'f) EventLoop \<Rightarrow> 'f option \<times> ('c, 'f) EventLoop" where
  "run_in_loop here os functor l =
     (case functor of None \<Rightarrow> (None, l)
      | Some f \<Rightarrow> if here then (Some f, l) else (None, queue_in_loop os (Some f) l))"

definition take_pending_functors :: "('c, 'f) EventLoop \<Rightarrow> 'f list \<times> ('c, 'f) EventLoop" where
  "take_pending_functors l = (el_pending_functors l, l\<lparr>el_pending_functors := []\<rparr>)"

definition el_quit_request :: "bool \<Rightarrow> sys list \<Rightarrow> ('c, 'f) EventLoop \<Rightarrow> ('c, 'f) EventLoop" where
  "el_quit_request here os l = (let l' = l\<lparr>el_quit := True\<rparr> in if \<not> here then wakeup os l' else l')"

section \<open>Construction\<close>

text \<open>The results of \<open>epoll_create1\<close> and \<open>eventfd\<close> (\<open>-1\<close> for an error).\<close>

definition EventLoop_new :: "nat \<Rightarrow> int \<Rightarrow> int \<Rightarrow> bool \<Rightarrow> 'c \<Rightarrow> ('c, 'f) EventLoop" where
  "EventLoop_new max_events epoll_fd wakeup_fd ctl_ok wakeup_callback =
     (let l = \<lparr>el_epoll_fd = -1, el_wakeup_fd = -1, el_quit = False, el_looping = False,
                el_max_events = (if max_events = 0 then 1 else max_events), el_callbacks = [],
                el_pending_functors = [], el_interest = [], el_signal = False\<rparr> in
      if epoll_fd = -1 then l
      else if wakeup_fd = -1 then l
      else case add_fd True ctl_ok wakeup_fd (EPOLLIN OR EPOLLET) (Some wakeup_callback)
             (l\<lparr>el_epoll_fd := epoll_fd, el_wakeup_fd := wakeup_fd\<rparr>) of
        (added, l') \<Rightarrow> if \<not> added then l'\<lparr>el_epoll_fd := -1, el_wakeup_fd := -1\<rparr> else l')"

section \<open>The loop\<close>

text \<open>
  Where the loop's thread is: outside, at the loop's condition, in \<open>epoll_wait\<close>, with events
  left to dispatch, with functors left to run, or returned.
\<close>

datatype 'f phase = Outside | Checking | Polling | Dispatching "(int \<times> u32) list" | Running "'f list" | Ended bool

definition loop_enter :: "bool \<Rightarrow> ('c, 'f) EventLoop \<Rightarrow> 'f phase \<times> ('c, 'f) EventLoop" where
  "loop_enter here l =
     (if \<not> el_valid l then (Ended False, l)
      else if \<not> here then (Ended False, l)
      else if el_looping l then (Ended False, l)
      else (Checking, l\<lparr>el_looping := True\<rparr>))"

definition loop_check :: "('c, 'f) EventLoop \<Rightarrow> 'f phase \<times> ('c, 'f) EventLoop" where
  "loop_check l = (if el_quit l then (Ended True, l\<lparr>el_looping := False\<rparr>) else (Polling, l))"

text \<open>\<open>epoll_wait\<close>: \<open>Ok\<close> with the events it returned, interrupted, or failed.\<close>

definition loop_polled :: "sys \<Rightarrow> (int \<times> u32) list \<Rightarrow> ('c, 'f) EventLoop \<Rightarrow> 'f phase \<times> ('c, 'f) EventLoop" where
  "loop_polled a ready l =
     (case a of Ok \<Rightarrow> (Dispatching ready, l) | Intr \<Rightarrow> (Checking, l) | _ \<Rightarrow> (Ended False, l\<lparr>el_looping := False\<rparr>))"

text \<open>The event at the head of the list: the callback to call, if the descriptor has one.\<close>

definition event_callback :: "int \<Rightarrow> ('c, 'f) EventLoop \<Rightarrow> 'c option" where
  "event_callback fd l = um_find fd (el_callbacks l)"

text \<open>After a callback the rest of the events is dropped when the loop is to quit.\<close>

definition after_callback :: "(int \<times> u32) list \<Rightarrow> ('c, 'f) EventLoop \<Rightarrow> 'f phase" where
  "after_callback ready l = (if el_quit l then Dispatching [] else Dispatching ready)"

end
