(* ===== verification/Loop_World.thy ===== *)
theory Loop_World
  imports Event_Loop
begin

text \<open>
  An event loop among other threads: the steps of its own thread through \<open>EventLoop::loop\<close>, and
  calls of the interface from its callbacks and functors and from other threads at any moment.
  The history of the queued and of the executed functors is kept.
\<close>

record ('c, 'f) loop_world =
  lw_loop :: "('c, 'f) EventLoop"
  lw_phase :: "'f phase"
  lw_queued :: "'f list"
  lw_ran :: "'f list"

text \<open>Writing an eventfd succeeds after interruptions, or fails because it is already readable.\<close>

definition eventfd_write :: "sys list \<Rightarrow> ('c, 'f) EventLoop \<Rightarrow> bool" where
  "eventfd_write os l \<longleftrightarrow> (\<exists>n a rest. os = replicate n Intr @ a # rest \<and> (a = Ok \<or> a = Again \<and> el_signal l))"

definition ready_ok :: "(int \<times> u32) list \<Rightarrow> ('c, 'f) EventLoop \<Rightarrow> bool" where
  "ready_ok ready l \<longleftrightarrow> length ready \<le> el_max_events l \<and> (\<forall>(fd, ev)\<in>set ready. um_contains fd (el_interest l))"

text \<open>Outside \<open>epoll_wait\<close> and the loop's own bookkeeping its thread runs the program's code.\<close>

fun calls_out :: "'f phase \<Rightarrow> bool" where
  "calls_out Outside = True"
| "calls_out (Dispatching es) = True"
| "calls_out (Running fs) = True"
| "calls_out _ = False"

definition loop_started :: "('c, 'f) loop_world \<Rightarrow> bool" where
  "loop_started w \<longleftrightarrow> (\<exists>n efd wfd cb. lw_loop w = EventLoop_new n efd wfd True cb \<and> el_valid (lw_loop w) \<and>
     0 \<le> wfd \<and> lw_phase w = Outside \<and> lw_queued w = [] \<and> lw_ran w = [])"

definition set_loop :: "('c, 'f) EventLoop \<Rightarrow> ('c, 'f) loop_world \<Rightarrow> ('c, 'f) loop_world" where
  "set_loop l w = w\<lparr>lw_loop := l\<rparr>"

definition set_phase :: "'f phase \<times> ('c, 'f) EventLoop \<Rightarrow> ('c, 'f) loop_world \<Rightarrow> ('c, 'f) loop_world" where
  "set_phase pl w = w\<lparr>lw_phase := fst pl, lw_loop := snd pl\<rparr>"

inductive loop_step :: "('c, 'f) loop_world \<Rightarrow> ('c, 'f) loop_world \<Rightarrow> bool" where
  ls_enter: "lw_phase w = Outside \<Longrightarrow> loop_step w (set_phase (loop_enter True (lw_loop w)) w)"
| ls_check: "lw_phase w = Checking \<Longrightarrow> loop_step w (set_phase (loop_check (lw_loop w)) w)"
| ls_polled: "lw_phase w = Polling \<Longrightarrow> ready_ok ready (lw_loop w) \<Longrightarrow>
    loop_step w (set_phase (loop_polled a ready (lw_loop w)) w)"
| ls_skip: "lw_phase w = Dispatching ((fd, ev) # ready) \<Longrightarrow> event_callback fd (lw_loop w) = None \<Longrightarrow>
    loop_step w (w\<lparr>lw_phase := Dispatching ready\<rparr>)"
| ls_wakeup: "lw_phase w = Dispatching ((fd, ev) # ready) \<Longrightarrow> fd = el_wakeup_fd (lw_loop w) \<Longrightarrow>
    loop_step w (let l = handle_wakeup ev os (lw_loop w) in w\<lparr>lw_loop := l, lw_phase := after_callback ready l\<rparr>)"
| ls_event: "lw_phase w = Dispatching ((fd, ev) # ready) \<Longrightarrow> event_callback fd (lw_loop w) = Some cb \<Longrightarrow>
    loop_step w (w\<lparr>lw_phase := after_callback ready (lw_loop w)\<rparr>)"
| ls_pending: "lw_phase w = Dispatching [] \<Longrightarrow> take_pending_functors (lw_loop w) = (fs, l) \<Longrightarrow>
    loop_step w (w\<lparr>lw_phase := Running fs, lw_loop := l\<rparr>)"
| ls_run: "lw_phase w = Running (f # fs) \<Longrightarrow> loop_step w (w\<lparr>lw_phase := Running fs, lw_ran := lw_ran w @ [f]\<rparr>)"
| ls_again: "lw_phase w = Running [] \<Longrightarrow> loop_step w (w\<lparr>lw_phase := Checking\<rparr>)"
| ls_queue: "eventfd_write os (lw_loop w) \<Longrightarrow>
    loop_step w (w\<lparr>lw_loop := queue_in_loop os (Some f) (lw_loop w), lw_queued := lw_queued w @ [f]\<rparr>)"
| ls_add: "calls_out (lw_phase w) \<Longrightarrow> fd \<noteq> el_wakeup_fd (lw_loop w) \<Longrightarrow>
    loop_step w (set_loop (snd (add_fd True ok fd ev cb (lw_loop w))) w)"
| ls_update: "calls_out (lw_phase w) \<Longrightarrow> loop_step w (set_loop (snd (update_fd True ok fd ev (lw_loop w))) w)"
| ls_remove: "calls_out (lw_phase w) \<Longrightarrow> fd \<noteq> el_wakeup_fd (lw_loop w) \<Longrightarrow>
    loop_step w (set_loop (snd (remove_fd True ok fd (lw_loop w))) w)"
| ls_quit_here: "calls_out (lw_phase w) \<Longrightarrow> loop_step w (set_loop (el_quit_request True os (lw_loop w)) w)"
| ls_quit: "eventfd_write os (lw_loop w) \<Longrightarrow> loop_step w (set_loop (el_quit_request False os (lw_loop w)) w)"

inductive_cases loop_stepE: "loop_step w w'"

section \<open>The invariant\<close>

text \<open>A descriptor has a callback exactly if the kernel watches it.\<close>

definition fds_inv :: "('c, 'f) EventLoop \<Rightarrow> bool" where
  "fds_inv l \<longleftrightarrow> um_wf (el_callbacks l) \<and> um_wf (el_interest l) \<and>
     (\<forall>fd. um_contains fd (el_callbacks l) = um_contains fd (el_interest l))"

lemma fds_inv_add: "fds_inv l \<Longrightarrow> fds_inv (snd (add_fd here ok fd ev cb l))"
  by (auto simp: add_fd_def fds_inv_def um_contains_def split: option.splits)

lemma fds_inv_update: "fds_inv l \<Longrightarrow> fds_inv (snd (update_fd here ok fd ev l))"
  by (auto simp: update_fd_def fds_inv_def um_contains_def)

lemma fds_inv_remove: "fds_inv l \<Longrightarrow> fds_inv (snd (remove_fd here ok fd l))"
  by (auto simp: remove_fd_def fds_inv_def um_contains_def)

lemma fds_contains_add:
  "fd' \<noteq> fd \<Longrightarrow> um_contains fd' (el_interest (snd (add_fd here ok fd ev cb l))) = um_contains fd' (el_interest l)"
  by (auto simp: add_fd_def um_contains_def split: option.splits)

lemma fds_contains_update:
  "um_contains fd' (el_interest (snd (update_fd here ok fd ev l))) = um_contains fd' (el_interest l)"
  by (auto simp: update_fd_def um_contains_def)

lemma fds_contains_remove:
  "fd' \<noteq> fd \<Longrightarrow> um_contains fd' (el_interest (snd (remove_fd here ok fd l))) = um_contains fd' (el_interest l)"
  by (auto simp: remove_fd_def um_contains_def)

lemma fd_ops_frame:
  "el_pending_functors (snd (add_fd here ok fd ev cb l)) = el_pending_functors l"
  "el_pending_functors (snd (update_fd here ok fd ev l)) = el_pending_functors l"
  "el_pending_functors (snd (remove_fd here ok fd l)) = el_pending_functors l"
  "el_signal (snd (add_fd here ok fd ev cb l)) = el_signal l"
  "el_signal (snd (update_fd here ok fd ev l)) = el_signal l"
  "el_signal (snd (remove_fd here ok fd l)) = el_signal l"
  "el_valid (snd (add_fd here ok fd ev cb l)) = el_valid l"
  "el_valid (snd (update_fd here ok fd ev l)) = el_valid l"
  "el_valid (snd (remove_fd here ok fd l)) = el_valid l"
  "el_wakeup_fd (snd (add_fd here ok fd ev cb l)) = el_wakeup_fd l"
  "el_wakeup_fd (snd (update_fd here ok fd ev l)) = el_wakeup_fd l"
  "el_wakeup_fd (snd (remove_fd here ok fd l)) = el_wakeup_fd l"
  "el_quit (snd (add_fd here ok fd ev cb l)) = el_quit l"
  "el_quit (snd (update_fd here ok fd ev l)) = el_quit l"
  "el_quit (snd (remove_fd here ok fd l)) = el_quit l"
  by (auto simp: add_fd_def update_fd_def remove_fd_def el_valid_def split: option.splits)

definition same_but_signal :: "('c, 'f) EventLoop \<Rightarrow> ('c, 'f) EventLoop \<Rightarrow> bool" where
  "same_but_signal l l' \<longleftrightarrow> (\<exists>b. l' = l\<lparr>el_signal := b\<rparr>)"

lemma same_but_signal_id: "same_but_signal l l"
  unfolding same_but_signal_def by (rule exI [of _ "el_signal l"]) simp

lemma wakeup_loop_wakes:
  assumes "eventfd_write os l"
  shows "wakeup_loop os l = l\<lparr>el_signal := True\<rparr>"
proof -
  obtain n a rest where os: "os = replicate n Intr @ a # rest" and a: "a = Ok \<or> a = Again \<and> el_signal l"
    using assms unfolding eventfd_write_def by blast
  have "wakeup_loop os l = wakeup_loop (a # rest) l" unfolding os by (induction n) simp_all
  then show ?thesis using a by (cases l) auto
qed

lemma drain_wakeup_same: "same_but_signal l (drain_wakeup os l)"
proof (induction os arbitrary: l)
  case Nil
  show ?case by (simp add: same_but_signal_id)
next
  case (Cons a os)
  show ?case
    using Cons.IH [of l] Cons.IH [of "l\<lparr>el_signal := False\<rparr>"]
    by (cases a) (auto simp: same_but_signal_id same_but_signal_def)
qed

fun batch :: "'f phase \<Rightarrow> 'f list" where
  "batch (Running fs) = fs"
| "batch _ = []"

text \<open>Where the loop cannot take up queued functors without being woken.\<close>

fun needs_signal :: "'f phase \<Rightarrow> bool" where
  "needs_signal (Dispatching es) = False"
| "needs_signal (Ended b) = False"
| "needs_signal _ = True"

definition loop_inv :: "('c, 'f) loop_world \<Rightarrow> bool" where
  "loop_inv w \<longleftrightarrow> (let l = lw_loop w in
     el_valid l \<and> fds_inv l \<and> um_contains (el_wakeup_fd l) (el_interest l) \<and>
     lw_queued w = lw_ran w @ batch (lw_phase w) @ el_pending_functors l \<and>
     (needs_signal (lw_phase w) \<and> el_pending_functors l \<noteq> [] \<longrightarrow> el_signal l) \<and>
     (lw_phase w = Polling \<and> el_quit l \<longrightarrow> el_signal l))"

lemma loop_inv_started: "loop_started w \<Longrightarrow> loop_inv w"
  by (auto simp: loop_started_def loop_inv_def EventLoop_new_def add_fd_def fds_inv_def el_valid_def um_contains_def
      Let_def split: if_splits)

lemma loop_inv_api:
  assumes "loop_inv w" and "el_valid l'" and "fds_inv l'" and "um_contains (el_wakeup_fd l') (el_interest l')"
    and "el_pending_functors l' = el_pending_functors (lw_loop w)" and "el_signal (lw_loop w) \<longrightarrow> el_signal l'"
    and "lw_phase w = Polling \<and> el_quit l' \<longrightarrow> el_quit (lw_loop w) \<or> el_signal l'"
  shows "loop_inv (set_loop l' w)"
  using assms unfolding loop_inv_def Let_def by (auto simp: set_loop_def)

lemma loop_inv_queue:
  assumes "loop_inv w" and "eventfd_write os (lw_loop w)"
  shows "loop_inv (w\<lparr>lw_loop := queue_in_loop os (Some f) (lw_loop w), lw_queued := lw_queued w @ [f]\<rparr>)"
proof -
  let ?l = "(lw_loop w)\<lparr>el_pending_functors := el_pending_functors (lw_loop w) @ [f]\<rparr>"
  have "eventfd_write os ?l" using assms(2) by (simp add: eventfd_write_def)
  then have "queue_in_loop os (Some f) (lw_loop w) = ?l\<lparr>el_signal := True\<rparr>"
    using assms(1) wakeup_loop_wakes [of os ?l] by (simp add: queue_in_loop_def wakeup_def loop_inv_def el_valid_def Let_def)
  then show ?thesis
    using assms(1) by (simp add: loop_inv_def Let_def fds_inv_def el_valid_def)
qed

lemma loop_inv_step:
  assumes inv: "loop_inv w" and "loop_step w w'"
  shows "loop_inv w'"
  using assms(2)
proof cases
  case ls_enter
  then show ?thesis
    using inv by (auto simp: set_phase_def loop_enter_def loop_inv_def Let_def fds_inv_def el_valid_def)
next
  case ls_check
  then show ?thesis
    using inv by (auto simp: set_phase_def loop_check_def loop_inv_def Let_def fds_inv_def el_valid_def)
next
  case (ls_polled ready a)
  then show ?thesis
    using inv by (cases a) (auto simp: set_phase_def loop_polled_def loop_inv_def Let_def fds_inv_def el_valid_def)
next
  case (ls_wakeup fd ev ready os)
  have "same_but_signal (lw_loop w) (handle_wakeup ev os (lw_loop w))"
    by (simp add: handle_wakeup_def drain_wakeup_same same_but_signal_id)
  then show ?thesis
    using inv ls_wakeup
    by (auto simp: same_but_signal_def after_callback_def loop_inv_def Let_def fds_inv_def el_valid_def)
next
  case (ls_pending fs l)
  then show ?thesis
    using inv by (auto simp: take_pending_functors_def loop_inv_def Let_def fds_inv_def el_valid_def)
next
  case (ls_queue os f)
  then show ?thesis using loop_inv_queue [OF inv] by simp
next
  case (ls_add fd ok ev cb)
  then show ?thesis
    using inv unfolding ls_add(1)
    by (intro loop_inv_api [OF inv]) (auto simp: loop_inv_def Let_def fd_ops_frame fds_inv_add fds_contains_add)
next
  case (ls_update ok fd ev)
  then show ?thesis
    using inv unfolding ls_update(1)
    by (intro loop_inv_api [OF inv]) (auto simp: loop_inv_def Let_def fd_ops_frame fds_inv_update fds_contains_update)
next
  case (ls_remove fd ok)
  then show ?thesis
    using inv unfolding ls_remove(1)
    by (intro loop_inv_api [OF inv]) (auto simp: loop_inv_def Let_def fd_ops_frame fds_inv_remove fds_contains_remove)
next
  case (ls_quit_here os)
  then show ?thesis
    using inv unfolding ls_quit_here(1)
    by (intro loop_inv_api [OF inv])
      (auto simp: el_quit_request_def loop_inv_def Let_def fds_inv_def el_valid_def)
next
  case (ls_quit os)
  have "eventfd_write os ((lw_loop w)\<lparr>el_quit := True\<rparr>)" using ls_quit(2) by (simp add: eventfd_write_def)
  then have "el_quit_request False os (lw_loop w) = (lw_loop w)\<lparr>el_quit := True, el_signal := True\<rparr>"
    using inv wakeup_loop_wakes [of os "(lw_loop w)\<lparr>el_quit := True\<rparr>"]
    by (simp add: el_quit_request_def wakeup_def loop_inv_def el_valid_def Let_def)
  then show ?thesis
    using inv unfolding ls_quit(1)
    by (intro loop_inv_api [OF inv]) (auto simp: loop_inv_def Let_def fds_inv_def el_valid_def)
qed (use inv in \<open>auto simp: after_callback_def loop_inv_def Let_def\<close>)

interpretation event_loop: invariant_system loop_started loop_step loop_inv
  by unfold_locales (auto intro: loop_inv_started loop_inv_step)


text \<open>Two functors are queued by another thread before the loop is entered; it polls.\<close>

definition demo_loop :: "(nat, nat) EventLoop" where
  "demo_loop = EventLoop_new 8 5 6 True 0"

definition demo_loop_world :: "(nat, nat) loop_world" where
  "demo_loop_world = (let w0 = \<lparr>lw_loop = demo_loop, lw_phase = Outside, lw_queued = [], lw_ran = []\<rparr>;
     w1 = w0\<lparr>lw_loop := queue_in_loop [Intr, Ok] (Some 1) (lw_loop w0), lw_queued := lw_queued w0 @ [1]\<rparr>;
     w2 = set_phase (loop_enter True (lw_loop w1)) w1 in set_phase (loop_check (lw_loop w2)) w2)"


end
