(* ===== verification/Tick_Timer.thy ===== *)
theory Tick_Timer
  imports Loop_World
begin

text \<open>
  \<open>TickTimer\<close> (\<open>src/tick_timer.cpp\<close>) and \<open>ShutdownSignal\<close> (\<open>src/shutdown_signal.cpp\<close>): two
  objects that own a descriptor (a timerfd, a signalfd) and register it with an event loop
  while they run. System call results are arguments; what a loop of \<open>read\<close> calls saw is a
  pair of the values read (\<open>None\<close>: interrupted) and whether it ended with \<open>EAGAIN\<close>. The
  kernel's setting of the timer is part of the state.
\<close>

section \<open>\<open>TickTimer\<close>\<close>

datatype RunStates = rn_stopped | rn_running

record TickTimer =
  tt_loop :: bool \<comment> \<open>the loop pointer is not null\<close>
  tt_timer_fd :: int
  tt_interval_ms :: u64
  tt_callback :: bool
  tt_state :: RunStates
  tt_armed :: "(u64 \<times> u64) option" \<comment> \<open>the period set in the kernel, in seconds and nanoseconds\<close>

type_synonym timer_reads = "u64 option list \<times> bool"

definition TickTimer_new :: "bool \<Rightarrow> ('c, 'f) EventLoop \<Rightarrow> u64 \<Rightarrow> bool \<Rightarrow> int \<Rightarrow> TickTimer" where
  "TickTimer_new loop l interval_ms callback create_result =
     \<lparr>tt_loop = loop,
      tt_timer_fd = (if \<not> loop \<or> \<not> el_valid l \<or> interval_ms = 0 \<or> \<not> callback then -1 else create_result),
      tt_interval_ms = interval_ms, tt_callback = callback, tt_state = rn_stopped, tt_armed = None\<rparr>"

definition timer_valid :: "('c, 'f) EventLoop \<Rightarrow> TickTimer \<Rightarrow> bool" where
  "timer_valid l t \<longleftrightarrow> \<not> (\<not> tt_loop t \<or> \<not> el_valid l \<or> \<not> tt_callback t) \<and> tt_interval_ms t > 0 \<and> tt_timer_fd t \<noteq> -1"

text \<open>\<open>timerfd_settime\<close>: a period of zero disarms.\<close>

definition settime :: "bool \<Rightarrow> u64 \<times> u64 \<Rightarrow> TickTimer \<Rightarrow> bool \<times> TickTimer" where
  "settime ok period t =
     (if \<not> ok \<or> tt_timer_fd t = -1 then (False, t)
      else (True, t\<lparr>tt_armed := if period = (0, 0) then None else Some period\<rparr>))"

definition close_timer :: "TickTimer \<Rightarrow> TickTimer" where
  "close_timer t = t\<lparr>tt_timer_fd := -1, tt_armed := None\<rparr>"

primrec add_expirations :: "u64 option list \<Rightarrow> u64 \<Rightarrow> u64" where
  "add_expirations [] expirations = expirations"
| "add_expirations (v # vs) expirations =
     (case v of None \<Rightarrow> add_expirations vs expirations | Some value \<Rightarrow> add_expirations vs (expirations + value))"

definition read_expirations :: "timer_reads \<Rightarrow> bool \<times> u64" where
  "read_expirations rd = (snd rd, add_expirations (fst rd) 0)"

record timer_env =
  te_here :: bool
  te_settime_ok :: bool
  te_ctl_ok :: bool
  te_disarm_ok :: bool
  te_reads :: timer_reads

definition timer_start ::
  "timer_env \<Rightarrow> 'c \<Rightarrow> ('c, 'f) EventLoop \<Rightarrow> TickTimer \<Rightarrow> bool \<times> ('c, 'f) EventLoop \<times> TickTimer" where
  "timer_start e cb l t =
     (if tt_state t = rn_running then (False, l, t)
      else if \<not> tt_loop t \<or> \<not> tt_callback t \<or> \<not> te_here e then (False, l, t)
      else case settime (te_settime_ok e) (tt_interval_ms t div 1000, (tt_interval_ms t mod 1000) * 1000000) t of
        (set_ok, t1) \<Rightarrow>
        if \<not> set_ok then (False, l, t1)
        else case add_fd (te_here e) (te_ctl_ok e) (tt_timer_fd t1) (EPOLLIN OR EPOLLET) (Some cb) l of
          (added, l') \<Rightarrow>
          if \<not> added then
            (case settime (te_disarm_ok e) (0, 0) t1 of (disarmed, t2) \<Rightarrow>
               (False, l', if \<not> disarmed \<or> \<not> fst (read_expirations (te_reads e)) then close_timer t2 else t2))
          else (True, l', t1\<lparr>tt_state := rn_running\<rparr>))"

definition timer_stop ::
  "timer_env \<Rightarrow> ('c, 'f) EventLoop \<Rightarrow> TickTimer \<Rightarrow> bool \<times> ('c, 'f) EventLoop \<times> TickTimer" where
  "timer_stop e l t =
     (if \<not> tt_loop t \<or> \<not> te_here e then (False, l, t)
      else if tt_state t = rn_stopped then (True, l, t)
      else case remove_fd (te_here e) (te_ctl_ok e) (tt_timer_fd t) l of
        (removed, l') \<Rightarrow>
        if \<not> removed then (False, l', t)
        else case settime (te_disarm_ok e) (0, 0) t of
          (disarmed, t1) \<Rightarrow>
          if \<not> disarmed then (False, l', (close_timer t1)\<lparr>tt_state := rn_stopped\<rparr>)
          else if \<not> fst (read_expirations (te_reads e)) then (False, l', (close_timer t1)\<lparr>tt_state := rn_stopped\<rparr>)
          else (True, l', t1\<lparr>tt_state := rn_stopped\<rparr>))"

text \<open>What \<open>handle_read\<close> passes to the callback, if it calls it.\<close>

definition timer_handle_read :: "u32 \<Rightarrow> timer_reads \<Rightarrow> TickTimer \<Rightarrow> u64 option" where
  "timer_handle_read events rd t =
     (if tt_state t \<noteq> rn_running \<or> events AND EPOLLIN = 0 then None
      else case read_expirations rd of
        (ok, expirations) \<Rightarrow>
        if \<not> ok then None
        else if expirations > 0 \<and> tt_callback t then Some expirations else None)"

section \<open>\<open>ShutdownSignal\<close>\<close>

definition SIGINT :: u32 where "SIGINT = 2"
definition SIGTERM :: u32 where "SIGTERM = 15"

record ShutdownSignal =
  sg_loop :: bool
  sg_signal_fd :: int
  sg_mask_blocked :: bool
  sg_state :: RunStates

type_synonym signal_reads = "u32 option list \<times> bool"

text \<open>The constructor: building the mask, blocking it, creating the signalfd (\<open>-1\<close>: failed) and,
  then, restoring the mask.\<close>

definition ShutdownSignal_new ::
  "bool \<Rightarrow> ('c, 'f) EventLoop \<Rightarrow> bool \<Rightarrow> bool \<Rightarrow> int \<Rightarrow> bool \<Rightarrow> ShutdownSignal" where
  "ShutdownSignal_new loop l mask_ok block_ok create_result restore_ok =
     (let s = \<lparr>sg_loop = loop, sg_signal_fd = -1, sg_mask_blocked = False, sg_state = rn_stopped\<rparr> in
      if \<not> loop \<or> \<not> el_valid l then s
      else if \<not> mask_ok then s
      else if \<not> block_ok then s
      else s\<lparr>sg_signal_fd := create_result, sg_mask_blocked := \<not> (create_result = -1 \<and> restore_ok)\<rparr>)"

definition signal_valid :: "('c, 'f) EventLoop \<Rightarrow> ShutdownSignal \<Rightarrow> bool" where
  "signal_valid l s \<longleftrightarrow> sg_loop s \<and> el_valid l \<and> sg_signal_fd s \<noteq> -1 \<and> sg_mask_blocked s"

definition signal_start ::
  "bool \<Rightarrow> bool \<Rightarrow> 'c \<Rightarrow> ('c, 'f) EventLoop \<Rightarrow> ShutdownSignal \<Rightarrow> bool \<times> ('c, 'f) EventLoop \<times> ShutdownSignal" where
  "signal_start here ctl_ok cb l s =
     (if sg_state s = rn_running then (False, l, s)
      else if \<not> signal_valid l s \<or> \<not> here then (False, l, s)
      else case add_fd here ctl_ok (sg_signal_fd s) (EPOLLIN OR EPOLLET) (Some cb) l of
        (added, l') \<Rightarrow> if \<not> added then (False, l', s) else (True, l', s\<lparr>sg_state := rn_running\<rparr>))"

definition signal_stop ::
  "bool \<Rightarrow> bool \<Rightarrow> ('c, 'f) EventLoop \<Rightarrow> ShutdownSignal \<Rightarrow> bool \<times> ('c, 'f) EventLoop \<times> ShutdownSignal" where
  "signal_stop here ctl_ok l s =
     (if \<not> sg_loop s \<or> \<not> here then (False, l, s)
      else if sg_state s = rn_stopped then (True, l, s)
      else case remove_fd here ctl_ok (sg_signal_fd s) l of
        (removed, l') \<Rightarrow> if \<not> removed then (False, l', s) else (True, l', s\<lparr>sg_state := rn_stopped\<rparr>))"

primrec shutdown_in :: "u32 option list \<Rightarrow> bool \<Rightarrow> bool" where
  "shutdown_in [] shutdown_requested = shutdown_requested"
| "shutdown_in (v # vs) shutdown_requested =
     (case v of None \<Rightarrow> shutdown_in vs shutdown_requested
      | Some signo \<Rightarrow> shutdown_in vs (if signo = SIGINT \<or> signo = SIGTERM then True else shutdown_requested))"

definition read_signals :: "signal_reads \<Rightarrow> bool \<times> bool" where
  "read_signals rd = (snd rd, shutdown_in (fst rd) False)"

text \<open>\<open>handle_read\<close> runs on the loop's thread, where \<open>quit\<close> writes nothing.\<close>

definition signal_handle_read ::
  "u32 \<Rightarrow> signal_reads \<Rightarrow> ShutdownSignal \<Rightarrow> ('c, 'f) EventLoop \<Rightarrow> ('c, 'f) EventLoop" where
  "signal_handle_read events rd s l =
     (if sg_state s \<noteq> rn_running then l
      else if events AND EPOLLIN = 0 then el_quit_request True [] l
      else case read_signals rd of
        (ok, shutdown_requested) \<Rightarrow>
        if \<not> ok then el_quit_request True [] l
        else if shutdown_requested then el_quit_request True [] l else l)"

section \<open>Running means registered\<close>

text \<open>An object that registers a descriptor while it runs: the contract both share.\<close>

locale registered_source =
  fixes fd_of :: "'t \<Rightarrow> int"
    and running :: "'t \<Rightarrow> bool"
    and start :: "'e \<Rightarrow> ('c, 'f) EventLoop \<Rightarrow> 't \<Rightarrow> bool \<times> ('c, 'f) EventLoop \<times> 't"
    and stop :: "'e \<Rightarrow> ('c, 'f) EventLoop \<Rightarrow> 't \<Rightarrow> bool \<times> ('c, 'f) EventLoop \<times> 't"
    and usable :: "'t \<Rightarrow> bool"
  assumes start_cases: "start e l t = (ok, l', t') \<Longrightarrow> fds_inv l \<Longrightarrow> usable t \<Longrightarrow>
      (running t \<longrightarrow> \<not> ok \<and> l' = l \<and> t' = t) \<and>
      (\<not> running t \<longrightarrow> running t' = ok \<and> usable t' \<and>
        (ok \<longrightarrow> fd_of t' = fd_of t \<and> 0 \<le> fd_of t \<and> (\<exists>ctl ev cb. add_fd True ctl (fd_of t) ev cb l = (True, l'))) \<and>
        (\<not> ok \<longrightarrow> l' = l \<and> (fd_of t' = fd_of t \<or> fd_of t' = -1)))"
    and stop_cases: "stop e l t = (ok, l', t') \<Longrightarrow> fds_inv l \<Longrightarrow> usable t \<Longrightarrow>
      (\<not> running t \<longrightarrow> l' = l \<and> t' = t) \<and>
      (running t \<longrightarrow> usable t' \<and> (ok \<longrightarrow> \<not> running t') \<and>
        (running t' \<longrightarrow> l' = l \<and> t' = t) \<and>
        (\<not> running t' \<longrightarrow> (fd_of t' = fd_of t \<or> fd_of t' = -1) \<and> (\<exists>ctl. remove_fd True ctl (fd_of t) l = (True, l'))))"
begin

definition source_inv :: "int \<Rightarrow> ('c, 'f) EventLoop \<Rightarrow> 't \<Rightarrow> bool" where
  "source_inv fd l t \<longleftrightarrow> fds_inv l \<and> usable t \<and> running t = um_contains fd (el_interest l) \<and>
     (if running t then fd_of t = fd else fd_of t = fd \<or> fd_of t = -1)"

lemma source_start:
  assumes "source_inv fd l t" and "0 \<le> fd" and "start e l t = (ok, l', t')"
  shows "source_inv fd l' t'"
proof (cases "running t")
  case True
  then show ?thesis using start_cases [OF assms(3)] assms(1) by (auto simp: source_inv_def)
next
  case False
  note c = start_cases [OF assms(3), THEN conjunct2, rule_format, OF _ _ False]
  have inv: "fds_inv l" "usable t" "\<not> um_contains fd (el_interest l)" "fd_of t = fd \<or> fd_of t = -1"
    using assms(1) False by (auto simp: source_inv_def)
  show ?thesis
  proof (cases ok)
    case True
    then obtain ctl ev cb where a: "add_fd True ctl (fd_of t) ev cb l = (True, l')" "fd_of t' = fd_of t" "0 \<le> fd_of t"
        "running t'" "usable t'" using c inv by blast
    have "fds_inv l'" using fds_inv_add [OF inv(1), of True ctl "fd_of t" ev cb] a(1) by simp
    moreover have "um_contains (fd_of t) (el_interest l')"
      using a(1) by (auto simp: add_fd_def um_contains_def split: option.splits if_splits)
    ultimately show ?thesis using a inv(4) by (auto simp: source_inv_def)
  next
    case no: False
    then show ?thesis using c inv by (auto simp: source_inv_def)
  qed
qed

lemma source_stop:
  assumes "source_inv fd l t" and "stop e l t = (ok, l', t')"
  shows "source_inv fd l' t' \<and> (ok \<longrightarrow> \<not> running t')"
proof (cases "running t")
  case False
  then show ?thesis using stop_cases [OF assms(2)] assms(1) by (auto simp: source_inv_def)
next
  case True
  note c = stop_cases [OF assms(2), THEN conjunct2, rule_format, OF _ _ True]
  have inv: "fds_inv l" "usable t" "um_contains fd (el_interest l)" "fd_of t = fd"
    using assms(1) True by (auto simp: source_inv_def)
  show ?thesis
  proof (cases "running t'")
    case False
    then obtain ctl where a: "remove_fd True ctl fd l = (True, l')" "fd_of t' = fd \<or> fd_of t' = -1" "usable t'"
      using c inv by metis
    have "fds_inv l'" using fds_inv_remove [OF inv(1), of True ctl fd] a(1) by simp
    moreover have "\<not> um_contains fd (el_interest l')"
      using a(1) by (auto simp: remove_fd_def um_contains_def split: if_splits)
    ultimately show ?thesis using a False by (auto simp: source_inv_def)
  next
    case yes: True
    then show ?thesis using c inv assms(1) by auto
  qed
qed

end


definition period_of :: "u64 \<Rightarrow> u64 \<times> u64" where
  "period_of i = (i div 1000, (i mod 1000) * 1000000)"

lemma period_nonzero:
  assumes "i > 0"
  shows "period_of i \<noteq> (0, 0)"
proof
  assume "period_of i = (0, 0)"
  then have "unat (i div 1000) = 0" and m: "unat ((i mod 1000) * 1000000) = 0" by (simp_all add: period_of_def)
  then have "unat i < 1000" by (simp add: unat_div div_eq_0_iff)
  moreover from this have "unat (i mod 1000) = unat i" by (simp add: unat_mod)
  ultimately have "unat ((i mod 1000) * 1000000) = unat i * 1000000"
    by (subst unat_mult_lem [THEN iffD1]) simp_all
  then show False using m assms by (simp add: word_less_nat_alt)
qed

text \<open>The timer is armed with its period exactly while it runs.\<close>

definition timer_usable :: "u64 \<Rightarrow> TickTimer \<Rightarrow> bool" where
  "timer_usable i t \<longleftrightarrow> 0 < i \<and> tt_interval_ms t = i \<and> tt_callback t \<and>
     tt_armed t = (if tt_state t = rn_running then Some (period_of i) else None)"

interpretation timer: registered_source tt_timer_fd "\<lambda>t. tt_state t = rn_running"
  "\<lambda>e. timer_start e cb" timer_stop "timer_usable i" for cb i
proof
  fix e and l l' :: "('a, 'b) EventLoop" and t t' ok
  assume e: "timer_start e cb l t = (ok, l', t')" and l: "fds_inv l" and t: "timer_usable i t"
  show "(tt_state t = rn_running \<longrightarrow> \<not> ok \<and> l' = l \<and> t' = t) \<and>
      (tt_state t \<noteq> rn_running \<longrightarrow> (tt_state t' = rn_running) = ok \<and> timer_usable i t' \<and>
        (ok \<longrightarrow> tt_timer_fd t' = tt_timer_fd t \<and> 0 \<le> tt_timer_fd t \<and>
          (\<exists>ctl ev cb. add_fd True ctl (tt_timer_fd t) ev cb l = (True, l'))) \<and>
        (\<not> ok \<longrightarrow> l' = l \<and> (tt_timer_fd t' = tt_timer_fd t \<or> tt_timer_fd t' = -1)))"
  proof (cases "tt_state t = rn_running \<or> \<not> tt_loop t \<or> \<not> te_here e \<or> \<not> te_settime_ok e \<or> tt_timer_fd t = -1")
    case True
    then show ?thesis using e t by (auto simp: timer_start_def settime_def split: if_splits)
  next
    case False
    let ?t = "t\<lparr>tt_armed := Some (period_of i)\<rparr>"
    have "settime (te_settime_ok e) (tt_interval_ms t div 1000, (tt_interval_ms t mod 1000) * 1000000) t = (True, ?t)"
      using False t period_nonzero [of i] by (simp add: settime_def timer_usable_def period_of_def)
    then have s: "timer_start e cb l t =
        (case add_fd True (te_ctl_ok e) (tt_timer_fd t) (EPOLLIN OR EPOLLET) (Some cb) l of
          (added, l') \<Rightarrow>
          if \<not> added then
            (case settime (te_disarm_ok e) (0, 0) ?t of (disarmed, t2) \<Rightarrow>
               (False, l', if \<not> disarmed \<or> \<not> fst (read_expirations (te_reads e)) then close_timer t2 else t2))
          else (True, l', ?t\<lparr>tt_state := rn_running\<rparr>))"
      using False t by (simp add: timer_start_def timer_usable_def)
    show ?thesis
    proof (cases "fst (add_fd True (te_ctl_ok e) (tt_timer_fd t) (EPOLLIN OR EPOLLET) (Some cb) l)")
      case True
      then have "ok" "t' = ?t\<lparr>tt_state := rn_running\<rparr>" "0 \<le> tt_timer_fd t"
          "add_fd True (te_ctl_ok e) (tt_timer_fd t) (EPOLLIN OR EPOLLET) (Some cb) l = (True, l')"
        using e s by (auto simp: add_fd_def split: if_splits)
      then show ?thesis using False t by (auto simp: timer_usable_def)
    next
      case no: False
      then have "snd (add_fd True (te_ctl_ok e) (tt_timer_fd t) (EPOLLIN OR EPOLLET) (Some cb) l) = l"
        by (auto simp: add_fd_def split: if_splits)
      then show ?thesis
        using no e s False t by (auto simp: timer_usable_def settime_def close_timer_def split: prod.splits if_splits)
    qed
  qed
next
  fix e and l l' :: "('a, 'b) EventLoop" and t t' ok
  assume e: "timer_stop e l t = (ok, l', t')" and l: "fds_inv l" and t: "timer_usable i t"
  have r: "fst (remove_fd True c fd l) = False \<Longrightarrow> snd (remove_fd True c fd l) = l" for c fd
    by (auto simp: remove_fd_def split: if_splits)
  show "(tt_state t \<noteq> rn_running \<longrightarrow> l' = l \<and> t' = t) \<and>
      (tt_state t = rn_running \<longrightarrow> timer_usable i t' \<and> (ok \<longrightarrow> tt_state t' \<noteq> rn_running) \<and>
        (tt_state t' = rn_running \<longrightarrow> l' = l \<and> t' = t) \<and>
        (tt_state t' \<noteq> rn_running \<longrightarrow> (tt_timer_fd t' = tt_timer_fd t \<or> tt_timer_fd t' = -1) \<and>
          (\<exists>ctl. remove_fd True ctl (tt_timer_fd t) l = (True, l'))))"
    using e t r [of "te_ctl_ok e" "tt_timer_fd t"]
    by (cases "tt_state t") (auto simp: timer_stop_def timer_usable_def settime_def close_timer_def
        split: prod.splits if_splits)
qed

interpretation signal: registered_source sg_signal_fd "\<lambda>s. sg_state s = rn_running"
  "\<lambda>(here, ctl). signal_start here ctl cb" "\<lambda>(here, ctl). signal_stop here ctl" "\<lambda>_. True" for cb
proof
  fix e and l l' :: "('a, 'b) EventLoop" and t t' ok
  assume e: "(case e of (here, ctl) \<Rightarrow> signal_start here ctl cb) l t = (ok, l', t')"
  obtain here ctl where h: "e = (here, ctl)" by (cases e)
  show "(sg_state t = rn_running \<longrightarrow> \<not> ok \<and> l' = l \<and> t' = t) \<and>
      (sg_state t \<noteq> rn_running \<longrightarrow> (sg_state t' = rn_running) = ok \<and> True \<and>
        (ok \<longrightarrow> sg_signal_fd t' = sg_signal_fd t \<and> 0 \<le> sg_signal_fd t \<and>
          (\<exists>ctl ev cb. add_fd True ctl (sg_signal_fd t) ev cb l = (True, l'))) \<and>
        (\<not> ok \<longrightarrow> l' = l \<and> (sg_signal_fd t' = sg_signal_fd t \<or> sg_signal_fd t' = -1)))"
  proof (cases "sg_state t \<noteq> rn_running \<and> signal_valid l t \<and> here \<and>
      fst (add_fd True ctl (sg_signal_fd t) (EPOLLIN OR EPOLLET) (Some cb) l)")
    case True
    then have "add_fd True ctl (sg_signal_fd t) (EPOLLIN OR EPOLLET) (Some cb) l = (True, l')" "ok"
        "t' = t\<lparr>sg_state := rn_running\<rparr>"
      using e h by (auto simp: signal_start_def split: prod.splits)
    moreover from this have "0 \<le> sg_signal_fd t" by (auto simp: add_fd_def split: if_splits)
    ultimately show ?thesis using True by auto
  next
    case False
    then show ?thesis using e h by (auto simp: signal_start_def add_fd_def split: if_splits)
  qed
next
  fix e and l l' :: "('a, 'b) EventLoop" and t t' ok
  assume e: "(case e of (here, ctl) \<Rightarrow> signal_stop here ctl) l t = (ok, l', t')"
  obtain here ctl where h: "e = (here, ctl)" by (cases e)
  have r: "fst (remove_fd True c fd l) = False \<Longrightarrow> snd (remove_fd True c fd l) = l" for c fd
    by (auto simp: remove_fd_def split: if_splits)
  show "(sg_state t \<noteq> rn_running \<longrightarrow> l' = l \<and> t' = t) \<and>
      (sg_state t = rn_running \<longrightarrow> True \<and> (ok \<longrightarrow> sg_state t' \<noteq> rn_running) \<and>
        (sg_state t' = rn_running \<longrightarrow> l' = l \<and> t' = t) \<and>
        (sg_state t' \<noteq> rn_running \<longrightarrow> (sg_signal_fd t' = sg_signal_fd t \<or> sg_signal_fd t' = -1) \<and>
          (\<exists>ctl. remove_fd True ctl (sg_signal_fd t) l = (True, l'))))"
    using e h r [of ctl "sg_signal_fd t"]
    by (cases "sg_state t") (auto simp: signal_stop_def split: prod.splits if_splits)
qed

section \<open>What the timer does\<close>

datatype timer_op = TStart timer_env | TStop timer_env

primrec timer_op_step ::
  "'c \<Rightarrow> timer_op \<Rightarrow> ('c, 'f) EventLoop \<times> TickTimer \<Rightarrow> bool \<times> ('c, 'f) EventLoop \<times> TickTimer" where
  "timer_op_step cb (TStart e) s = timer_start e cb (fst s) (snd s)"
| "timer_op_step cb (TStop e) s = timer_stop e (fst s) (snd s)"

primrec timer_run ::
  "'c \<Rightarrow> timer_op list \<Rightarrow> ('c, 'f) EventLoop \<times> TickTimer \<Rightarrow> ('c, 'f) EventLoop \<times> TickTimer" where
  "timer_run cb [] s = s"
| "timer_run cb (x # ops) s = timer_run cb ops (snd (timer_op_step cb x s))"

lemma timer_run_inv:
  "timer.source_inv i fd l t \<Longrightarrow> 0 \<le> fd \<Longrightarrow> timer_run cb ops (l, t) = (l', t') \<Longrightarrow> timer.source_inv i fd l' t'"
proof (induction ops arbitrary: l t)
  case (Cons x ops)
  obtain ok l1 t1 where s: "timer_op_step cb x (l, t) = (ok, l1, t1)" by (metis prod.exhaust)
  have "timer.source_inv i fd l1 t1"
  proof (cases x)
    case (TStart e)
    then show ?thesis using timer.source_start [OF Cons.prems(1,2)] s by simp
  next
    case (TStop e)
    then show ?thesis using timer.source_stop [OF Cons.prems(1)] s by auto
  qed
  then show ?case using Cons.IH Cons.prems s by simp
qed simp

lemma add_expirations_sum:
  "add_expirations vs n = n + sum_list (map (\<lambda>v. case v of None \<Rightarrow> 0 | Some k \<Rightarrow> k) vs)"
  by (induction vs arbitrary: n) (auto split: option.splits)

text \<open>C40: Whatever the order of starts and stops of a timer and whichever of its system calls fail
  (arming, registering, disarming, draining), its state says the truth: the timer is running
  exactly when its descriptor is registered with the loop and exactly when the kernel's timer is
  armed, with the period of its interval. A readiness event calls the callback exactly on a
  running timer, for \<open>EPOLLIN\<close>, after the descriptor has been read until \<open>EAGAIN\<close>, with the sum of
  the values read when that is not zero.\<close>

theorem timer_runs_iff_registered_and_armed:
  assumes "fds_inv l" and "el_valid l" and "0 < i" and "0 \<le> fd" and "\<not> um_contains fd (el_interest l)"
    and "timer_run cb ops (l, TickTimer_new True l i True fd) = (l', t)"
  shows "(tt_state t = rn_running) = um_contains fd (el_interest l') \<and>
    (tt_state t = rn_running) = um_contains fd (el_callbacks l') \<and>
    tt_armed t = (if tt_state t = rn_running then Some (i div 1000, (i mod 1000) * 1000000) else None) \<and>
    (\<forall>events reads n. timer_handle_read events reads t = Some n \<longleftrightarrow>
       tt_state t = rn_running \<and> events AND EPOLLIN \<noteq> 0 \<and> snd reads \<and> n \<noteq> 0 \<and>
       n = sum_list (map (\<lambda>v. case v of None \<Rightarrow> 0 | Some k \<Rightarrow> k) (fst reads)))"
proof -
  have "timer.source_inv i fd l (TickTimer_new True l i True fd)"
    using assms by (auto simp: timer.source_inv_def timer_usable_def TickTimer_new_def)
  then have inv: "timer.source_inv i fd l' t" by (rule timer_run_inv [OF _ assms(4,6)])
  then have "tt_callback t" by (simp add: timer.source_inv_def timer_usable_def)
  then have "timer_handle_read events reads t = Some n \<longleftrightarrow>
       tt_state t = rn_running \<and> events AND EPOLLIN \<noteq> 0 \<and> snd reads \<and> n \<noteq> 0 \<and>
       n = sum_list (map (\<lambda>v. case v of None \<Rightarrow> 0 | Some k \<Rightarrow> k) (fst reads))" for events reads n
    by (auto simp: timer_handle_read_def read_expirations_def add_expirations_sum word_gt_0)
  then show ?thesis
    using inv by (auto simp: timer.source_inv_def timer_usable_def period_of_def fds_inv_def)
qed

definition demo_timer_env :: timer_env where
  "demo_timer_env = \<lparr>te_here = True, te_settime_ok = True, te_ctl_ok = True, te_disarm_ok = True, te_reads = ([], True)\<rparr>"

definition demo_timer_loop :: "(nat, nat) EventLoop" where
  "demo_timer_loop = EventLoop_new 8 5 6 True 0"

lemma timer_runs_iff_registered_and_armed_witness:
  "let e = demo_timer_env; t = TickTimer_new True demo_timer_loop 1500 True 7;
       ops = [TStart e, TStop e, TStart (e\<lparr>te_ctl_ok := False, te_reads := ([None, Some 1], True)\<rparr>), TStart e] in
   tt_armed (snd (timer_run 1 ops (demo_timer_loop, t))) = Some (1, 500000000) \<and>
   um_contains 7 (el_interest (fst (timer_run 1 ops (demo_timer_loop, t)))) \<and>
   timer_handle_read EPOLLIN ([Some 2, None, Some 1], True) (snd (timer_run 1 ops (demo_timer_loop, t))) = Some 3"
proof -
  let ?e = demo_timer_env
  let ?ops = "[TStart ?e, TStop ?e, TStart (?e\<lparr>te_ctl_ok := False, te_reads := ([None, Some 1], True)\<rparr>), TStart ?e]"
  let ?t = "TickTimer_new True demo_timer_loop 1500 True 7"
  obtain l t where r: "timer_run 1 ?ops (demo_timer_loop, ?t) = (l, t)" by fastforce
  have "tt_state (snd (timer_run 1 ?ops (demo_timer_loop, ?t))) = rn_running" by code_simp
  then have run: "tt_state t = rn_running" unfolding r by simp
  have d: "fds_inv demo_timer_loop" "el_valid demo_timer_loop" "\<not> um_contains 7 (el_interest demo_timer_loop)"
    by (auto simp: demo_timer_loop_def EventLoop_new_def add_fd_def fds_inv_def el_valid_def um_contains_def)
  have E: "EPOLLIN AND EPOLLIN \<noteq> 0" by (simp add: EPOLLIN_def)
  show ?thesis
    unfolding Let_def r fst_conv snd_conv
    using timer_runs_iff_registered_and_armed [OF d(1,2) _ _ d(3) r] run E by simp
qed

end
