(* ===== verification/Persistence_Service.thy ===== *)
theory Persistence_Service
  imports Tick_Timer Store_Claims Service_Behaviour
begin

text \<open>
  \<open>PersistenceService\<close> (\<open>src/persistence_service.cpp\<close>): it owns the checkpoint store and a timer,
  loads the last checkpoint into the room service, and submits numbered checkpoints of it. The
  member \<open>store_\<close>, which the store's writer thread shares, is kept beside the record. \<open>stop\<close> and
  the failing branch of \<open>start\<close> block on the store: they are cut where they wait, and \<open>PsPc\<close> says
  where the base thread is. The end of \<open>main\<close>'s start-up (\<open>main/server.cpp\<close>) that depends on what
  was loaded is modelled too.
\<close>

record PersistenceService =
  ps_base_loop :: bool \<comment> \<open>the pointer is not null\<close>
  ps_room_service :: bool
  ps_timer :: TickTimer
  ps_next_generation :: u64
  ps_loaded :: bool
  ps_started :: bool

datatype PsLoadstates = pl_restored | pl_not_found | pl_invalid_state | pl_io_error | pl_decode_error | pl_restore_error

text \<open>The constructor; the timer's callback is never empty.\<close>

definition PersistenceService_new ::
  "bool \<Rightarrow> bool \<Rightarrow> path \<Rightarrow> u64 \<Rightarrow> ('c, 'f) EventLoop \<Rightarrow> int \<Rightarrow> PersistenceService \<times> CheckpointStore" where
  "PersistenceService_new base_loop room_service checkpoint_path interval_ms l timer_fd =
     (\<lparr>ps_base_loop = base_loop, ps_room_service = room_service,
       ps_timer = TickTimer_new base_loop l interval_ms True timer_fd,
       ps_next_generation = 1, ps_loaded = False, ps_started = False\<rparr>,
      CheckpointStore_new checkpoint_path)"

section \<open>Loading\<close>

text \<open>The arguments of \<open>store_load\<close> are those of the file system; \<open>None\<close> as there.\<close>

definition ps_load ::
  "env \<Rightarrow> time_point \<Rightarrow> fs \<Rightarrow> bool \<Rightarrow> outcome list \<Rightarrow> bool \<Rightarrow> PersistenceService \<times> CheckpointStore \<times> RoomService \<Rightarrow>
   (PsLoadstates \<times> PersistenceService \<times> CheckpointStore \<times> RoomService) option" where
  "ps_load e now f open_ok os close_ok st =
     (case st of (p, store, service) \<Rightarrow>
      if \<not> ps_base_loop p \<or> \<not> ps_room_service p \<or> \<not> e_in_base e then Some (pl_invalid_state, p, store, service)
      else if ps_loaded p \<or> ps_started p then Some (pl_invalid_state, p, store, service)
      else case store_load f open_ok os close_ok store of
        None \<Rightarrow> None
      | Some (state, checkpoint, store') \<Rightarrow> Some
          (case state of
             ld_not_found \<Rightarrow> (pl_not_found, p\<lparr>ps_next_generation := 1, ps_loaded := True\<rparr>, store', service)
           | ld_invalid_state \<Rightarrow> (pl_invalid_state, p, store', service)
           | ld_io_error \<Rightarrow> (pl_io_error, p, store', service)
           | ld_decode_error \<Rightarrow> (pl_decode_error, p, store', service)
           | ld_success \<Rightarrow>
               (case checkpoint of
                  None \<Rightarrow> (pl_invalid_state, p, store', service)
                | Some c \<Rightarrow>
                    if sv_generation c = - 1 then (pl_invalid_state, p, store', service)
                    else case rs_restore_checkpoint e c now service of
                      (restored, service') \<Rightarrow>
                        if restored
                        then (pl_restored, p\<lparr>ps_next_generation := sv_generation c + 1, ps_loaded := True\<rparr>, store', service')
                        else (pl_restore_error, p, store', service'))))"

section \<open>Saving\<close>

definition ps_save_now ::
  "env \<Rightarrow> RoomService \<Rightarrow> PersistenceService \<times> CheckpointStore \<Rightarrow> bool \<times> PersistenceService \<times> CheckpointStore" where
  "ps_save_now e service st =
     (case st of (p, store) \<Rightarrow>
      if \<not> ps_base_loop p \<or> \<not> e_in_base e \<or> \<not> ps_room_service p \<or> \<not> ps_loaded p \<or> \<not> ps_started p then (False, p, store)
      else if ps_next_generation p = - 1 then (False, p, store)
      else case rs_make_checkpoint e (ps_next_generation p) service of
        None \<Rightarrow> (False, p, store)
      | Some temp \<Rightarrow>
          (case store_submit temp store of (submitted, store') \<Rightarrow>
             if \<not> submitted then (False, p, store')
             else (True, p\<lparr>ps_next_generation := ps_next_generation p + 1\<rparr>, store')))"

definition ps_handle_timer ::
  "env \<Rightarrow> RoomService \<Rightarrow> PersistenceService \<times> CheckpointStore \<Rightarrow> PersistenceService \<times> CheckpointStore" where
  "ps_handle_timer e service st = snd (ps_save_now e service st)"

section \<open>Starting and stopping\<close>

text \<open>Where the base thread is in an operation: returned, waiting in \<open>start\<close> for the writer thread
  to end again, or in \<open>stop\<close> before \<open>flush\<close> returns, before \<open>store_.stop()\<close>, or joining the
  thread there. The flags are the local variable \<open>success\<close>.\<close>

datatype PsPc = PsReturn bool | PsUndoStart | PsFlush bool | PsStopStore bool | PsJoin bool

definition ps_start ::
  "timer_env \<Rightarrow> bool \<Rightarrow> 'c \<Rightarrow> ('c, 'f) EventLoop \<Rightarrow> PersistenceService \<times> CheckpointStore \<Rightarrow>
   PsPc \<times> ('c, 'f) EventLoop \<times> PersistenceService \<times> CheckpointStore" where
  "ps_start te thread_ok cb l st =
     (case st of (p, store) \<Rightarrow>
      if \<not> ps_base_loop p \<or> \<not> te_here te \<or> \<not> ps_loaded p \<or> \<not> timer_valid l (ps_timer p) then (PsReturn False, l, p, store)
      else if ps_started p then (PsReturn False, l, p, store)
      else case store_start thread_ok store of
        (store_started, store1) \<Rightarrow>
        if \<not> store_started then (PsReturn False, l, p, store1)
        else case timer_start te cb l (ps_timer p) of
          (timer_started, l', timer) \<Rightarrow>
          let p' = p\<lparr>ps_timer := timer\<rparr> in
          if \<not> timer_started
          then (case stop_request store1 of
                  (None, store2) \<Rightarrow> (PsUndoStart, l', p', store2)
                | (Some _, store2) \<Rightarrow> (PsReturn False, l', p', store2))
          else (PsReturn True, l', p'\<lparr>ps_started := True\<rparr>, store1))"

definition ps_undo_start :: "CheckpointStore \<Rightarrow> PsPc \<times> CheckpointStore" where
  "ps_undo_start store = (PsReturn False, snd (stop_finish store))"

definition ps_stop ::
  "timer_env \<Rightarrow> env \<Rightarrow> RoomService \<Rightarrow> ('c, 'f) EventLoop \<Rightarrow> PersistenceService \<times> CheckpointStore \<Rightarrow>
   PsPc \<times> ('c, 'f) EventLoop \<times> PersistenceService \<times> CheckpointStore" where
  "ps_stop te e service l st =
     (case st of (p, store) \<Rightarrow>
      if \<not> ps_base_loop p \<or> \<not> e_in_base e then (PsReturn False, l, p, store)
      else if \<not> ps_started p then (PsReturn False, l, p, store)
      else case timer_stop te l (ps_timer p) of
        (timer_stopped, l', timer) \<Rightarrow>
        (case ps_save_now e service (p\<lparr>ps_timer := timer\<rparr>, store) of
           (saved, p', store') \<Rightarrow> (PsFlush (timer_stopped \<and> saved), l', p', store')))"

definition ps_stop_flush :: "bool \<Rightarrow> CheckpointStore \<Rightarrow> PsPc option" where
  "ps_stop_flush success store =
     (if flush_ready store then Some (PsStopStore (success \<and> flush_result store)) else None)"

definition ps_stop_store ::
  "bool \<Rightarrow> PersistenceService \<times> CheckpointStore \<Rightarrow> PsPc \<times> PersistenceService \<times> CheckpointStore" where
  "ps_stop_store success st =
     (case st of (p, store) \<Rightarrow>
      case stop_request store of
        (Some complete, store') \<Rightarrow> (PsReturn (success \<and> complete), p\<lparr>ps_started := False\<rparr>, store')
      | (None, store') \<Rightarrow> (PsJoin success, p, store'))"

definition ps_stop_join ::
  "bool \<Rightarrow> PersistenceService \<times> CheckpointStore \<Rightarrow> PsPc \<times> PersistenceService \<times> CheckpointStore" where
  "ps_stop_join success st =
     (case st of (p, store) \<Rightarrow>
      case stop_finish store of
        (complete, store') \<Rightarrow> (PsReturn (success \<and> complete), p\<lparr>ps_started := False\<rparr>, store'))"

definition ps_states :: "CheckpointStore \<Rightarrow> u64 \<times> u64 \<times> u64" where
  "ps_states store = store_states store"

section \<open>What \<open>main\<close> does with the result of loading\<close>

definition DEFAULT_ROOM_ID :: u32 where "DEFAULT_ROOM_ID = 1"
definition DEFAULT_ROOM_CAPACITY :: u64 where "DEFAULT_ROOM_CAPACITY = 4"

text \<open>\<open>None\<close>: the program ends with an error.\<close>

definition main_loaded :: "env \<Rightarrow> PsLoadstates \<Rightarrow> RoomService \<Rightarrow> RoomService option" where
  "main_loaded e load_state service =
     (case load_state of
        pl_restored \<Rightarrow> Some service
      | pl_not_found \<Rightarrow>
          (case rs_add_room e DEFAULT_ROOM_ID DEFAULT_ROOM_CAPACITY service of
             (added, service') \<Rightarrow> if \<not> added then None else Some service')
      | pl_invalid_state \<Rightarrow> None | pl_io_error \<Rightarrow> None | pl_decode_error \<Rightarrow> None | pl_restore_error \<Rightarrow> None)"

end
