(* ===== verification/Persistence_World.thy ===== *)
theory Persistence_World
  imports Persistence_Service
begin

text \<open>
  The server with its persistence: the world of connections and tasks around the room service,
  the checkpoint store with its writer thread and the file system, and the persistence service
  between them, over the life of many processes. A process starts with nothing but the files,
  loads, runs, may be told to stop, and may be killed or lose the machine's power at any moment.
\<close>

datatype main_pc = MStarting | MRunning | MCall PsPc | MStopped bool | MExited

record system =
  sy_main :: main_pc
  sy_world :: world
  sy_ps :: PersistenceService
  sy_store :: store_world

definition new_process :: "int \<Rightarrow> PersistenceService \<Rightarrow> store_world \<Rightarrow> system" where
  "new_process reconnect_timeout p sw = \<lparr>sy_main = MStarting, sy_world = world_new (RoomService_new reconnect_timeout) None,
     sy_ps = p, sy_store = sw\<rparr>"

definition fresh_persistence :: "path \<Rightarrow> PersistenceService \<Rightarrow> bool" where
  "fresh_persistence path p \<longleftrightarrow> (\<exists>interval_ms l fd.
     p = fst (PersistenceService_new True True path interval_ms (l :: (nat, nat) EventLoop) fd))"

definition system_started :: "path \<Rightarrow> system \<Rightarrow> bool" where
  "system_started path y \<longleftrightarrow> (\<exists>ms p. fresh_persistence path p \<and> y = new_process ms p (first_boot path))"

definition sy_service :: "system \<Rightarrow> RoomService" where
  "sy_service y = w_service (sy_world y)"

definition set_service :: "RoomService \<Rightarrow> system \<Rightarrow> system" where
  "set_service s y = y\<lparr>sy_world := (sy_world y)\<lparr>w_service := s\<rparr>\<rparr>"

definition set_store :: "CheckpointStore \<Rightarrow> store_world \<Rightarrow> store_world" where
  "set_store s w = w\<lparr>sw_store := s\<rparr>"

text \<open>The store's history after \<open>save_now\<close>.\<close>

definition after_save :: "env \<Rightarrow> system \<Rightarrow> bool \<Rightarrow> CheckpointStore \<Rightarrow> store_world" where
  "after_save e y saved store =
     (case rs_make_checkpoint e (ps_next_generation (sy_ps y)) (sy_service y) of
        Some c \<Rightarrow> after_submit c saved store (sy_store y)
      | None \<Rightarrow> set_store store (sy_store y))"

definition main_after :: "PsPc \<Rightarrow> main_pc \<Rightarrow> main_pc \<Rightarrow> main_pc" where
  "main_after pc if_true if_false = (case pc of PsReturn ok \<Rightarrow> if ok then if_true else if_false | _ \<Rightarrow> MCall pc)"

text \<open>\<open>main\<close> gives up when \<open>start\<close> fails, and when \<open>stop\<close> has returned it is about to end.\<close>

definition after_start :: "PsPc \<Rightarrow> PersistenceService \<Rightarrow> CheckpointStore \<Rightarrow> system \<Rightarrow> system" where
  "after_start pc p store y = y\<lparr>sy_main := main_after pc MRunning MExited, sy_ps := p,
     sy_store := (sy_store y)\<lparr>sw_store := store,
       sw_writer := if cs_started store \<and> \<not> cs_started (sw_store (sy_store y)) then wr_waiting
                    else sw_writer (sy_store y)\<rparr>\<rparr>"

definition stopping :: "PsPc \<Rightarrow> PersistenceService \<Rightarrow> store_world \<Rightarrow> system \<Rightarrow> system" where
  "stopping pc p sw y = y\<lparr>sy_main := main_after pc (MStopped True) (MStopped False), sy_ps := p, sy_store := sw\<rparr>"

inductive writer_step :: "store_world \<Rightarrow> store_world \<Rightarrow> bool" where
  wt_take: "sw_writer w = wr_waiting \<Longrightarrow> thread_take (sw_store w) = Some (wr, s) \<Longrightarrow>
    writer_step w (w\<lparr>sw_store := s, sw_writer := wr\<rparr>)"
| wt_commit: "sw_writer w = wr_committing c pc \<Longrightarrow> commit_step (sw_store w) a pc (sw_fs w) = (pc', f) \<Longrightarrow>
    writer_step w (w\<lparr>sw_writer := wr_committing c pc', sw_fs := f\<rparr>)"
| wt_finish: "sw_writer w = wr_committing c (CpDone committed) \<Longrightarrow> writer_step w (after_finish c committed w)"

text \<open>While the base thread is in \<open>stop\<close> only the I/O threads change the world: the service
  stays as it is.\<close>

inductive sys_step :: "(conn \<Rightarrow> nat) \<Rightarrow> path \<Rightarrow> system \<Rightarrow> system \<Rightarrow> bool"
  for addr :: "conn \<Rightarrow> nat" and path :: path where
  sy_load: "sy_main y = MStarting \<Longrightarrow> e_in_base e \<Longrightarrow>
    ps_load e now (sw_fs (sy_store y)) open_ok os close_ok (sy_ps y, sw_store (sy_store y), sy_service y) =
      Some (r, p, store, service) \<Longrightarrow>
    main_loaded e r service = service' \<Longrightarrow>
    sys_step addr path y ((set_service (case service' of None \<Rightarrow> service | Some s \<Rightarrow> s) y)\<lparr>
      sy_main := if service' = None then MExited else MRunning, sy_ps := p,
      sy_store := (sy_store y)\<lparr>sw_store := store, sw_loaded := cs_last_submitted store\<rparr>\<rparr>)"
| sy_world: "sy_main y = MRunning \<or> (sy_main y \<noteq> MStarting \<and> w_service w = sy_service y) \<Longrightarrow>
    world_step addr (sy_world y) w \<Longrightarrow> w_saved w = None \<Longrightarrow> sys_step addr path y (y\<lparr>sy_world := w\<rparr>)"
| sy_start: "sy_main y = MRunning \<Longrightarrow>
    ps_start te thread_ok cb (l :: (nat, nat) EventLoop) (sy_ps y, sw_store (sy_store y)) = (pc, l', p, store) \<Longrightarrow>
    sys_step addr path y (after_start pc p store y)"
| sy_undo: "sy_main y = MCall PsUndoStart \<Longrightarrow> sw_writer (sy_store y) = wr_exited \<Longrightarrow>
    ps_undo_start (sw_store (sy_store y)) = (pc, store) \<Longrightarrow>
    sys_step addr path y (y\<lparr>sy_main := main_after pc MRunning MExited,
      sy_store := (sy_store y)\<lparr>sw_store := store, sw_writer := wr_none\<rparr>\<rparr>)"
| sy_save: "sy_main y = MRunning \<Longrightarrow> env_of addr (sy_world y) e \<Longrightarrow>
    ps_save_now e (sy_service y) (sy_ps y, sw_store (sy_store y)) = (saved, p, store) \<Longrightarrow>
    sys_step addr path y (y\<lparr>sy_ps := p, sy_store := after_save e y saved store\<rparr>)"
| sy_stop: "sy_main y = MRunning \<Longrightarrow> env_of addr (sy_world y) e \<Longrightarrow>
    ps_stop te e (sy_service y) (l :: (nat, nat) EventLoop) (sy_ps y, sw_store (sy_store y)) = (pc, l', p, store) \<Longrightarrow>
    sys_step addr path y (stopping pc p (after_save e y (store \<noteq> sw_store (sy_store y)) store) y)"
| sy_flush: "sy_main y = MCall (PsFlush b) \<Longrightarrow> ps_stop_flush b (sw_store (sy_store y)) = Some pc \<Longrightarrow>
    sys_step addr path y (stopping pc (sy_ps y) (sy_store y) y)"
| sy_stop_store: "sy_main y = MCall (PsStopStore b) \<Longrightarrow>
    ps_stop_store b (sy_ps y, sw_store (sy_store y)) = (pc, p, store) \<Longrightarrow>
    sys_step addr path y (stopping pc p (set_store store (sy_store y)) y)"
| sy_join: "sy_main y = MCall (PsJoin b) \<Longrightarrow> sw_writer (sy_store y) = wr_exited \<Longrightarrow>
    ps_stop_join b (sy_ps y, sw_store (sy_store y)) = (pc, p, store) \<Longrightarrow>
    sys_step addr path y (stopping pc p ((sy_store y)\<lparr>sw_store := store, sw_writer := wr_none\<rparr>) y)"
| sy_writer: "writer_step (sy_store y) sw \<Longrightarrow> sys_step addr path y (y\<lparr>sy_store := sw\<rparr>)"
| sy_crash: "f = sw_fs (sy_store y) \<or> fs_crash (sw_fs (sy_store y)) f \<Longrightarrow> fresh_persistence path p \<Longrightarrow>
    sys_step addr path y (new_process ms p (boot f (sy_store y)))"

inductive_cases sys_stepE: "sys_step addr path y y'"

section \<open>What the operations do\<close>

lemma writer_step_store: "writer_step w w' \<Longrightarrow> store_step w w'"
  by (cases rule: writer_step.cases) (auto intro: store_step.intros)

lemma fresh_persistenceD:
  assumes "fresh_persistence path p"
  shows "ps_base_loop p" "ps_room_service p" "\<not> ps_loaded p" "\<not> ps_started p"
  using assms by (auto simp: fresh_persistence_def PersistenceService_new_def)

text \<open>What is saved: it does not depend on the environment.\<close>

definition service_checkpoint :: "u64 \<Rightarrow> RoomService \<Rightarrow> ServerCheckpoint" where
  "service_checkpoint g s = \<lparr>sv_generation = g, sv_rooms = rm_make_checkpoint (rs_rooms s),
     sv_sessions = sm_make_checkpoint (rs_sessions s)\<rparr>"

lemma service_checkpoint:
  assumes "service_inv opn addr s" and "e_in_base e" and "g \<noteq> 0"
  shows "rs_make_checkpoint e g s = Some (service_checkpoint g s)" "saved_ok (service_checkpoint g s)"
proof -
  show "rs_make_checkpoint e g s = Some (service_checkpoint g s)"
    using make_service_checkpoint [OF assms] by (simp add: service_checkpoint_def)
  then show "saved_ok (service_checkpoint g s)" unfolding saved_ok_def using assms(1,2) by blast
qed

definition saving :: "PersistenceService \<Rightarrow> bool" where
  "saving p \<longleftrightarrow> ps_base_loop p \<and> ps_room_service p \<and> ps_loaded p \<and> ps_started p \<and> ps_next_generation p \<noteq> - 1"

lemma save_now_cases:
  assumes "service_inv opn addr s" and "e_in_base e" and "ps_next_generation p \<noteq> 0"
  shows "ps_save_now e s (p, store) =
    (if saving p \<and> fst (store_submit (service_checkpoint (ps_next_generation p) s) store)
     then (True, p\<lparr>ps_next_generation := ps_next_generation p + 1\<rparr>,
       snd (store_submit (service_checkpoint (ps_next_generation p) s) store))
     else (False, p, store))"
proof -
  obtain ok store' where st: "store_submit (service_checkpoint (ps_next_generation p) s) store = (ok, store')" by fastforce
  then have "\<not> ok \<Longrightarrow> store' = store" by (auto simp: store_submit_def Let_def split: if_splits)
  then show ?thesis
    using service_checkpoint(1) [OF assms] assms(2) by (auto simp: ps_save_now_def saving_def st)
qed

lemma store_submit_True:
  "fst (store_submit c s) \<Longrightarrow> snd (store_submit c s) = s\<lparr>cs_pending := Some c, cs_last_submitted := sv_generation c\<rparr>"
  by (auto simp: store_submit_def Let_def split: if_splits)

section \<open>The invariant\<close>

text \<open>The last submitted checkpoint is \<open>c\<close>, and it waits, is being written, or, if it has been
  committed, it is the one reported.\<close>

definition latest :: "ServerCheckpoint \<Rightarrow> store_world \<Rightarrow> bool" where
  "latest c w \<longleftrightarrow> sw_loaded w < sv_generation c \<and> cs_last_submitted (sw_store w) = sv_generation c \<and>
     (case cs_pending (sw_store w) of
        Some q \<Rightarrow> q = c
      | None \<Rightarrow> (case sw_writer w of
          wr_committing c' pc \<Rightarrow> c' = c
        | _ \<Rightarrow> cs_last_committed (sw_store w) = sv_generation c \<longrightarrow> sw_committed w = Some c))"

definition all_saved :: "ServerCheckpoint \<Rightarrow> store_world \<Rightarrow> bool" where
  "all_saved c w \<longleftrightarrow> latest c w \<and> cs_pending (sw_store w) = None \<and> \<not> cs_writing (sw_store w) \<and>
     cs_last_submitted (sw_store w) = cs_last_committed (sw_store w)"

definition last_checkpoint :: "system \<Rightarrow> ServerCheckpoint" where
  "last_checkpoint y = service_checkpoint (cs_last_submitted (sw_store (sy_store y))) (sy_service y)"

lemma last_checkpoint_frame [simp]:
  "last_checkpoint (y\<lparr>sy_main := m\<rparr>) = last_checkpoint y" "last_checkpoint (y\<lparr>sy_ps := p\<rparr>) = last_checkpoint y"
  "last_checkpoint (y\<lparr>sy_main := m, sy_ps := p, sy_store := w\<rparr>) = last_checkpoint (y\<lparr>sy_store := w\<rparr>)"
  by (simp_all add: last_checkpoint_def sy_service_def)

fun main_inv :: "path \<Rightarrow> system \<Rightarrow> main_pc \<Rightarrow> bool" where
  "main_inv path y MStarting \<longleftrightarrow> fresh_persistence path (sy_ps y) \<and> sw_store (sy_store y) = CheckpointStore_new path"
| "main_inv path y MRunning \<longleftrightarrow> (let p = sy_ps y; s = sw_store (sy_store y) in
     ps_base_loop p \<and> ps_room_service p \<and> ps_loaded p \<and> ps_started p = cs_started s \<and> \<not> cs_stopping s \<and> cs_valid s \<and>
     ps_next_generation p = cs_last_submitted s + 1 \<and> cs_last_submitted s \<noteq> - 1)"
| "main_inv path y (MCall (PsFlush b)) \<longleftrightarrow> (b \<longrightarrow> latest (last_checkpoint y) (sy_store y))"
| "main_inv path y (MCall (PsStopStore b)) \<longleftrightarrow> (b \<longrightarrow> all_saved (last_checkpoint y) (sy_store y))"
| "main_inv path y (MCall (PsJoin b)) \<longleftrightarrow> (b \<longrightarrow> all_saved (last_checkpoint y) (sy_store y))"
| "main_inv path y (MStopped b) \<longleftrightarrow> (b \<longrightarrow> all_saved (last_checkpoint y) (sy_store y))"
| "main_inv path y _ \<longleftrightarrow> True"

definition accepted_ok :: "store_world \<Rightarrow> bool" where
  "accepted_ok w \<longleftrightarrow> (\<forall>c\<in>set (sw_accepted w). saved_ok c \<and> sv_generation c \<noteq> - 1)"

definition sys_inv :: "(conn \<Rightarrow> nat) \<Rightarrow> path \<Rightarrow> system \<Rightarrow> bool" where
  "sys_inv addr path y \<longleftrightarrow> world_inv addr (sy_world y) \<and> w_saved (sy_world y) = None \<and>
     store_inv path (sy_store y) \<and> accepted_ok (sy_store y) \<and> main_inv path y (sy_main y)"

lemma sys_invD:
  assumes "sys_inv addr path y"
  shows "world_inv addr (sy_world y)" and "w_saved (sy_world y) = None" and "store_inv path (sy_store y)"
    and "accepted_ok (sy_store y)" and "main_inv path y (sy_main y)"
    and "service_inv (unclosed (sy_world y)) addr (sy_service y)"
  using assms world_invD(1) [of addr "sy_world y"] by (auto simp: sys_inv_def sy_service_def)

lemma new_process_inv:
  assumes "fresh_persistence path p" and "store_inv path sw" and "accepted_ok sw" and "sw_store sw = CheckpointStore_new path"
  shows "sys_inv addr path (new_process ms p sw)"
  using assms world_new_inv [OF service_new_inv, of None addr ms]
  by (simp add: sys_inv_def new_process_def) (simp add: world_new_def)

lemma system_started_inv: "system_started path y \<Longrightarrow> sys_inv addr path y"
  using new_process_inv [of path _ "first_boot path"] store_inv_first [of path]
  by (auto simp: system_started_def accepted_ok_def first_boot_def)

section \<open>The writer thread\<close>

lemma writer_step_frame:
  assumes "writer_step w w'"
  shows "cs_last_submitted (sw_store w') = cs_last_submitted (sw_store w)"
    "cs_started (sw_store w') = cs_started (sw_store w)" "cs_stopping (sw_store w') = cs_stopping (sw_store w)"
    "cs_valid (sw_store w') = cs_valid (sw_store w)" "sw_accepted w' = sw_accepted w" "sw_loaded w' = sw_loaded w"
    "sw_writer w \<noteq> wr_none"
proof -
  have "let s = sw_store w; s' = sw_store w' in cs_last_submitted s' = cs_last_submitted s \<and> cs_started s' = cs_started s \<and>
      cs_stopping s' = cs_stopping s \<and> cs_valid s' = cs_valid s \<and> sw_accepted w' = sw_accepted w \<and>
      sw_loaded w' = sw_loaded w \<and> sw_writer w \<noteq> wr_none"
    using assms
  proof (cases rule: writer_step.cases)
    case (wt_take wr s)
    then show ?thesis by (auto simp: thread_take_def split: if_splits option.splits)
  qed (simp_all add: after_finish_def thread_finish_def Let_def)
  then show "cs_last_submitted (sw_store w') = cs_last_submitted (sw_store w)"
    "cs_started (sw_store w') = cs_started (sw_store w)" "cs_stopping (sw_store w') = cs_stopping (sw_store w)"
    "cs_valid (sw_store w') = cs_valid (sw_store w)" "sw_accepted w' = sw_accepted w" "sw_loaded w' = sw_loaded w"
    "sw_writer w \<noteq> wr_none" by (simp_all add: Let_def)
qed

lemma writer_step_latest:
  assumes "writer_step w w'" and "latest c w" and "writer_inv w (sw_writer w)"
  shows "latest c w'"
  using assms(1)
proof (cases rule: writer_step.cases)
  case (wt_take wr s)
  then show ?thesis
    using assms(2) by (cases "cs_pending (sw_store w)") (auto simp: latest_def thread_take_def split: if_splits)
next
  case (wt_commit c' pc a pc' f)
  then show ?thesis using assms(2) by (cases "cs_pending (sw_store w)") (simp_all add: latest_def)
next
  case (wt_finish c' committed)
  then show ?thesis
    using assms(2,3)
    by (cases "cs_pending (sw_store w)"; cases committed) (auto simp: latest_def after_finish_def thread_finish_def Let_def)
qed

lemma writer_step_saved:
  assumes "writer_step w w'" and "all_saved c w" and "writer_inv w (sw_writer w)"
  shows "all_saved c w'"
proof -
  have "latest c w'" using writer_step_latest [OF assms(1) _ assms(3)] assms(2) by (simp add: all_saved_def)
  with assms(1) show ?thesis
  proof (cases rule: writer_step.cases)
    case (wt_take wr s)
    then show ?thesis using assms(2) \<open>latest c w'\<close> by (auto simp: all_saved_def thread_take_def split: if_splits)
  next
    case (wt_commit c' pc a pc' f)
    then show ?thesis using assms(2,3) by (simp add: all_saved_def Let_def)
  next
    case (wt_finish c' committed)
    then show ?thesis using assms(2,3) by (simp add: all_saved_def Let_def)
  qed
qed

lemma last_checkpoint_store:
  "cs_last_submitted (sw_store sw) = cs_last_submitted (sw_store (sy_store y)) \<Longrightarrow>
   last_checkpoint (y\<lparr>sy_store := sw\<rparr>) = last_checkpoint y"
  by (simp add: last_checkpoint_def sy_service_def)

lemma writer_main_inv:
  assumes "sys_inv addr path y" and "writer_step (sy_store y) sw"
  shows "main_inv path (y\<lparr>sy_store := sw\<rparr>) (sy_main y)"
proof -
  note inv = sys_invD [OF assms(1)] and fr = writer_step_frame [OF assms(2)]
  note wi = store_invD(6) [OF inv(3)]
  note lc = last_checkpoint_store [OF fr(1)]
  consider "sy_main y = MStarting" | "sy_main y = MRunning" | pc where "sy_main y = MCall pc" | b where "sy_main y = MStopped b"
    | "sy_main y = MExited" by (cases "sy_main y") auto
  then show ?thesis
  proof cases
    case 1
    then have "\<not> cs_started (sw_store (sy_store y))" using inv(5) by (simp add: CheckpointStore_new_def)
    then have "sw_writer (sy_store y) = wr_none" using wi by (cases "sw_writer (sy_store y)") (auto simp: Let_def)
    then show ?thesis using fr(7) by simp
  next
    case 2
    then show ?thesis using inv(5) fr by (simp add: Let_def)
  next
    case 3
    then show ?thesis
      using inv(5) writer_step_latest [OF assms(2) _ wi] writer_step_saved [OF assms(2) _ wi] by (cases pc) (auto simp: lc)
  next
    case 4
    then show ?thesis using inv(5) writer_step_saved [OF assms(2) _ wi] by (auto simp: lc)
  qed simp
qed

lemma writer_sys_inv:
  assumes "sys_inv addr path y" and "writer_step (sy_store y) sw"
  shows "sys_inv addr path (y\<lparr>sy_store := sw\<rparr>)"
  using sys_invD [OF assms(1)] writer_main_inv [OF assms] store_inv_step [OF _ writer_step_store [OF assms(2)]]
    writer_step_frame(5) [OF assms(2)]
  by (simp add: sys_inv_def accepted_ok_def)

section \<open>Loading\<close>

lemma current_file:
  assumes inv: "store_inv p w"
  shows "case fs_read p (sw_fs w) of None \<Rightarrow> sw_committed w = None
    | Some d \<Rightarrow> \<exists>c\<in>known w. file_ok c \<and> d = file_of c"
  using disk_inv_dir [OF store_invD(4) [OF inv] dirs_simps(1)]
  by (auto simp: dir_ok_def file_good_def fs_read_def split: option.splits)

lemma load_loop_whole: "load_loop os rest data = Some (False, False, d) \<Longrightarrow> d = data @ rest"
proof (induction os arbitrary: rest data)
  case (Cons a os)
  show ?case
  proof (cases a)
    case (Returned n)
    define k where "k = min (max 1 n) (min READ_BUFFER_SIZE (length rest))"
    have "load_loop (a # os) rest data =
        (if k > 0 then if k > MAX_CHECKPOINT_FILE_SIZE \<or> length data > MAX_CHECKPOINT_FILE_SIZE - k
           then Some (False, True, data) else load_loop os (drop k rest) (data @ take k rest)
         else Some (False, False, data))" by (simp add: Returned k_def Let_def)
    moreover have "k = 0 \<Longrightarrow> rest = []" by (auto simp: k_def READ_BUFFER_SIZE_def min_def max_def split: if_splits)
    ultimately show ?thesis
      using Cons.IH [of "drop k rest" "data @ take k rest"] Cons.prems
      by (auto simp del: load_loop.simps split: if_splits)
  qed (use Cons in auto)
qed simp

lemma store_load_result:
  assumes inv: "store_inv p w" and w: "sw_store w = CheckpointStore_new p"
    and e: "store_load (sw_fs w) open_ok os close_ok (sw_store w) = Some (r, ck, s)"
  shows "(r = ld_success \<and> (\<exists>c\<in>known w. ck = Some c \<and> cs_last_submitted s = sv_generation c \<and> cs_valid s) \<or>
      r \<noteq> ld_success \<and> cs_last_submitted s = 0 \<and> (r = ld_not_found \<longrightarrow> cs_valid s)) \<and>
    \<not> cs_started s \<and> \<not> cs_stopping s \<and> store_inv p (w\<lparr>sw_store := s, sw_loaded := cs_last_submitted s\<rparr>)"
proof -
  have path: "cs_path (sw_store w) = p" "cs_valid (sw_store w) = (p \<noteq> [])" "\<not> cs_started (sw_store w)"
      "\<not> cs_stopping (sw_store w)" "cs_last_submitted (sw_store w) = 0"
    by (simp_all add: w CheckpointStore_new_def)
  have a: "store_inv p (after_load r s w)" by (rule store_inv_load [OF inv e])
  have l0: "sw_loaded w = 0" using store_invD(7) [OF inv] path(5) by (simp add: counters_inv_def Let_def)
  show ?thesis
  proof (cases "r = ld_success")
    case True
    then obtain d c content where d: "fs_read p (sw_fs w) = Some content" "load_loop os content [] = Some (False, False, d)"
        "checkpoint_decode d = Inr c" "ck = Some c" "\<not> cs_busy (sw_store w)"
        "s = (sw_store w)\<lparr>cs_last_submitted := sv_generation c, cs_last_committed := sv_generation c\<rparr>"
      using e path(1) by (auto simp: store_load_def split: if_splits option.splits sum.splits)
    have "d = content" using load_loop_whole [OF d(2)] by simp
    then obtain c' where "c' \<in> known w" "file_ok c'" "d = file_of c'"
      using current_file [OF inv] d(1) by auto
    then have "c \<in> known w" using d(3) by (simp add: checkpoint_decode_file_of)
    then show ?thesis using True d(4-6) path a by (simp add: after_load_def cs_busy_def)
  next
    case False
    then have "s = sw_store w" "r = ld_not_found \<longrightarrow> \<not> cs_busy (sw_store w)"
      using e by (auto simp: store_load_def split: if_splits option.splits sum.splits)
    then show ?thesis using False path a l0 by (simp add: after_load_def cs_busy_def)
  qed
qed

lemma known_accepted: "sys_inv addr path y \<Longrightarrow> c \<in> known (sy_store y) \<Longrightarrow> saved_ok c \<and> sv_generation c \<noteq> - 1"
  using sys_invD(4) store_invD(5) [OF sys_invD(3)] unfolding accepted_ok_def by blast

lemma set_service_inv:
  "world_inv addr w \<Longrightarrow> service_inv (unclosed w) addr s \<Longrightarrow> world_inv addr (w\<lparr>w_service := s\<rparr>)"
  by (simp add: world_inv_def unclosed_def [abs_def])

text \<open>What a fresh process can load.\<close>

lemma ps_load_result:
  assumes inv: "sys_inv addr path y" and m: "sy_main y = MStarting" and e: "e_in_base e"
    and ld: "ps_load e now (sw_fs (sy_store y)) open_ok os close_ok (sy_ps y, sw_store (sy_store y), sy_service y) =
      Some (r, p, store, service)"
  shows "store_inv path ((sy_store y)\<lparr>sw_store := store, sw_loaded := cs_last_submitted store\<rparr>) \<and>
    \<not> cs_started store \<and> \<not> cs_stopping store \<and> service_inv (unclosed (sy_world y)) addr service \<and> r \<noteq> pl_restore_error \<and>
    (r = pl_restored \<or> r = pl_not_found \<longrightarrow> ps_base_loop p \<and> ps_room_service p \<and> ps_loaded p \<and> \<not> ps_started p \<and>
       cs_valid store \<and> ps_next_generation p = cs_last_submitted store + 1 \<and> cs_last_submitted store \<noteq> - 1)"
proof -
  have fr: "fresh_persistence path (sy_ps y)" and st: "sw_store (sy_store y) = CheckpointStore_new path"
    using sys_invD(5) [OF inv] m by simp_all
  note p = fresh_persistenceD [OF fr]
  obtain state ck store' where sl: "store_load (sw_fs (sy_store y)) open_ok os close_ok (sw_store (sy_store y)) =
      Some (state, ck, store')"
    using ld e p by (auto simp: ps_load_def split: option.splits)
  note res = store_load_result [OF sys_invD(3) [OF inv] st sl]
  note ld' = ld [unfolded ps_load_def prod.case sl]
  show ?thesis
  proof (cases state)
    case ld_success
    then obtain c where c: "c \<in> known (sy_store y)" "ck = Some c" "cs_last_submitted store' = sv_generation c" "cs_valid store'"
      using res by auto
    have ok: "saved_ok c" "sv_generation c \<noteq> - 1" using known_accepted [OF inv c(1)] by simp_all
    obtain s' where r: "rs_restore_checkpoint e c now (sy_service y) = (True, s')"
      using saved_restores(1) [OF ok(1) e, of now "sy_service y"] by (metis prod.collapse)
    have "service_inv (unclosed (sy_world y)) addr s'"
      using saved_restores(2) [OF ok(1) e, of _ addr now "sy_service y"] r by simp
    then show ?thesis using ld' ld_success c ok r p e res by auto
  qed (use ld' p e res sys_invD(6) [OF inv] in auto)
qed

section \<open>The base thread\<close>

lemma load_inv:
  assumes inv: "sys_inv addr path y" and m: "sy_main y = MStarting" and e: "e_in_base e"
    and ld: "ps_load e now (sw_fs (sy_store y)) open_ok os close_ok (sy_ps y, sw_store (sy_store y), sy_service y) =
      Some (r, p, store, service)"
    and ml: "main_loaded e r service = service'"
  shows "sys_inv addr path ((set_service (case service' of None \<Rightarrow> service | Some s \<Rightarrow> s) y)\<lparr>
      sy_main := if service' = None then MExited else MRunning, sy_ps := p,
      sy_store := (sy_store y)\<lparr>sw_store := store, sw_loaded := cs_last_submitted store\<rparr>\<rparr>)"
proof -
  note res = ps_load_result [OF inv m e ld]
  let ?s = "case service' of None \<Rightarrow> service | Some s \<Rightarrow> s"
  have "service_inv (unclosed (sy_world y)) addr ?s"
    using rs_add_room_inv [of "unclosed (sy_world y)" addr service e DEFAULT_ROOM_ID DEFAULT_ROOM_CAPACITY] res ml
    by (cases r) (auto simp: main_loaded_def split: prod.splits if_splits)
  then have w: "world_inv addr ((sy_world y)\<lparr>w_service := ?s\<rparr>)" by (rule set_service_inv [OF sys_invD(1) [OF inv]])
  have "service' \<noteq> None \<Longrightarrow> r = pl_restored \<or> r = pl_not_found"
    using ml by (cases r) (auto simp: main_loaded_def)
  then show ?thesis
    using w res sys_invD [OF inv] by (auto simp: sys_inv_def set_service_def accepted_ok_def Let_def)
qed

lemma world_sys_inv:
  assumes inv: "sys_inv addr path y" and "sy_main y = MRunning \<or> (sy_main y \<noteq> MStarting \<and> w_service w = sy_service y)"
    and "world_step addr (sy_world y) w" and "w_saved w = None"
  shows "sys_inv addr path (y\<lparr>sy_world := w\<rparr>)"
proof -
  note i = sys_invD [OF inv]
  have "world_inv addr w" by (rule world_step_inv [OF i(1) assms(3)])
  moreover have "main_inv path (y\<lparr>sy_world := w\<rparr>) (sy_main y)"
  proof (cases "sy_main y = MRunning")
    case False
    then have "sy_service (y\<lparr>sy_world := w\<rparr>) = sy_service y" using assms(2) by (simp add: sy_service_def)
    then have "last_checkpoint (y\<lparr>sy_world := w\<rparr>) = last_checkpoint y" by (simp add: last_checkpoint_def)
    then show ?thesis using i(5) by (cases "(path, y, sy_main y)" rule: main_inv.cases) auto
  qed (use i(5) in \<open>simp add: Let_def\<close>)
  ultimately show ?thesis using i(3,4) assms(4) by (simp add: sys_inv_def)
qed

lemma store_start_result:
  "store_start thread_ok s = (ok, s') \<Longrightarrow>
   s' = (if ok then s\<lparr>cs_started := True\<rparr> else s) \<and> (ok \<longrightarrow> \<not> cs_started s \<and> \<not> cs_stopping s)"
  by (auto simp: store_start_def cs_busy_def split: if_splits)

lemma ps_start_result:
  assumes "ps_start te thread_ok cb l (p, s) = (pc, l', p', s')"
  shows "(pc = PsReturn False \<and> s' = s) \<or>
    (\<exists>s1. store_start thread_ok s = (True, s1) \<and> \<not> cs_started s \<and>
      (pc = PsReturn True \<and> s' = s1 \<and> (\<exists>t. p' = p\<lparr>ps_timer := t, ps_started := True\<rparr>) \<or>
       pc = PsUndoStart \<and> s' = s1\<lparr>cs_stopping := True\<rparr>))"
proof (cases "\<not> ps_base_loop p \<or> \<not> te_here te \<or> \<not> ps_loaded p \<or> \<not> timer_valid l (ps_timer p) \<or> ps_started p")
  case True
  then show ?thesis using assms by (auto simp: ps_start_def split: if_splits)
next
  case False
  then have g: "ps_base_loop p" "te_here te" "ps_loaded p" "timer_valid l (ps_timer p)" "\<not> ps_started p" by simp_all
  obtain ok s1 where s: "store_start thread_ok s = (ok, s1)" by fastforce
  obtain t_ok l1 t where t: "timer_start te cb l (ps_timer p) = (t_ok, l1, t)" by (metis prod.exhaust)
  note r = store_start_result [OF s]
  show ?thesis
    using assms r
    by (cases ok; cases t_ok) (auto simp: ps_start_def g s t Let_def stop_request_def)
qed

lemma start_inv:
  assumes inv: "sys_inv addr path y" and m: "sy_main y = MRunning"
    and st: "ps_start te thread_ok cb l (sy_ps y, sw_store (sy_store y)) = (pc, l', p, store)"
  shows "sys_inv addr path (after_start pc p store y)"
proof -
  note i = sys_invD [OF inv]
  let ?w = "sy_store y" and ?s = "sw_store (sy_store y)"
  have mi: "main_inv path y MRunning" using i(5) m by simp
  from ps_start_result [OF st] consider
      (no) "pc = PsReturn False" "store = ?s"
    | (yes) t where "store_start thread_ok ?s = (True, store)" "\<not> cs_started ?s" "pc = PsReturn True"
        "p = (sy_ps y)\<lparr>ps_timer := t, ps_started := True\<rparr>"
    | (undo) s1 where "store_start thread_ok ?s = (True, s1)" "\<not> cs_started ?s" "pc = PsUndoStart"
        "store = s1\<lparr>cs_stopping := True\<rparr>"
    by blast
  then show ?thesis
  proof cases
    case no
    then show ?thesis using i by (simp add: after_start_def main_after_def sys_inv_def)
  next
    case yes
    have "store_inv path (?w\<lparr>sw_store := store, sw_writer := wr_waiting\<rparr>)"
      using store_inv_start [OF i(3) yes(1)] by simp
    then show ?thesis
      using i(1,2,4) mi yes store_start_result [OF yes(1)]
      by (simp add: after_start_def main_after_def sys_inv_def accepted_ok_def Let_def)
  next
    case undo
    have a: "store_inv path (?w\<lparr>sw_store := s1, sw_writer := wr_waiting\<rparr>)"
      using store_inv_start [OF i(3) undo(1)] by simp
    have st: "cs_started s1" using store_start_result [OF undo(1)] by simp
    have "(?w\<lparr>sw_store := s1, sw_writer := wr_waiting\<rparr>)\<lparr>sw_store := store\<rparr> =
        ?w\<lparr>sw_store := store, sw_writer := wr_waiting\<rparr>" by simp
    moreover have "store_inv path ((?w\<lparr>sw_store := s1, sw_writer := wr_waiting\<rparr>)\<lparr>sw_store := store\<rparr>)"
      by (rule store_inv_stop [OF a, of None]) (simp add: st undo(4) stop_request_def)
    ultimately have "store_inv path (?w\<lparr>sw_store := store, sw_writer := wr_waiting\<rparr>)" by (simp only:)
    then show ?thesis
      using i(1,2,4) undo st by (simp add: after_start_def main_after_def sys_inv_def accepted_ok_def)
  qed
qed

lemma undo_inv:
  assumes inv: "sys_inv addr path y" and "sw_writer (sy_store y) = wr_exited"
    and "ps_undo_start (sw_store (sy_store y)) = (pc, store)"
  shows "sys_inv addr path (y\<lparr>sy_main := main_after pc MRunning MExited,
      sy_store := (sy_store y)\<lparr>sw_store := store, sw_writer := wr_none\<rparr>\<rparr>)"
  using sys_invD [OF inv] store_inv_join [OF sys_invD(3) [OF inv] assms(2), of "fst (stop_finish (sw_store (sy_store y)))"]
    assms(3)
  by (auto simp: ps_undo_start_def main_after_def sys_inv_def accepted_ok_def)

section \<open>Saving\<close>

lemma word_successor: "(n :: u64) \<noteq> - 1 \<Longrightarrow> n < n + 1 \<and> n + 1 \<noteq> 0"
proof -
  have m: "(- 1 :: u64) = 18446744073709551615" by simp
  show "n \<noteq> - 1 \<Longrightarrow> n < n + 1 \<and> n + 1 \<noteq> 0" unfolding m by uint_arith auto
qed

text \<open>On a running server a save is refused only when it is not started or has no generation
  left; otherwise what it submits is the latest checkpoint.\<close>

lemma env_in_base: "env_of addr w e \<Longrightarrow> e_in_base e"
  by (simp add: env_of_def)

lemma save_result:
  assumes inv: "sys_inv addr path y" and m: "sy_main y = MRunning" and eb: "e_in_base e"
    and sv: "ps_save_now e (sy_service y) ((sy_ps y)\<lparr>ps_timer := t\<rparr>, sw_store (sy_store y)) = (saved, p, store)"
  defines "c \<equiv> service_checkpoint (ps_next_generation (sy_ps y)) (sy_service y)" and "w \<equiv> sy_store y"
  shows "saved = (ps_started (sy_ps y) \<and> ps_next_generation (sy_ps y) \<noteq> - 1) \<and>
    (if saved
     then p = (sy_ps y)\<lparr>ps_timer := t, ps_next_generation := ps_next_generation (sy_ps y) + 1\<rparr> \<and>
       store = (sw_store w)\<lparr>cs_pending := Some c, cs_last_submitted := sv_generation c\<rparr> \<and>
       after_save e y True store = after_submit c True store w \<and>
       store_inv path (after_submit c True store w) \<and> accepted_ok (after_submit c True store w) \<and>
       latest c (after_submit c True store w)
     else p = (sy_ps y)\<lparr>ps_timer := t\<rparr> \<and> store = sw_store w \<and> after_save e y False store = w)"
proof -
  note i = sys_invD [OF inv]
  let ?p = "sy_ps y" and ?s = "sw_store w"
  have mi: "ps_base_loop ?p" "ps_room_service ?p" "ps_loaded ?p" "ps_started ?p = cs_started ?s" "\<not> cs_stopping ?s"
      "cs_valid ?s" "ps_next_generation ?p = cs_last_submitted ?s + 1" "cs_last_submitted ?s \<noteq> - 1"
    using i(5) m by (simp_all add: Let_def w_def)
  have nz: "ps_next_generation ?p \<noteq> 0" "cs_last_submitted ?s < ps_next_generation ?p"
    using word_successor [OF mi(8)] mi(7) by simp_all
  have gen: "sv_generation c = ps_next_generation ?p" by (simp add: c_def service_checkpoint_def)
  have sub: "fst (store_submit c ?s) = cs_started ?s"
    using mi(5,6) nz by (auto simp: store_submit_def Let_def gen)
  have mk: "rs_make_checkpoint e (ps_next_generation ?p) (sy_service y) = Some c" "saved_ok c"
    using service_checkpoint [OF i(6) eb nz(1)] by (simp_all add: c_def)
  have nz': "ps_next_generation (?p\<lparr>ps_timer := t\<rparr>) \<noteq> 0" using nz by simp
  note cases = save_now_cases [OF i(6) eb nz', of ?s, folded w_def, unfolded PersistenceService.simps, folded c_def]
  show ?thesis
  proof (cases "ps_started ?p \<and> ps_next_generation ?p \<noteq> - 1")
    case True
    then have ok: "fst (store_submit c ?s)" using sub mi(4) by simp
    note st = store_submit_True [OF ok]
    have r: "saved" "p = ?p\<lparr>ps_timer := t, ps_next_generation := ps_next_generation ?p + 1\<rparr>"
        "store = ?s\<lparr>cs_pending := Some c, cs_last_submitted := sv_generation c\<rparr>"
      using cases sv True mi ok st by (auto simp: saving_def w_def c_def)
    have "store_submit c ?s = (True, store)" using ok st r(3) by (metis prod.collapse)
    then have si: "store_inv path (after_submit c True store w)"
      using store_inv_submit [of path w c True store] i(3) by (simp add: w_def)
    moreover have "accepted_ok (after_submit c True store w)"
      using i(4) mk(2) True gen by (simp add: accepted_ok_def after_submit_def w_def)
    moreover have "sw_loaded w \<le> cs_last_submitted ?s"
      using store_invD(7) [OF i(3)] by (simp add: counters_inv_def Let_def w_def)
    then have "latest c (after_submit c True store w)"
      using nz(2) by (auto simp: latest_def after_submit_def r(3) gen)
    moreover have "after_save e y True store = after_submit c True store w"
      by (simp add: after_save_def mk(1) w_def)
    ultimately show ?thesis using True r by simp
  next
    case False
    then have r: "\<not> saved" "p = ?p\<lparr>ps_timer := t\<rparr>" "store = ?s"
      using cases sv by (auto simp: saving_def w_def c_def)
    then have "after_save e y False store = w"
      by (simp add: after_save_def mk(1) w_def after_submit_def)
    then show ?thesis using False r by auto
  qed
qed

lemma save_inv:
  assumes inv: "sys_inv addr path y" and m: "sy_main y = MRunning" and e: "env_of addr (sy_world y) e"
    and sv: "ps_save_now e (sy_service y) (sy_ps y, sw_store (sy_store y)) = (saved, p, store)"
  shows "sys_inv addr path (y\<lparr>sy_ps := p, sy_store := after_save e y saved store\<rparr>)"
proof -
  note i = sys_invD [OF inv]
  have "(sy_ps y)\<lparr>ps_timer := ps_timer (sy_ps y)\<rparr> = sy_ps y" by simp
  note r = save_result [OF inv m env_in_base [OF e], of "ps_timer (sy_ps y)", unfolded this, OF sv]
  show ?thesis
  proof (cases saved)
    case True
    let ?c = "service_checkpoint (ps_next_generation (sy_ps y)) (sy_service y)" and ?w = "sy_store y"
    have f: "p = (sy_ps y)\<lparr>ps_next_generation := ps_next_generation (sy_ps y) + 1\<rparr>"
        "store = (sw_store ?w)\<lparr>cs_pending := Some ?c, cs_last_submitted := sv_generation ?c\<rparr>"
        "after_save e y saved store = after_submit ?c True store ?w" "ps_next_generation (sy_ps y) \<noteq> - 1"
        "store_inv path (after_submit ?c True store ?w)" "accepted_ok (after_submit ?c True store ?w)"
      using r True by auto
    have "main_inv path (y\<lparr>sy_ps := p, sy_store := after_submit ?c True store ?w\<rparr>) MRunning"
      using i(5) m f(4) by (simp add: f(1,2) Let_def after_submit_def service_checkpoint_def)
    then show ?thesis using i(1,2) f(5,6) m by (simp add: sys_inv_def f(3))
  next
    case False
    then have "saved = False" by simp
    then have "p = sy_ps y" "store = sw_store (sy_store y)" "after_save e y saved store = sy_store y"
      using r by auto
    then show ?thesis using i m by (simp add: sys_inv_def)
  qed
qed

lemma stop_inv:
  assumes inv: "sys_inv addr path y" and m: "sy_main y = MRunning" and e: "env_of addr (sy_world y) e"
    and st: "ps_stop te e (sy_service y) l (sy_ps y, sw_store (sy_store y)) = (pc, l', p, store)"
  shows "sys_inv addr path (stopping pc p (after_save e y (store \<noteq> sw_store (sy_store y)) store) y)"
proof -
  note i = sys_invD [OF inv]
  let ?w = "sy_store y"
  have keep: "after_save e y False (sw_store ?w) = ?w"
    by (simp add: after_save_def after_submit_def set_store_def split: option.split)
  show ?thesis
  proof (cases "ps_base_loop (sy_ps y) \<and> e_in_base e \<and> ps_started (sy_ps y)")
    case False
    then have "pc = PsReturn False" "store = sw_store ?w" using st by (auto simp: ps_stop_def split: if_splits)
    then show ?thesis using i keep by (simp add: stopping_def main_after_def sys_inv_def)
  next
    case True
    obtain t_ok l1 t where t: "timer_stop te l (ps_timer (sy_ps y)) = (t_ok, l1, t)" by (metis prod.exhaust)
    obtain saved p1 s1 where sv: "ps_save_now e (sy_service y) ((sy_ps y)\<lparr>ps_timer := t\<rparr>, sw_store ?w) = (saved, p1, s1)"
      by (metis prod.exhaust)
    have pc: "pc = PsFlush (t_ok \<and> saved)" "store = s1" using st True by (auto simp: ps_stop_def t sv)
    note r = save_result [OF inv m env_in_base [OF e] sv]
    show ?thesis
    proof (cases saved)
      case True
      let ?c = "service_checkpoint (ps_next_generation (sy_ps y)) (sy_service y)"
      have "cs_last_submitted (sw_store ?w) < sv_generation ?c"
        using i(5) m word_successor [of "cs_last_submitted (sw_store ?w)"]
        by (simp add: Let_def service_checkpoint_def)
      moreover have "store = (sw_store ?w)\<lparr>cs_pending := Some ?c, cs_last_submitted := sv_generation ?c\<rparr>"
        using r True pc(2) by simp
      then have "cs_last_submitted store = sv_generation ?c" by simp
      ultimately have ne: "store \<noteq> sw_store ?w" by auto
      have "last_checkpoint (stopping pc p (after_submit ?c True store ?w) y) = ?c"
        using r True pc(2)
        by (simp add: last_checkpoint_def sy_service_def stopping_def after_submit_def service_checkpoint_def)
      moreover have "after_save e y True store = after_submit ?c True store ?w"
          "store_inv path (after_submit ?c True store ?w)" "accepted_ok (after_submit ?c True store ?w)"
          "latest ?c (after_submit ?c True store ?w)"
        using r True pc(2) by auto
      ultimately show ?thesis
        using pc(1) ne i(1,2) by (simp add: sys_inv_def stopping_def main_after_def)
    next
      case False
      then have "store = sw_store ?w" using r pc(2) by simp
      then show ?thesis using False i pc(1) keep by (simp add: sys_inv_def stopping_def main_after_def)
    qed
  qed
qed

lemma flush_inv:
  assumes inv: "sys_inv addr path y" and m: "sy_main y = MCall (PsFlush b)"
    and fl: "ps_stop_flush b (sw_store (sy_store y)) = Some pc"
  shows "sys_inv addr path (stopping pc (sy_ps y) (sy_store y) y)"
proof -
  note i = sys_invD [OF inv]
  let ?s = "sw_store (sy_store y)"
  have pc: "pc = PsStopStore (b \<and> flush_result ?s)" "flush_ready ?s"
    using fl by (auto simp: ps_stop_flush_def split: if_splits)
  have "last_checkpoint (stopping pc (sy_ps y) (sy_store y) y) = last_checkpoint y"
    by (simp add: last_checkpoint_def stopping_def sy_service_def)
  moreover have "b \<and> flush_result ?s \<longrightarrow> all_saved (last_checkpoint y) (sy_store y)"
    using i(5) m pc(2) by (auto simp: all_saved_def flush_ready_def flush_result_def)
  ultimately show ?thesis using i(1-4) pc(1) by (simp add: sys_inv_def stopping_def main_after_def)
qed

lemma stop_request_saved: "all_saved c w \<Longrightarrow> all_saved c (w\<lparr>sw_store := snd (stop_request (sw_store w))\<rparr>)"
  by (auto simp: all_saved_def latest_def stop_request_def split: writer.splits option.splits)

lemma stop_store_inv:
  assumes inv: "sys_inv addr path y" and m: "sy_main y = MCall (PsStopStore b)"
    and st: "ps_stop_store b (sy_ps y, sw_store (sy_store y)) = (pc, p, store)"
  shows "sys_inv addr path (stopping pc p (set_store store (sy_store y)) y)"
proof -
  note i = sys_invD [OF inv]
  let ?w = "sy_store y"
  obtain r where sr: "stop_request (sw_store ?w) = (r, store)"
      "pc = (case r of None \<Rightarrow> PsJoin b | Some complete \<Rightarrow> PsReturn (b \<and> complete))"
    using st by (auto simp: ps_stop_store_def split: prod.splits option.splits)
  have "cs_last_submitted store = cs_last_submitted (sw_store ?w)"
    using sr(1) by (auto simp: stop_request_def split: if_splits)
  then have "last_checkpoint (stopping pc p (set_store store ?w) y) = last_checkpoint y"
    by (simp add: last_checkpoint_def stopping_def sy_service_def set_store_def)
  moreover have "b \<longrightarrow> all_saved (last_checkpoint y) (set_store store ?w)"
    using i(5) m stop_request_saved [of "last_checkpoint y" ?w] sr(1) by (auto simp: set_store_def)
  ultimately show ?thesis
    using i(1,2,4) store_inv_stop [OF i(3) sr(1)] sr(2)
    by (cases r) (auto simp: sys_inv_def stopping_def main_after_def set_store_def accepted_ok_def)
qed

lemma join_inv:
  assumes inv: "sys_inv addr path y" and m: "sy_main y = MCall (PsJoin b)" and wr: "sw_writer (sy_store y) = wr_exited"
    and st: "ps_stop_join b (sy_ps y, sw_store (sy_store y)) = (pc, p, store)"
  shows "sys_inv addr path (stopping pc p ((sy_store y)\<lparr>sw_store := store, sw_writer := wr_none\<rparr>) y)"
proof -
  note i = sys_invD [OF inv]
  let ?w = "sy_store y" and ?w' = "(sy_store y)\<lparr>sw_store := store, sw_writer := wr_none\<rparr>"
  obtain r where sf: "stop_finish (sw_store ?w) = (r, store)" "pc = PsReturn (b \<and> r)"
    using st by (auto simp: ps_stop_join_def split: prod.splits)
  have s: "store = (sw_store ?w)\<lparr>cs_started := False, cs_stopping := False, cs_writing := False\<rparr>"
    using sf(1) by (simp add: stop_finish_def)
  have "last_checkpoint (stopping pc p ?w' y) = last_checkpoint y"
    by (simp add: last_checkpoint_def stopping_def sy_service_def s)
  moreover have "b \<longrightarrow> all_saved (last_checkpoint y) ?w'"
    using i(5) m wr by (auto simp: all_saved_def latest_def s)
  ultimately show ?thesis
    using i(1,2,4) store_inv_join [OF i(3) wr sf(1)] sf(2)
    by (auto simp: sys_inv_def stopping_def main_after_def accepted_ok_def)
qed

lemma crash_inv:
  assumes inv: "sys_inv addr path y" and f: "f = sw_fs (sy_store y) \<or> fs_crash (sw_fs (sy_store y)) f"
    and p: "fresh_persistence path p"
  shows "sys_inv addr path (new_process ms p (boot f (sy_store y)))"
proof -
  note i = sys_invD [OF inv]
  have "store_step (sy_store y) (boot f (sy_store y))" using f ss_restart ss_crash by auto
  then have "store_inv path (boot f (sy_store y))" by (rule store_inv_step [OF i(3)])
  then show ?thesis
    using new_process_inv [OF p, of "boot f (sy_store y)"] i(4) store_invD(1) [OF i(3)] by (simp add: accepted_ok_def boot_def)
qed

lemma sys_inv_step: "sys_inv addr path y \<Longrightarrow> sys_step addr path y y' \<Longrightarrow> sys_inv addr path y'"
  by (erule sys_stepE)
    (simp_all only: load_inv world_sys_inv start_inv undo_inv save_inv stop_inv flush_inv stop_store_inv join_inv
      writer_sys_inv crash_inv)

interpretation system: invariant_system "system_started path" "sys_step addr path" "sys_inv addr path" for addr path
  by unfold_locales (auto simp: system_started_inv intro: sys_inv_step)

end
