(* ===== verification/Persistence_Claims.thy ===== *)
theory Persistence_Claims
  imports Persistence_World
begin

text \<open>
  What persistence guarantees of the whole server: a crash at any moment loses nothing that was
  reported as committed, and a clean stop loses nothing at all.
\<close>

lemma saved_ok_again:
  assumes "saved_ok c" and "e_in_base e"
  shows "\<exists>s. rs_restore_checkpoint e c now s0 = (True, s) \<and> rs_make_checkpoint e (sv_generation c) s = Some c"
proof -
  obtain opn addr s e0 g where s: "service_inv opn addr s" "e_in_base e0" "rs_make_checkpoint e0 g s = Some c"
    using assms(1) by (auto simp: saved_ok_def)
  have g: "g \<noteq> 0" using s(3) by (auto simp: rs_make_checkpoint_def)
  have c: "rs_make_checkpoint e g s = Some c" "sv_generation c = g"
    using s(3) make_service_checkpoint [OF s(1,2) g] make_service_checkpoint [OF s(1) assms(2) g] by auto
  show ?thesis
    using service_restart(1,3) [OF s(1) assms(2) g c(1) assms(2), of now s0] c(2) by (metis prod.collapse)
qed

text \<open>C3: whatever happened, in however many processes (saves, stops, failing system calls, kills
  and power failures, also during a write), after a crash the next process comes up again. If a
  checkpoint was ever reported as committed, or the file exists, \<open>load\<close> restores a service
  whose own checkpoint is again, room by room and session by session, one that was accepted: the
  last one committed or one accepted after that was taken up; and its next generation is greater.
  Otherwise \<open>load\<close> reports that nothing was found, and \<open>main\<close> starts with the default room.\<close>

theorem crashed_server_comes_back:
  assumes "reach (system_started path) (sys_step addr path) y" and "path \<noteq> []"
    and "fs_crash (sw_fs (sy_store y)) f" and "e_in_base e"
  shows "let (p, s) = PersistenceService_new True True path interval_ms l fd in
    case fs_read path f of
      None \<Rightarrow> sw_committed (sy_store y) = None \<and>
        (\<exists>p' s1. ps_load e now f True [] True (p, s, RoomService_new ms) =
             Some (pl_not_found, p', s, RoomService_new ms) \<and>
           main_loaded e pl_not_found (RoomService_new ms) = Some s1)
    | Some d \<Rightarrow> \<exists>c\<in>set (sw_accepted (sy_store y)).
        (Some c = sw_committed (sy_store y) \<or> c \<in> set (sw_newer (sy_store y))) \<and>
        (\<exists>p' s' s1. ps_load e now f True (replicate (Suc (length d)) (Returned READ_BUFFER_SIZE)) True
             (p, s, RoomService_new ms) = Some (pl_restored, p', s', s1) \<and>
           main_loaded e pl_restored s1 = Some s1 \<and>
           rs_make_checkpoint e (sv_generation c) s1 = Some c \<and> sv_generation c < ps_next_generation p')"
proof -
  have inv: "sys_inv addr path y" using assms(1) by (rule system.reach_inv)
  note i = sys_invD [OF inv]
  obtain p s where ps: "PersistenceService_new True True path interval_ms l fd = (p, s)" by fastforce
  then have p: "ps_base_loop p" "ps_room_service p" "\<not> ps_loaded p" "\<not> ps_started p" "s = CheckpointStore_new path"
    by (auto simp: PersistenceService_new_def)
  show ?thesis
  proof (cases "fs_read path f")
    case None
    have "store_load f True [] True s = Some (ld_not_found, None, s)"
      using None assms(2) by (simp add: store_load_def p(5) cs_busy_def CheckpointStore_new_def)
    moreover have "\<exists>s1. main_loaded e pl_not_found (RoomService_new ms) = Some s1"
      using assms(4) by (simp add: main_loaded_def rs_add_room_def RoomService_new_def rm_add_room_def DEFAULT_ROOM_ID_def
          DEFAULT_ROOM_CAPACITY_def contains_room_def)
    ultimately show ?thesis
      using crash_file [OF i(3) assms(3)] None p assms(4) by (simp add: ps ps_load_def)
  next
    case (Some d)
    then obtain c where c: "c \<in> known (sy_store y)" "file_ok c" "d = file_of c"
      using crash_file [OF i(3) assms(3)] by auto
    have ok: "saved_ok c" "sv_generation c \<noteq> - 1" using known_accepted [OF inv c(1)] by simp_all
    obtain s1 where s1: "rs_restore_checkpoint e c now (RoomService_new ms) = (True, s1)"
        "rs_make_checkpoint e (sv_generation c) s1 = Some c"
      using saved_ok_again [OF ok(1) assms(4)] by blast
    obtain s' where ld: "store_load f True (replicate (Suc (length d)) (Returned READ_BUFFER_SIZE)) True s =
        Some (ld_success, Some c, s')"
      using store_load_file [of path f c "Suc (length d)" READ_BUFFER_SIZE] assms(2) c Some p(5) by simp
    have "\<exists>p'. ps_load e now f True (replicate (Suc (length d)) (Returned READ_BUFFER_SIZE)) True
        (p, s, RoomService_new ms) = Some (pl_restored, p', s', s1) \<and> sv_generation c < ps_next_generation p'"
      using ld ok s1 p assms(4) word_successor [OF ok(2)] by (simp add: ps_load_def)
    moreover have "c \<in> set (sw_accepted (sy_store y))" "Some c = sw_committed (sy_store y) \<or> c \<in> set (sw_newer (sy_store y))"
      using c(1) store_invD(5) [OF i(3)] by (auto simp: known_def)
    ultimately show ?thesis using s1(2) by (auto simp: ps Some main_loaded_def)
  qed
qed

text \<open>After a clean stop the file is exactly the checkpoint of the service.\<close>

lemma stopped_file:
  assumes inv: "sys_inv addr path y" and e: "e_in_base e" and st: "sy_main y = MStopped True" "fs_crash (sw_fs (sy_store y)) f"
  shows "\<exists>d c. fs_read path f = Some d \<and> checkpoint_decode d = Inr c \<and>
    rs_make_checkpoint e (sv_generation c) (sy_service y) = Some c"
proof -
  note i = sys_invD [OF inv]
  let ?w = "sy_store y" and ?c = "last_checkpoint y"
  have as: "all_saved ?c ?w" using i(5) st(1) by simp
  then have g: "sw_loaded ?w < sv_generation ?c" "sv_generation ?c = cs_last_submitted (sw_store ?w)"
    by (simp_all add: all_saved_def latest_def)
  have "sw_writer ?w \<noteq> wr_committing c pc" for c pc
    using store_invD(6) [OF i(3)] as by (auto simp: all_saved_def Let_def)
  then have "sw_committed ?w = Some ?c"
    using as by (cases "sw_writer ?w") (auto simp: all_saved_def latest_def)
  moreover have "sw_newer ?w = []"
    using store_invD(7) [OF i(3)] as g by (simp add: counters_inv_def all_saved_def Let_def)
  ultimately have "known ?w = {?c}" by (simp add: known_def)
  then have "fs_read path f = Some (file_of ?c)" "file_ok ?c"
    using crash_file [OF i(3) st(2)] \<open>sw_committed ?w = Some ?c\<close> by (auto split: option.splits)
  moreover have "sv_generation ?c \<noteq> 0" using g(1) by auto
  then have "rs_make_checkpoint e (sv_generation ?c) (sy_service y) = Some ?c"
    using service_checkpoint(1) [OF i(6) e] g(2) by (simp add: last_checkpoint_def)
  ultimately show ?thesis by (auto simp: checkpoint_decode_file_of)
qed

text \<open>C4: a clean stop saves everything. When \<open>stop\<close> has returned true, then whatever crash
  follows, the file holds exactly the checkpoint of the room service as it is: every room,
  member, game and session, up to the last task that ran. And while the server runs no save is
  refused for a stale generation or an inconsistent state: \<open>save_now\<close> succeeds exactly when
  the service is started and generations are left.\<close>

theorem clean_stop_saves_everything:
  assumes "reach (system_started path) (sys_step addr path) y" and "e_in_base e"
  shows "(sy_main y = MStopped True \<and> fs_crash (sw_fs (sy_store y)) f \<longrightarrow>
      (\<exists>d c. fs_read path f = Some d \<and> checkpoint_decode d = Inr c \<and>
         rs_make_checkpoint e (sv_generation c) (sy_service y) = Some c)) \<and>
    (sy_main y = MRunning \<longrightarrow>
      fst (ps_save_now e (sy_service y) (sy_ps y, sw_store (sy_store y))) =
        (ps_started (sy_ps y) \<and> ps_next_generation (sy_ps y) \<noteq> - 1))"
proof -
  have inv: "sys_inv addr path y" using assms(1) by (rule system.reach_inv)
  have "\<exists>d c. fs_read path f = Some d \<and> checkpoint_decode d = Inr c \<and>
      rs_make_checkpoint e (sv_generation c) (sy_service y) = Some c"
    if "sy_main y = MStopped True" "fs_crash (sw_fs (sy_store y)) f"
    using stopped_file [OF inv assms(2) that] .
  moreover have "fst (ps_save_now e (sy_service y) (sy_ps y, sw_store (sy_store y))) =
        (ps_started (sy_ps y) \<and> ps_next_generation (sy_ps y) \<noteq> - 1)" if m: "sy_main y = MRunning"
  proof -
    obtain saved p store where sv: "ps_save_now e (sy_service y) (sy_ps y, sw_store (sy_store y)) = (saved, p, store)"
      by (metis prod.exhaust)
    have "(sy_ps y)\<lparr>ps_timer := ps_timer (sy_ps y)\<rparr> = sy_ps y" by simp
    from save_result [OF inv m assms(2), of "ps_timer (sy_ps y)", unfolded this, OF sv]
    show ?thesis by (simp add: sv)
  qed
  ultimately show ?thesis by blast
qed

section \<open>A run\<close>

text \<open>A set of states that what happens while \<open>main\<close> is in \<open>start\<close> or \<open>stop\<close> does not leave.\<close>

definition call_closed :: "(conn \<Rightarrow> nat) \<Rightarrow> path \<Rightarrow> (system \<Rightarrow> bool) \<Rightarrow> bool" where
  "call_closed addr path R \<longleftrightarrow> (\<forall>y pc y'. R y \<and> sy_main y = MCall pc \<and> sys_step addr path y y' \<and> sy_main y' \<noteq> MStarting \<longrightarrow> R y')"

lemma call_closedD:
  "call_closed addr path R \<Longrightarrow> R y \<Longrightarrow> sy_main y = MCall pc \<Longrightarrow> sys_step addr path y y' \<Longrightarrow> sy_main y' \<noteq> MStarting \<Longrightarrow> R y'"
  unfolding call_closed_def by blast

lemma call_closed_reach: "call_closed addr path (reach I (sys_step addr path))"
  unfolding call_closed_def by (blast intro: reach_step)

lemma closed_writer_run:
  "call_closed addr path R \<Longrightarrow> R y \<Longrightarrow> sy_main y = MCall m \<Longrightarrow> sw_writer (sy_store y) = wr_committing c pc \<Longrightarrow>
   commit_run (sw_store (sy_store y)) os pc (sw_fs (sy_store y)) = (pc', f') \<Longrightarrow>
   R (y\<lparr>sy_store := (sy_store y)\<lparr>sw_writer := wr_committing c pc', sw_fs := f'\<rparr>\<rparr>)"
proof (induction os arbitrary: y pc)
  case Nil
  then have "y\<lparr>sy_store := (sy_store y)\<lparr>sw_writer := wr_committing c pc', sw_fs := f'\<rparr>\<rparr> = y" by (cases y; cases "sy_store y") simp
  then show ?case using Nil.prems(2) by simp
next
  case (Cons a os)
  obtain pc1 f1 where st: "commit_step (sw_store (sy_store y)) a pc (sw_fs (sy_store y)) = (pc1, f1)" by fastforce
  let ?w = "(sy_store y)\<lparr>sw_writer := wr_committing c pc1, sw_fs := f1\<rparr>"
  have "R (y\<lparr>sy_store := ?w\<rparr>)"
    by (rule call_closedD [OF Cons.prems(1-3)], rule sy_writer [OF wt_commit [OF Cons.prems(4) st]]) (simp add: Cons.prems(3))
  then show ?case using Cons.IH [of "y\<lparr>sy_store := ?w\<rparr>" pc1] Cons.prems st by simp
qed

text \<open>If no system call fails, a stop that waits for its last checkpoint comes to its end.\<close>

lemma stop_completes:
  assumes R: "call_closed addr path R" and r0: "R y" and m: "sy_main y = MCall (PsFlush True)"
    and wr: "sw_writer (sy_store y) = wr_waiting" and st: "sw_store (sy_store y) = s"
    and s: "cs_pending s = Some c" "cs_valid s" "cs_started s" "\<not> cs_writing s" "cs_path s \<noteq> cs_temporary_path s"
      "cs_last_submitted s = sv_generation c"
    and c: "file_ok c"
  shows "\<exists>y'. R y' \<and> sy_main y' = MStopped True"
proof -
  note after = call_closedD [OF R]
  define s1 where "s1 = s\<lparr>cs_pending := None, cs_writing := True\<rparr>"
  define w1 where "w1 = (sy_store y)\<lparr>sw_store := s1, sw_writer := wr_committing c (CpEncode c)\<rparr>"
  have "thread_take (sw_store (sy_store y)) = Some (wr_committing c (CpEncode c), s1)"
    by (simp add: thread_take_def st s(1) s1_def)
  then have r1: "R (y\<lparr>sy_store := w1\<rparr>)"
    unfolding w1_def using m by (intro after [OF r0 m] sy_writer wt_take [OF wr]) simp_all
  let ?os = "replicate (length (file_of c) + 9) (Returned 1)"
  obtain b f' where run: "commit_run s1 ?os (CpEncode c) (sw_fs w1) = (CpDone b, f')"
    using commit_run_ends [of "CpEncode c" ?os s1 "sw_fs w1"] by auto
  have "on_course (CpDone b)"
    using commit_run_success [OF c _ _ _ _ run] s(5) by (simp add: s1_def)
  then have b: "b" by simp
  let ?w2 = "w1\<lparr>sw_writer := wr_committing c (CpDone True), sw_fs := f'\<rparr>"
  have r2: "R (y\<lparr>sy_store := ?w2\<rparr>)"
    using closed_writer_run [OF R r1, of "PsFlush True" c "CpEncode c" ?os] run b m by (simp add: w1_def)
  define w3 where "w3 = after_finish c True ?w2"
  have "writer_step ?w2 w3" unfolding w3_def by (rule wt_finish) simp
  then have r3: "R (y\<lparr>sy_store := w3\<rparr>)"
    using after [OF r2 _ sy_writer [of "y\<lparr>sy_store := ?w2\<rparr>" w3]] m by simp
  define s3 where "s3 = s1\<lparr>cs_writing := False, cs_last_committed := sv_generation c\<rparr>"
  have w3: "sw_store w3 = s3" "sw_writer w3 = wr_waiting"
    by (simp_all add: w3_def after_finish_def Let_def thread_finish_def w1_def s3_def)
  let ?y4 = "stopping (PsStopStore True) (sy_ps y) w3 (y\<lparr>sy_store := w3\<rparr>)"
  have "ps_stop_flush True s3 = Some (PsStopStore True)"
    using s by (simp add: ps_stop_flush_def flush_ready_def flush_result_def s3_def s1_def)
  then have r4: "R ?y4"
    using after [OF r3 _ sy_flush [where b = True and pc = "PsStopStore True"]] m w3 by (simp add: stopping_def main_after_def)
  define s5 where "s5 = s3\<lparr>cs_stopping := True\<rparr>"
  let ?y5 = "stopping (PsJoin True) (sy_ps y) (set_store s5 w3) ?y4"
  have "ps_stop_store True (sy_ps y, s3) = (PsJoin True, sy_ps y, s5)"
    using s by (simp add: ps_stop_store_def stop_request_def s5_def s3_def s1_def)
  then have r5: "R ?y5"
    using after [OF r4 _ sy_stop_store [where b = True and pc = "PsJoin True" and p = "sy_ps y" and store = s5]] w3
    by (simp add: stopping_def main_after_def)
  have "thread_take s5 = Some (wr_exited, s5)" by (simp add: thread_take_def s5_def s3_def s1_def)
  then have wt: "writer_step (set_store s5 w3) ((set_store s5 w3)\<lparr>sw_store := s5, sw_writer := wr_exited\<rparr>)"
    by (intro wt_take) (simp_all add: set_store_def w3)
  define y6 where "y6 = ?y5\<lparr>sy_store := (set_store s5 w3)\<lparr>sw_store := s5, sw_writer := wr_exited\<rparr>\<rparr>"
  have r6: "R y6"
    unfolding y6_def by (rule after [OF r5 _ sy_writer]) (use wt in \<open>simp_all add: stopping_def main_after_def\<close>)
  have y6: "sy_main y6 = MCall (PsJoin True)" "sw_writer (sy_store y6) = wr_exited" "sw_store (sy_store y6) = s5"
    by (simp_all add: y6_def stopping_def main_after_def)
  obtain pc p' s' where j: "ps_stop_join True (sy_ps y6, sw_store (sy_store y6)) = (pc, p', s')"
    by (metis prod.exhaust)
  then have pc: "pc = PsReturn True"
    using s by (auto simp: ps_stop_join_def stop_finish_def y6 s5_def s3_def s1_def)
  define y7 where "y7 = stopping pc p' ((sy_store y6)\<lparr>sw_store := s', sw_writer := wr_none\<rparr>) y6"
  have "R y7" unfolding y7_def by (rule after [OF r6 y6(1) sy_join [OF y6(1,2) j]]) (simp add: stopping_def main_after_def pc)
  moreover have "sy_main y7 = MStopped True" by (simp add: y7_def stopping_def main_after_def pc)
  ultimately show ?thesis by blast
qed


text \<open>The run of the witnesses: nothing is found, the default room is made, the service is
  started and told to stop.\<close>

definition demo_path :: path where
  "demo_path = [100, 97, 116, 97, 47, 115, 101, 114, 118, 101, 114, 46, 99, 104, 101, 99, 107, 112, 111, 105, 110, 116]"

definition demo_ps :: PersistenceService where
  "demo_ps = fst (PersistenceService_new True True demo_path 5000 demo_timer_loop 7)"

definition demo_sys0 :: system where
  "demo_sys0 = new_process 30000 demo_ps (first_boot demo_path)"

definition demo_env :: env where
  "demo_env = quiet id (sy_world demo_sys0)"

definition demo_room :: RoomService where
  "demo_room = snd (rs_add_room demo_env 1 4 (RoomService_new 30000))"

definition demo_sys1 :: system where
  "demo_sys1 = (set_service demo_room demo_sys0)\<lparr>sy_main := MRunning, sy_ps := demo_ps\<lparr>ps_loaded := True\<rparr>\<rparr>"

lemma demo_fresh: "fresh_persistence demo_path demo_ps"
  by (auto simp: fresh_persistence_def demo_ps_def)

lemma demo_load: "sys_step id demo_path demo_sys0 demo_sys1" "sy_main demo_sys0 = MStarting"
proof -
  note q = fresh_persistenceD [OF demo_fresh]
  have e: "e_in_base demo_env" by (simp add: demo_env_def quiet_def)
  have g: "demo_ps\<lparr>ps_next_generation := 1, ps_loaded := True\<rparr> = demo_ps\<lparr>ps_loaded := True\<rparr>"
    by (simp add: demo_ps_def PersistenceService_new_def)
  have ld: "ps_load demo_env 0 (sw_fs (sy_store demo_sys0)) True [] True
      (sy_ps demo_sys0, sw_store (sy_store demo_sys0), sy_service demo_sys0) =
      Some (pl_not_found, demo_ps\<lparr>ps_loaded := True\<rparr>, CheckpointStore_new demo_path, RoomService_new 30000)"
    using q e g
    by (simp add: ps_load_def demo_sys0_def new_process_def sy_service_def world_new_def first_boot_def store_load_def
        cs_busy_def CheckpointStore_new_def fs_read_def fs_new_def demo_path_def)
  have ml: "main_loaded demo_env pl_not_found (RoomService_new 30000) = Some demo_room"
    using e by (simp add: main_loaded_def demo_room_def rs_add_room_def RoomService_new_def rm_add_room_def
        DEFAULT_ROOM_ID_def DEFAULT_ROOM_CAPACITY_def contains_room_def)
  have "(sy_store demo_sys0)\<lparr>sw_store := CheckpointStore_new demo_path, sw_loaded := cs_last_submitted (CheckpointStore_new demo_path)\<rparr> =
      sy_store demo_sys0"
    by (simp add: demo_sys0_def new_process_def first_boot_def CheckpointStore_new_def)
  then have y: "(set_service demo_room demo_sys0)\<lparr>sy_main := MRunning, sy_ps := demo_ps\<lparr>ps_loaded := True\<rparr>,
      sy_store := (sy_store demo_sys0)\<lparr>sw_store := CheckpointStore_new demo_path,
        sw_loaded := cs_last_submitted (CheckpointStore_new demo_path)\<rparr>\<rparr> = demo_sys1"
    by (simp add: demo_sys1_def set_service_def)
  show m: "sy_main demo_sys0 = MStarting" by (simp add: demo_sys0_def new_process_def)
  from sy_load [OF m e ld ml] show "sys_step id demo_path demo_sys0 demo_sys1" by (simp add: y id_def)
qed

lemma demo_sys1_reachable: "reach (system_started demo_path) (sys_step id demo_path) demo_sys1"
proof -
  have "reach (system_started demo_path) (sys_step id demo_path) demo_sys0"
    using demo_fresh by (intro reach_init) (auto simp: system_started_def demo_sys0_def)
  then show ?thesis by (rule reach_step) (rule demo_load(1))
qed

definition demo_start :: "PsPc \<times> (nat, nat) EventLoop \<times> PersistenceService \<times> CheckpointStore" where
  "demo_start = ps_start demo_timer_env True 0 demo_timer_loop (demo_ps\<lparr>ps_loaded := True\<rparr>, CheckpointStore_new demo_path)"

lemma demo_start: "fst demo_start = PsReturn True"
  by code_simp

definition demo_saved :: ServerCheckpoint where
  "demo_saved = service_checkpoint 1 demo_room"

lemma demo_timer_stops: "fst (timer_stop demo_timer_env (fst (snd demo_start)) (ps_timer (fst (snd (snd demo_start)))))"
  by code_simp

lemma demo_saved: "demo_saved = \<lparr>sv_generation = 1,
    sv_rooms = [\<lparr>rc_room_id = 1, rc_capacity = 4, rc_next_player_id = 1, rc_state = waiting, rc_tick_id = 0,
      rc_members = [], rc_game_states = []\<rparr>], sv_sessions = []\<rparr>"
  by (simp add: demo_saved_def service_checkpoint_def demo_room_def rs_add_room_def rm_add_room_def contains_room_def
      RoomService_new_def demo_env_def quiet_def rm_make_checkpoint_def sm_make_checkpoint_def room_make_checkpoint_def
      Room_new_def SessionManager_new_def Let_def um_assign_def um_emplace_def um_contains_def snapshot_def Gamestate_new_def
      Roomstatemachine_new_def)

lemma demo_file: "file_ok demo_saved"
  by (simp add: file_ok_def counts_ok_def payload_ok_def demo_saved fits_u32_def rc_ok_def valid_checkpoint_keys_def
      payload_of_def enc_rc_def codec_sizes list_all_iff)

text \<open>Started on any loop, in a process that was at \<open>demo_sys1\<close>, and stopped.\<close>

lemma demo_sys1_fields:
  "sy_main demo_sys1 = MRunning" "sy_ps demo_sys1 = demo_ps\<lparr>ps_loaded := True\<rparr>"
  "sw_store (sy_store demo_sys1) = CheckpointStore_new demo_path" "sy_service demo_sys1 = demo_room"
  "sy_store demo_sys1 = first_boot demo_path"
  by (simp_all add: demo_sys1_def demo_sys0_def new_process_def set_service_def sy_service_def first_boot_def)

lemma demo_running:
  assumes st: "ps_start te True cb (l0 :: (nat, nat) EventLoop) (demo_ps\<lparr>ps_loaded := True\<rparr>, CheckpointStore_new demo_path) = (PsReturn True, l, p2, s2)"
    and y2_def: "y2 = after_start (PsReturn True) p2 s2 demo_sys1"
  shows "sys_step id demo_path demo_sys1 y2" and "sys_inv id demo_path y2" and "env_of id (sy_world y2) demo_env"
    and "sy_main y2 = MRunning" "sy_ps y2 = p2" "sw_store (sy_store y2) = s2" "sw_writer (sy_store y2) = wr_waiting"
      "sy_service y2 = demo_room"
    and "s2 = (CheckpointStore_new demo_path)\<lparr>cs_started := True\<rparr>" "ps_started p2" "ps_next_generation p2 = 1" "ps_base_loop p2"
proof -
  note y1 = demo_sys1_fields
  have st': "ps_start te True cb l0 (sy_ps demo_sys1, sw_store (sy_store demo_sys1)) = (PsReturn True, l, p2, s2)"
    unfolding y1(2,3) by (rule st)
  show step: "sys_step id demo_path demo_sys1 y2" unfolding y2_def by (rule sy_start [OF y1(1) st'])
  show "sys_inv id demo_path y2" using reach_step [OF demo_sys1_reachable step] by (rule system.reach_inv)
  show s2: "s2 = (CheckpointStore_new demo_path)\<lparr>cs_started := True\<rparr>" "ps_started p2" "ps_next_generation p2 = 1" "ps_base_loop p2"
    using ps_start_result [OF st'] y1(2,3)
    by (auto simp: store_start_def demo_ps_def PersistenceService_new_def split: if_splits)
  show "sy_main y2 = MRunning" "sy_ps y2 = p2" "sw_store (sy_store y2) = s2" "sw_writer (sy_store y2) = wr_waiting"
      "sy_service y2 = demo_room"
    using y1 s2(1)
    by (simp_all add: y2_def after_start_def main_after_def sy_service_def first_boot_def CheckpointStore_new_def)
  have "sy_world y2 = sy_world demo_sys1" by (simp add: y2_def after_start_def)
  then show "env_of id (sy_world y2) demo_env"
    by (simp add: env_of_def demo_env_def quiet_def demo_sys1_def set_service_def)
qed

lemma demo_stop:
  assumes st: "ps_start te True cb (l0 :: (nat, nat) EventLoop) (demo_ps\<lparr>ps_loaded := True\<rparr>, CheckpointStore_new demo_path) = (PsReturn True, l, p2, s2)"
    and t: "timer_stop te2 l3 (ps_timer p2) = (True, l4, t)" and y2_def: "y2 = after_start (PsReturn True) p2 s2 demo_sys1"
  shows "\<exists>p3 s3. ps_stop te2 demo_env (sy_service y2) l3 (sy_ps y2, sw_store (sy_store y2)) = (PsFlush True, l4, p3, s3) \<and>
    (\<forall>R. call_closed id demo_path R \<and>
         R (stopping (PsFlush True) p3 (after_save demo_env y2 (s3 \<noteq> sw_store (sy_store y2)) s3) y2) \<longrightarrow>
       (\<exists>y'. R y' \<and> sy_main y' = MStopped True))"
proof -
  note d = demo_running [OF st y2_def] and eb = env_in_base [OF demo_running(3) [OF st y2_def]]
  obtain saved p3 s3 where sv: "ps_save_now demo_env (sy_service y2) ((sy_ps y2)\<lparr>ps_timer := t\<rparr>, sw_store (sy_store y2)) =
      (saved, p3, s3)" by (metis prod.exhaust)
  have "saved" using save_result [OF d(2,4) eb sv] d by simp
  then have s3: "s3 = s2\<lparr>cs_pending := Some demo_saved, cs_last_submitted := sv_generation demo_saved\<rparr>"
      "after_save demo_env y2 True s3 = after_submit demo_saved True s3 (sy_store y2)"
    using save_result [OF d(2,4) eb sv] d by (auto simp: demo_saved_def)
  have stop: "ps_stop te2 demo_env (sy_service y2) l3 (sy_ps y2, sw_store (sy_store y2)) = (PsFlush True, l4, p3, s3)"
    using t sv \<open>saved\<close> d eb by (simp add: ps_stop_def)
  have "sv_generation demo_saved \<noteq> cs_last_submitted s2"
    by (simp add: demo_saved d(9) CheckpointStore_new_def)
  moreover have "cs_last_submitted s3 = sv_generation demo_saved" by (simp add: s3(1))
  ultimately have ne: "s3 \<noteq> sw_store (sy_store y2)" using d(6) by auto
  let ?y3 = "stopping (PsFlush True) p3 (after_save demo_env y2 (s3 \<noteq> sw_store (sy_store y2)) s3) y2"
  have y3: "sy_main ?y3 = MCall (PsFlush True)" "sw_writer (sy_store ?y3) = wr_waiting" "sw_store (sy_store ?y3) = s3"
    using ne s3(2) by (simp_all add: stopping_def main_after_def after_submit_def d)
  have "\<exists>y'. R y' \<and> sy_main y' = MStopped True" if "call_closed id demo_path R" "R ?y3" for R
    by (rule stop_completes [OF that y3, of demo_saved])
      (simp_all add: s3(1) d(9) CheckpointStore_new_def demo_path_def demo_file)
  then show ?thesis using stop by blast
qed

lemma demo_stopped: "\<exists>y. reach (system_started demo_path) (sys_step id demo_path) y \<and> sy_main y = MStopped True"
proof -
  obtain l p2 s2 where st: "demo_start = (PsReturn True, l, p2, s2)" using demo_start by (metis prod.collapse)
  define y2 where "y2 = after_start (PsReturn True) p2 s2 demo_sys1"
  obtain l4 t where t: "timer_stop demo_timer_env l (ps_timer p2) = (True, l4, t)"
    using demo_timer_stops st by (metis fst_conv prod.collapse snd_conv)
  note d = demo_running [OF st [unfolded demo_start_def] y2_def]
  obtain p3 s3 where s: "ps_stop demo_timer_env demo_env (sy_service y2) l (sy_ps y2, sw_store (sy_store y2)) = (PsFlush True, l4, p3, s3)"
    and c: "\<forall>R. call_closed id demo_path R \<and>
         R (stopping (PsFlush True) p3 (after_save demo_env y2 (s3 \<noteq> sw_store (sy_store y2)) s3) y2) \<longrightarrow>
       (\<exists>y'. R y' \<and> sy_main y' = MStopped True)"
    using demo_stop [OF st [unfolded demo_start_def] t y2_def] by blast
  note r2 = reach_step [OF demo_sys1_reachable d(1)]
  show ?thesis using c call_closed_reach reach_step [OF r2 sy_stop [OF d(4,3) s]] by blast
qed

theorem clean_stop_saves_everything_witness:
  "\<exists>(y :: system) d c. sy_main y = MStopped True \<and> fs_read demo_path (power_cut (sw_fs (sy_store y))) = Some d \<and>
     checkpoint_decode d = Inr c \<and> rs_make_checkpoint demo_env (sv_generation c) (sy_service y) = Some c"
proof -
  obtain y where y: "reach (system_started demo_path) (sys_step id demo_path) y" "sy_main y = MStopped True"
    using demo_stopped by blast
  have "e_in_base demo_env" by (simp add: demo_env_def quiet_def)
  from clean_stop_saves_everything [OF y(1) this, of "power_cut (sw_fs (sy_store y))"] y(2) power_cut
  show ?thesis by blast
qed

theorem crashed_server_comes_back_witness:
  "\<exists>(y :: system) d p' s' s1 c. fs_read demo_path (power_cut (sw_fs (sy_store y))) = Some d \<and> c \<in> set (sw_accepted (sy_store y)) \<and>
     ps_load demo_env 0 (power_cut (sw_fs (sy_store y))) True (replicate (Suc (length d)) (Returned READ_BUFFER_SIZE)) True
       (demo_ps, CheckpointStore_new demo_path, RoomService_new 30000) = Some (pl_restored, p', s', s1) \<and>
     rs_make_checkpoint demo_env (sv_generation c) s1 = Some c"
proof -
  obtain y where y: "reach (system_started demo_path) (sys_step id demo_path) y" "sy_main y = MStopped True"
    using demo_stopped by blast
  have e: "e_in_base demo_env" by (simp add: demo_env_def quiet_def)
  have inv: "sys_inv id demo_path y" using y(1) by (rule system.reach_inv)
  have "sw_committed (sy_store y) \<noteq> None"
    using sys_invD(5) [OF inv] y(2) store_invD(7) [OF sys_invD(3) [OF inv]]
    by (auto simp: all_saved_def latest_def counters_inv_def Let_def)
  moreover have "PersistenceService_new True True demo_path 5000 demo_timer_loop 7 = (demo_ps, CheckpointStore_new demo_path)"
    by (simp add: demo_ps_def PersistenceService_new_def)
  moreover have "demo_path \<noteq> []" by (simp add: demo_path_def)
  ultimately obtain d p' s' s1 c where "fs_read demo_path (power_cut (sw_fs (sy_store y))) = Some d"
      "c \<in> set (sw_accepted (sy_store y))"
      "ps_load demo_env 0 (power_cut (sw_fs (sy_store y))) True (replicate (Suc (length d)) (Returned READ_BUFFER_SIZE)) True
         (demo_ps, CheckpointStore_new demo_path, RoomService_new 30000) = Some (pl_restored, p', s', s1)"
      "rs_make_checkpoint demo_env (sv_generation c) s1 = Some c"
    using crashed_server_comes_back [OF y(1) _ power_cut e, of 5000 demo_timer_loop 7 0 30000]
    by (auto simp del: replicate.simps split: option.splits)
  then show ?thesis by blast
qed

end
