(* ===== verification/Connection.thy ===== *)
theory Connection
  imports Byte_Buffer Loop_World Session_Manager
begin

text \<open>
  \<open>Connection\<close> (\<open>src/connection.cpp\<close>): a non-blocking socket with its buffers, owned by the
  thread of one event loop; other threads only reserve bytes and queue functors. The state of an
  operation is the connection, its loop, what the kernel has taken from it (\<open>io_wire\<close>) and
  how often its close callback was called; \<open>io_appended\<close> is a history variable. What
  \<open>read\<close> and \<open>write\<close> answer are arguments: after the listed results they answer \<open>EAGAIN\<close>.
  Byte counts are \<open>nat\<close>: none ever exceeds the hard limit, so no \<open>std::size_t\<close> wraps.
\<close>

datatype ConnState = Connecting | Connected | Disconnecting | Disconnected

record Connection =
  cn_loop :: bool \<comment> \<open>the loop pointer is not null\<close>
  cn_shared :: bool \<comment> \<open>the object is owned by a shared pointer\<close>
  cn_fd :: int
  cn_state :: ConnState
  cn_registered :: bool
  cn_close :: bool
  cn_read_buffer :: Buffer
  cn_write_buffer :: Buffer
  cn_pending_write_bytes :: nat
  cn_last_peer_activity_time :: time_point
  cn_peer_eof :: bool
  cn_message_callback :: bool
  cn_close_callback :: bool

text \<open>The functors a connection queues in its loop.\<close>

datatype conn_task = EstablishTask | SendTask bytes | CloseTask | TimeoutTask int | DestroyTask

type_synonym conn_loop = "(nat, conn_task) EventLoop"

record conn_io =
  io_conn :: Connection
  io_loop :: conn_loop
  io_wire :: bytes
  io_closings :: nat
  io_appended :: "bytes list"

definition WRITE_HIGH_WATER_MARK :: nat where "WRITE_HIGH_WATER_MARK = 512 * 1024"
definition WRITE_HARD_LIMIT :: nat where "WRITE_HARD_LIMIT = 1024 * 1024"

definition Connection_new :: "bool \<Rightarrow> int \<Rightarrow> time_point \<Rightarrow> Connection" where
  "Connection_new loop fd now =
     \<lparr>cn_loop = loop, cn_shared = True, cn_fd = fd, cn_state = Connecting, cn_registered = False, cn_close = False,
      cn_read_buffer = Buffer_new 4096, cn_write_buffer = Buffer_new 4096, cn_pending_write_bytes = 0,
      cn_last_peer_activity_time = now, cn_peer_eof = False, cn_message_callback = False, cn_close_callback = False\<rparr>"

definition set_close_callback :: "Connection \<Rightarrow> Connection" where
  "set_close_callback c = c\<lparr>cn_close_callback := True\<rparr>"

definition set_message_callback :: "Connection \<Rightarrow> Connection" where
  "set_message_callback c = c\<lparr>cn_message_callback := True\<rparr>"

definition set_conn :: "Connection \<Rightarrow> conn_io \<Rightarrow> conn_io" where
  "set_conn c s = s\<lparr>io_conn := c\<rparr>"

text \<open>\<open>!loop_ || !loop_->is_in_loop_thread()\<close>, the guard of most operations.\<close>

definition off_loop :: "bool \<Rightarrow> conn_io \<Rightarrow> bool" where
  "off_loop here s \<longleftrightarrow> \<not> cn_loop (io_conn s) \<or> \<not> here"

section \<open>Byte accounts\<close>

text \<open>The compare-and-exchange loops retry until they act on the current value: one atomic step.\<close>

definition reserve_write_bytes :: "nat \<Rightarrow> Connection \<Rightarrow> bool \<times> Connection" where
  "reserve_write_bytes len c =
     (if len = 0 then (False, c)
      else let cur = cn_pending_write_bytes c in
        if cur > WRITE_HARD_LIMIT \<or> len > WRITE_HARD_LIMIT - cur then (False, c)
        else (True, c\<lparr>cn_pending_write_bytes := cur + len\<rparr>))"

definition release_write_bytes :: "nat \<Rightarrow> Connection \<Rightarrow> Connection" where
  "release_write_bytes len c =
     (if len = 0 then c
      else let cur = cn_pending_write_bytes c in
        if len > cur then c else c\<lparr>cn_pending_write_bytes := cur - len\<rparr>)"

definition under_backpressure :: "Connection \<Rightarrow> bool" where
  "under_backpressure c \<longleftrightarrow> cn_pending_write_bytes c \<ge> WRITE_HIGH_WATER_MARK"

definition clear_write_buffer_in_loop :: "bool \<Rightarrow> conn_io \<Rightarrow> conn_io" where
  "clear_write_buffer_in_loop here s =
     (if off_loop here s then s
      else let c = io_conn s; release = readable_bytes (cn_write_buffer c) in
        if release = 0 then s
        else set_conn (release_write_bytes release (c\<lparr>cn_write_buffer := retrieve_all (cn_write_buffer c)\<rparr>)) s)"

section \<open>Closing\<close>

definition handle_close :: "bool \<Rightarrow> conn_io \<Rightarrow> conn_io" where
  "handle_close here s =
     (if off_loop here s then s
      else if cn_state (io_conn s) = Disconnecting \<or> cn_state (io_conn s) = Disconnected then s
      else let s1 = clear_write_buffer_in_loop here (set_conn ((io_conn s)\<lparr>cn_state := Disconnecting\<rparr>) s) in
        if cn_close_callback (io_conn s1) then s1\<lparr>io_closings := io_closings s1 + 1\<rparr> else s1)"

text \<open>Closing a descriptor takes it out of the kernel's interest list.\<close>

definition close_connection :: "conn_io \<Rightarrow> conn_io" where
  "close_connection s =
     (if cn_close (io_conn s) then s
      else s\<lparr>io_conn := (io_conn s)\<lparr>cn_close := True\<rparr>,
             io_loop := (io_loop s)\<lparr>el_interest := um_erase (cn_fd (io_conn s)) (el_interest (io_loop s))\<rparr>\<rparr>)"

definition connect_destroyed :: "bool \<Rightarrow> bool \<Rightarrow> conn_io \<Rightarrow> conn_io" where
  "connect_destroyed here ctl_ok s =
     (if off_loop here s then s
      else if cn_state (io_conn s) = Disconnected then s
      else let s1 = (if cn_registered (io_conn s)
             then s\<lparr>io_loop := snd (remove_fd here ctl_ok (cn_fd (io_conn s)) (io_loop s)),
                    io_conn := (io_conn s)\<lparr>cn_registered := False\<rparr>\<rparr>
             else s);
           s2 = close_connection (clear_write_buffer_in_loop here s1) in
        set_conn ((io_conn s2)\<lparr>cn_state := Disconnected\<rparr>) s2)"

definition connection_destructor :: "conn_io \<Rightarrow> conn_io" where
  "connection_destructor s = close_connection s"

section \<open>Establishing\<close>

definition read_events :: u32 where
  "read_events = EPOLLIN OR EPOLLET OR EPOLLONESHOT OR EPOLLRDHUP"

definition connect_established :: "bool \<Rightarrow> bool \<Rightarrow> nat \<Rightarrow> conn_io \<Rightarrow> conn_io" where
  "connect_established here ctl_ok cb s =
     (let c = io_conn s in
      if off_loop here s then s
      else if cn_state c \<noteq> Connecting then s
      else if cn_registered c then s
      else if \<not> cn_shared c then s
      else case add_fd here ctl_ok (cn_fd c) read_events (Some cb) (io_loop s) of
        (added, l) \<Rightarrow>
        let s1 = s\<lparr>io_loop := l\<rparr> in
        if added then set_conn (c\<lparr>cn_registered := True, cn_state := Connected\<rparr>) s1
        else handle_close here s1)"

section \<open>Reading and writing\<close>

datatype read_result = Received bytes | RIntr | RAgain | RError

text \<open>An empty read is the end of the stream.\<close>

primrec read_loop :: "read_result list \<Rightarrow> Connection \<Rightarrow> bool \<times> Connection" where
  "read_loop [] c = (True, c)"
| "read_loop (a # as) c =
     (case a of
        Received d \<Rightarrow>
          if d = [] then (True, c\<lparr>cn_peer_eof := True\<rparr>)
          else read_loop as (c\<lparr>cn_read_buffer := buffer_append d (cn_read_buffer c)\<rparr>)
      | RIntr \<Rightarrow> read_loop as c
      | RAgain \<Rightarrow> (True, c)
      | RError \<Rightarrow> (False, c))"

definition read_from_socket :: "read_result list \<Rightarrow> conn_io \<Rightarrow> bool \<times> conn_io" where
  "read_from_socket as s = (case read_loop as (io_conn s) of (ok, c) \<Rightarrow> (ok, set_conn c s))"

datatype write_result = Wrote nat | WIntr | WAgain | WError

text \<open>\<open>write\<close> takes at most what it is given, so the assertion of \<open>retrieve\<close> holds.\<close>

definition wrote :: "nat \<Rightarrow> conn_io \<Rightarrow> conn_io" where
  "wrote n s =
     (let c = io_conn s; b = cn_write_buffer c in
      case retrieve n b of
        None \<Rightarrow> s
      | Some b' \<Rightarrow> s\<lparr>io_conn := release_write_bytes n (c\<lparr>cn_write_buffer := b'\<rparr>),
                    io_wire := io_wire s @ take n (peek b)\<rparr>)"

primrec write_loop :: "write_result list \<Rightarrow> conn_io \<Rightarrow> bool \<times> conn_io" where
  "write_loop [] s = (True, s)"
| "write_loop (a # as) s =
     (if buffer_empty (cn_write_buffer (io_conn s)) then (True, s)
      else case a of
        Wrote n \<Rightarrow>
          if n > 0 then write_loop as (wrote (min n (readable_bytes (cn_write_buffer (io_conn s)))) s)
          else (False, s)
      | WIntr \<Rightarrow> write_loop as s
      | WAgain \<Rightarrow> (True, s)
      | WError \<Rightarrow> (False, s))"

definition write_to_socket :: "bool \<Rightarrow> write_result list \<Rightarrow> conn_io \<Rightarrow> bool \<times> conn_io" where
  "write_to_socket here as s = (if off_loop here s then (False, s) else write_loop as s)"

definition need_events :: "Connection \<Rightarrow> u32" where
  "need_events c = (if \<not> buffer_empty (cn_write_buffer c) then read_events OR EPOLLOUT else read_events)"

text \<open>The end of \<open>handle_event\<close> and \<open>send_in_loop\<close>: arm the descriptor again, or close.\<close>

definition rearm :: "bool \<Rightarrow> bool \<Rightarrow> conn_io \<Rightarrow> conn_io" where
  "rearm here ctl_ok s =
     (case update_fd here ctl_ok (cn_fd (io_conn s)) (need_events (io_conn s)) (io_loop s) of
        (updated, l) \<Rightarrow> let s1 = s\<lparr>io_loop := l\<rparr> in if \<not> updated then handle_close here s1 else s1)"

section \<open>Sending\<close>

definition release_send :: "bytes \<Rightarrow> conn_io \<Rightarrow> conn_io" where
  "release_send data s = set_conn (release_write_bytes (length data) (io_conn s)) s"

definition send_in_loop :: "bool \<Rightarrow> write_result list \<Rightarrow> bool \<Rightarrow> bytes \<Rightarrow> conn_io \<Rightarrow> conn_io" where
  "send_in_loop here writes ctl_ok data s =
     (if off_loop here s then release_send data s
      else if cn_state (io_conn s) \<noteq> Connected \<or> data = [] then release_send data s
      else let c = io_conn s;
           s1 = (set_conn (c\<lparr>cn_write_buffer := buffer_append data (cn_write_buffer c)\<rparr>) s)
             \<lparr>io_appended := io_appended s @ [data]\<rparr> in
        case write_to_socket here writes s1 of
          (ok, s2) \<Rightarrow> if \<not> ok then handle_close here s2 else rearm here ctl_ok s2)"

definition post :: "sys list \<Rightarrow> conn_task \<Rightarrow> conn_io \<Rightarrow> conn_io" where
  "post os x s = s\<lparr>io_loop := queue_in_loop os (Some x) (io_loop s)\<rparr>"

definition conn_send :: "bool \<Rightarrow> sys list \<Rightarrow> write_result list \<Rightarrow> bool \<Rightarrow> bytes \<Rightarrow> conn_io \<Rightarrow> bool \<times> conn_io" where
  "conn_send here os writes ctl_ok data s =
     (if \<not> cn_loop (io_conn s) \<or> data = [] then (False, s)
      else if \<not> cn_shared (io_conn s) then (False, s)
      else case reserve_write_bytes (length data) (io_conn s) of
        (reserved, c) \<Rightarrow>
        if \<not> reserved then (False, s)
        else (case run_in_loop here os (Some (SendTask data)) (io_loop s) of
          (None, l) \<Rightarrow> (True, s\<lparr>io_conn := c, io_loop := l\<rparr>)
        | (Some _, l) \<Rightarrow> (True, send_in_loop here writes ctl_ok data (s\<lparr>io_conn := c, io_loop := l\<rparr>))))"

definition request_close :: "bool \<Rightarrow> sys list \<Rightarrow> conn_io \<Rightarrow> conn_io" where
  "request_close here os s =
     (if \<not> cn_loop (io_conn s) then s
      else if \<not> cn_shared (io_conn s) then s
      else case run_in_loop here os (Some CloseTask) (io_loop s) of
        (None, l) \<Rightarrow> s\<lparr>io_loop := l\<rparr>
      | (Some _, l) \<Rightarrow> handle_close here (s\<lparr>io_loop := l\<rparr>))"

section \<open>Activity\<close>

definition refresh_peer_activity :: "bool \<Rightarrow> time_point \<Rightarrow> conn_io \<Rightarrow> conn_io" where
  "refresh_peer_activity here now s =
     (if off_loop here s then s
      else if cn_state (io_conn s) \<noteq> Connected then s
      else set_conn ((io_conn s)\<lparr>cn_last_peer_activity_time := now\<rparr>) s)"

definition check_timeout :: "sys list \<Rightarrow> int \<Rightarrow> conn_io \<Rightarrow> conn_io" where
  "check_timeout os timeout s =
     (if \<not> cn_loop (io_conn s) \<or> timeout \<le> 0 then s
      else if \<not> cn_shared (io_conn s) then s
      else post os (TimeoutTask timeout) s)"

definition check_timeout_in_loop :: "bool \<Rightarrow> time_point \<Rightarrow> int \<Rightarrow> conn_io \<Rightarrow> conn_io" where
  "check_timeout_in_loop here now timeout s =
     (if off_loop here s then s
      else if cn_state (io_conn s) \<noteq> Connected then s
      else if now - cn_last_peer_activity_time (io_conn s) \<ge> 1000000 * timeout then handle_close here s
      else s)"

section \<open>Events\<close>

text \<open>What the message callback does to its own connection, on the loop's thread, and what it
  leaves in the read buffer.\<close>

datatype cb_action = ActSend bytes "write_result list" bool | ActClose | ActRefresh time_point

primrec exec_action :: "bool \<Rightarrow> cb_action \<Rightarrow> conn_io \<Rightarrow> conn_io" where
  "exec_action here (ActSend data writes ctl_ok) s = snd (conn_send here [] writes ctl_ok data s)"
| "exec_action here ActClose s = request_close here [] s"
| "exec_action here (ActRefresh now) s = refresh_peer_activity here now s"

record event_env =
  ev_reads :: "read_result list"
  ev_callback :: "Buffer \<Rightarrow> bool \<times> Buffer \<times> cb_action list"
  ev_writes :: "write_result list"
  ev_ctl_ok :: bool

text \<open>The first half of \<open>handle_event\<close>: whether it goes on, and the state.\<close>

definition handle_readable :: "bool \<Rightarrow> event_env \<Rightarrow> conn_io \<Rightarrow> bool \<times> conn_io" where
  "handle_readable here e s =
     (case read_from_socket (ev_reads e) s of
        (ok, s1) \<Rightarrow>
        if \<not> ok then (False, handle_close here s1)
        else if \<not> cn_message_callback (io_conn s1) then (False, handle_close here s1)
        else case ev_callback e (cn_read_buffer (io_conn s1)) of
          (accepted, rest, actions) \<Rightarrow>
          let s2 = fold (exec_action here) actions (set_conn ((io_conn s1)\<lparr>cn_read_buffer := rest\<rparr>) s1) in
          if \<not> accepted then (False, handle_close here s2)
          else (cn_state (io_conn s2) = Connected, s2))"

definition handle_writable :: "bool \<Rightarrow> event_env \<Rightarrow> u32 \<Rightarrow> conn_io \<Rightarrow> conn_io" where
  "handle_writable here e events s =
     (case (if events AND EPOLLOUT \<noteq> 0 then write_to_socket here (ev_writes e) s else (True, s)) of
        (connection_success, s1) \<Rightarrow>
        if \<not> connection_success \<or> events AND (EPOLLERR OR EPOLLHUP) \<noteq> 0 then handle_close here s1
        else if cn_peer_eof (io_conn s1) \<and> buffer_empty (cn_write_buffer (io_conn s1)) then handle_close here s1
        else rearm here (ev_ctl_ok e) s1)"

definition handle_event :: "bool \<Rightarrow> event_env \<Rightarrow> u32 \<Rightarrow> conn_io \<Rightarrow> conn_io" where
  "handle_event here e events s =
     (if off_loop here s then s
      else if cn_state (io_conn s) \<noteq> Connected then s
      else case (if events AND (EPOLLIN OR EPOLLRDHUP) \<noteq> 0 then handle_readable here e s else (True, s)) of
        (go_on, s1) \<Rightarrow> if \<not> go_on then s1 else handle_writable here e events s1)"

end
