(* ===== verification/Connection_World.thy ===== *)
theory Connection_World
  imports Connection "HOL-Library.Sublist"
begin

text \<open>
  A connection among threads: its loop's thread handles events and runs the functors queued for
  it, other threads send, request closing and queue timeout checks at any moment, and the
  server destroys it. The functors of the loop are those of this connection, in the order in
  which the event loop runs them (\<open>Loop_World\<close>); the rest of the loop may change between
  the steps (\<open>loop_frame\<close>).
\<close>

record task_env =
  tk_ctl_ok :: bool
  tk_writes :: "write_result list"
  tk_now :: time_point
  tk_callback :: nat

fun run_conn_task :: "task_env \<Rightarrow> conn_task \<Rightarrow> conn_io \<Rightarrow> conn_io" where
  "run_conn_task te EstablishTask s = connect_established True (tk_ctl_ok te) (tk_callback te) s"
| "run_conn_task te (SendTask data) s = send_in_loop True (tk_writes te) (tk_ctl_ok te) data s"
| "run_conn_task te CloseTask s = handle_close True s"
| "run_conn_task te (TimeoutTask timeout) s = check_timeout_in_loop True (tk_now te) timeout s"
| "run_conn_task te DestroyTask s = connect_destroyed True (tk_ctl_ok te) s"

record conn_world =
  cw_io :: conn_io
  cw_posted :: "bytes list" \<comment> \<open>what other threads have sent successfully\<close>
  cw_taken :: "bytes list" \<comment> \<open>what of it was run while the connection was up\<close>

definition queued_sends :: "conn_task list \<Rightarrow> bytes list" where
  "queued_sends q = concat (map (\<lambda>x. case x of SendTask data \<Rightarrow> [data] | _ \<Rightarrow> []) q)"

definition queue_of :: "conn_io \<Rightarrow> conn_task list" where
  "queue_of s = el_pending_functors (io_loop s)"

definition disarm :: "conn_io \<Rightarrow> conn_io" where
  "disarm s = s\<lparr>io_loop := (io_loop s)\<lparr>el_interest := um_assign (cn_fd (io_conn s)) 0 (el_interest (io_loop s))\<rparr>\<rparr>"

definition callback_ok :: "event_env \<Rightarrow> bool" where
  "callback_ok e \<longleftrightarrow> (\<forall>b. buffer_wf b \<longrightarrow> buffer_wf (fst (snd (ev_callback e b))))"

text \<open>Nothing else touches the descriptor before it is closed.\<close>

definition loop_frame :: "conn_io \<Rightarrow> conn_loop \<Rightarrow> bool" where
  "loop_frame s l \<longleftrightarrow> el_valid l \<and> el_pending_functors l = queue_of s \<and>
     (\<not> cn_close (io_conn s) \<longrightarrow>
        um_find (cn_fd (io_conn s)) (el_interest l) = um_find (cn_fd (io_conn s)) (el_interest (io_loop s)) \<and>
        um_find (cn_fd (io_conn s)) (el_callbacks l) = um_find (cn_fd (io_conn s)) (el_callbacks (io_loop s)))"

text \<open>\<open>TcpServer\<close> makes a connection for a descriptor the kernel has just opened, sets both
  callbacks and queues \<open>connect_established\<close>.\<close>

definition conn_started :: "conn_world \<Rightarrow> bool" where
  "conn_started w \<longleftrightarrow> (\<exists>fd now. io_conn (cw_io w) = set_message_callback (set_close_callback (Connection_new True fd now)) \<and> 0 \<le> fd \<and>
       \<not> um_contains fd (el_interest (io_loop (cw_io w)))) \<and>
     el_valid (io_loop (cw_io w)) \<and> queue_of (cw_io w) = [EstablishTask] \<and>
     io_wire (cw_io w) = [] \<and> io_closings (cw_io w) = 0 \<and> io_appended (cw_io w) = [] \<and>
     cw_posted w = [] \<and> cw_taken w = []"

definition set_io :: "conn_io \<Rightarrow> conn_world \<Rightarrow> conn_world" where
  "set_io s w = w\<lparr>cw_io := s\<rparr>"

definition dequeue :: "conn_task list \<Rightarrow> conn_io \<Rightarrow> conn_io" where
  "dequeue q s = s\<lparr>io_loop := (io_loop s)\<lparr>el_pending_functors := q\<rparr>\<rparr>"

definition note_taken :: "conn_task \<Rightarrow> conn_world \<Rightarrow> conn_world" where
  "note_taken x w = (if cn_state (io_conn (cw_io w)) = Connected then w\<lparr>cw_taken := cw_taken w @ queued_sends [x]\<rparr> else w)"

inductive conn_step :: "conn_world \<Rightarrow> conn_world \<Rightarrow> bool" where
  cw_event: "um_find (cn_fd (io_conn (cw_io w))) (el_interest (io_loop (cw_io w))) = Some armed \<Longrightarrow> armed \<noteq> 0 \<Longrightarrow>
    callback_ok e \<Longrightarrow> conn_step w (set_io (handle_event True e events (disarm (cw_io w))) w)"
| cw_task: "queue_of (cw_io w) = x # q \<Longrightarrow>
    conn_step w (set_io (run_conn_task te x (dequeue q (cw_io w))) (note_taken x w))"
| cw_send: "conn_send here os writes ctl_ok data (cw_io w) = (ok, s) \<Longrightarrow>
    conn_step w (set_io s (w\<lparr>cw_posted := cw_posted w @ (if ok \<and> \<not> here then [data] else [])\<rparr>))"
| cw_close: "conn_step w (set_io (request_close here os (cw_io w)) w)"
| cw_timeout: "conn_step w (set_io (check_timeout os timeout (cw_io w)) w)"
| cw_refresh: "conn_step w (set_io (refresh_peer_activity here now (cw_io w)) w)"
| cw_destroy: "conn_step w (set_io (post os DestroyTask (cw_io w)) w)"
| cw_destroy_here: "conn_step w (set_io (connect_destroyed True ctl_ok (cw_io w)) w)"
| cw_other: "loop_frame (cw_io w) l \<Longrightarrow> conn_step w (set_io ((cw_io w)\<lparr>io_loop := l\<rparr>) w)"

inductive_cases conn_stepE: "conn_step w w'"

section \<open>The invariant\<close>

definition conn_core :: "conn_io \<Rightarrow> bool" where
  "conn_core s \<longleftrightarrow> (let c = io_conn s; l = io_loop s; wb = content (cn_write_buffer c) in
     buffer_wf (cn_read_buffer c) \<and> buffer_wf (cn_write_buffer c) \<and> cn_loop c \<and> cn_shared c \<and> 0 \<le> cn_fd c \<and> el_valid l \<and>
     cn_close_callback c \<and> prefix (io_wire s) (concat (io_appended s)) \<and>
     (case cn_state c of
        Connecting \<Rightarrow> wb = [] \<and> io_appended s = [] \<and> io_closings s = 0 \<and> \<not> cn_registered c \<and> \<not> cn_close c
      | Connected \<Rightarrow> io_wire s @ wb = concat (io_appended s) \<and> io_closings s = 0 \<and> cn_registered c \<and> \<not> cn_close c \<and>
          um_contains (cn_fd c) (el_callbacks l) \<and> um_contains (cn_fd c) (el_interest l)
      | Disconnecting \<Rightarrow> wb = [] \<and> io_closings s = 1 \<and> \<not> cn_close c
      | Disconnected \<Rightarrow> wb = [] \<and> io_closings s \<le> 1 \<and> \<not> cn_registered c \<and> cn_close c))"

definition queued_bytes :: "conn_io \<Rightarrow> nat" where
  "queued_bytes s = length (concat (queued_sends (queue_of s)))"

text \<open>The account of pending bytes, with \<open>k\<close> bytes reserved for a send that is under way.\<close>

definition books :: "nat \<Rightarrow> conn_io \<Rightarrow> bool" where
  "books k s \<longleftrightarrow> cn_pending_write_bytes (io_conn s) = length (content (cn_write_buffer (io_conn s))) + queued_bytes s + k \<and>
     cn_pending_write_bytes (io_conn s) \<le> WRITE_HARD_LIMIT"

definition armed :: "conn_io \<Rightarrow> bool" where
  "armed s \<longleftrightarrow> (cn_state (io_conn s) = Connected \<longrightarrow>
     um_find (cn_fd (io_conn s)) (el_interest (io_loop s)) = Some (need_events (io_conn s)))"

text \<open>What a step of the loop's own thread never does.\<close>

definition onward :: "conn_io \<Rightarrow> conn_io \<Rightarrow> bool" where
  "onward s s' \<longleftrightarrow> queue_of s' = queue_of s \<and> cn_fd (io_conn s') = cn_fd (io_conn s) \<and>
     prefix (io_appended s) (io_appended s') \<and>
     (cn_state (io_conn s') = Connected \<longrightarrow> cn_state (io_conn s) = Connected) \<and>
     (cn_state (io_conn s') = Connecting \<longrightarrow> cn_state (io_conn s) = Connecting)"

definition step_ok :: "nat \<Rightarrow> conn_io \<Rightarrow> conn_io \<Rightarrow> bool" where
  "step_ok k s s' \<longleftrightarrow> conn_core s' \<and> books k s' \<and> onward s s'"

lemma onward_refl [simp]: "onward s s"
  by (simp add: onward_def)

lemma onward_trans: "onward s t \<Longrightarrow> onward t u \<Longrightarrow> onward s u"
  by (auto simp: onward_def dest: prefix_order.trans)

lemma step_ok_trans: "onward s t \<Longrightarrow> step_ok k t u \<Longrightarrow> step_ok k s u"
  by (auto simp: step_ok_def intro: onward_trans)

lemma on_loop [simp]: "conn_core s \<Longrightarrow> \<not> off_loop True s"
  by (simp add: off_loop_def conn_core_def Let_def)

lemma core_wf: "conn_core s \<Longrightarrow> buffer_wf (cn_write_buffer (io_conn s))" "conn_core s \<Longrightarrow> buffer_wf (cn_read_buffer (io_conn s))"
  by (simp_all add: conn_core_def Let_def)

lemma release_pending [simp]:
  "cn_pending_write_bytes (release_write_bytes n c) =
     (if n \<le> cn_pending_write_bytes c then cn_pending_write_bytes c - n else cn_pending_write_bytes c)"
  by (simp add: release_write_bytes_def Let_def)

lemma release_frame [simp]:
  "cn_write_buffer (release_write_bytes n c) = cn_write_buffer c" "cn_read_buffer (release_write_bytes n c) = cn_read_buffer c"
  "cn_loop (release_write_bytes n c) = cn_loop c" "cn_shared (release_write_bytes n c) = cn_shared c"
  "cn_fd (release_write_bytes n c) = cn_fd c" "cn_state (release_write_bytes n c) = cn_state c"
  "cn_registered (release_write_bytes n c) = cn_registered c" "cn_close (release_write_bytes n c) = cn_close c"
  "cn_close_callback (release_write_bytes n c) = cn_close_callback c"
  "cn_message_callback (release_write_bytes n c) = cn_message_callback c"
  "cn_peer_eof (release_write_bytes n c) = cn_peer_eof c"
  by (simp_all add: release_write_bytes_def Let_def)

lemma queue_frame [simp]:
  "queue_of (s\<lparr>io_conn := c\<rparr>) = queue_of s" "queue_of (s\<lparr>io_wire := b\<rparr>) = queue_of s"
  "queue_of (s\<lparr>io_closings := n\<rparr>) = queue_of s" "queue_of (s\<lparr>io_appended := a\<rparr>) = queue_of s"
  "queue_of (set_conn c s) = queue_of s" "queue_of (dequeue q s) = q" "queue_of (disarm s) = queue_of s"
  by (simp_all add: queue_of_def set_conn_def dequeue_def disarm_def)

lemma queued_bytes_queue: "queue_of s' = queue_of s \<Longrightarrow> queued_bytes s' = queued_bytes s"
  by (simp add: queued_bytes_def)

section \<open>Closing\<close>

definition cleared :: "Buffer \<Rightarrow> Buffer" where
  "cleared b = (if content b = [] then b else retrieve_all b)"

lemma cleared [simp]: "buffer_wf b \<Longrightarrow> buffer_wf (cleared b)" "content (cleared b) = []"
  by (simp_all add: cleared_def retrieve_all_wf retrieve_all_content)

lemma clear_write_buffer:
  assumes "buffer_wf (cn_write_buffer (io_conn s))" and "cn_loop (io_conn s)" and "books k s"
  shows "clear_write_buffer_in_loop True s = set_conn ((io_conn s)\<lparr>
     cn_write_buffer := cleared (cn_write_buffer (io_conn s)), cn_pending_write_bytes := queued_bytes s + k\<rparr>) s"
proof -
  have n: "readable_bytes (cn_write_buffer (io_conn s)) = length (content (cn_write_buffer (io_conn s)))"
    using assms(1) by simp
  show ?thesis
    using assms(2,3)
    by (auto simp: clear_write_buffer_in_loop_def off_loop_def n Let_def books_def set_conn_def release_write_bytes_def
        cleared_def)
qed

lemma handle_close_up:
  assumes "conn_core s" and "books k s" and "cn_state (io_conn s) = Connecting \<or> cn_state (io_conn s) = Connected"
  shows "handle_close True s = s\<lparr>io_conn := (io_conn s)\<lparr>cn_state := Disconnecting,
     cn_write_buffer := cleared (cn_write_buffer (io_conn s)), cn_pending_write_bytes := queued_bytes s + k\<rparr>,
     io_closings := 1\<rparr>"
proof -
  let ?s = "set_conn ((io_conn s)\<lparr>cn_state := Disconnecting\<rparr>) s"
  have "books k ?s" using assms(2) by (simp add: books_def set_conn_def queued_bytes_def)
  moreover have "cn_loop (io_conn s)" "cn_close_callback (io_conn s)" "io_closings s = 0"
    using assms(1,3) by (auto simp: conn_core_def Let_def)
  ultimately have "clear_write_buffer_in_loop True ?s = set_conn ((io_conn ?s)\<lparr>
     cn_write_buffer := cleared (cn_write_buffer (io_conn ?s)), cn_pending_write_bytes := queued_bytes ?s + k\<rparr>) ?s"
    using core_wf [OF assms(1)] by (intro clear_write_buffer) (simp_all add: set_conn_def)
  then show ?thesis
    using assms(3) on_loop [OF assms(1)] \<open>cn_close_callback (io_conn s)\<close> \<open>io_closings s = 0\<close>
    by (auto simp: handle_close_def Let_def set_conn_def queued_bytes_def)
qed

lemma handle_close_down:
  "conn_core s \<Longrightarrow> cn_state (io_conn s) = Disconnecting \<or> cn_state (io_conn s) = Disconnected \<Longrightarrow> handle_close True s = s"
  by (simp add: handle_close_def)

lemma handle_close_ok:
  assumes "conn_core s" and "books k s"
  shows "step_ok k s (handle_close True s)" and "cn_state (io_conn (handle_close True s)) \<noteq> Connected"
proof -
  consider (up) "cn_state (io_conn s) = Connecting \<or> cn_state (io_conn s) = Connected"
    | (down) "cn_state (io_conn s) = Disconnecting \<or> cn_state (io_conn s) = Disconnected"
    by (cases "cn_state (io_conn s)") auto
  then have "step_ok k s (handle_close True s) \<and> cn_state (io_conn (handle_close True s)) \<noteq> Connected"
  proof cases
    case up
    then show ?thesis
      using assms unfolding handle_close_up [OF assms up]
      by (auto simp: step_ok_def conn_core_def Let_def books_def queued_bytes_def onward_def)
  next
    case down
    then show ?thesis using assms by (auto simp: handle_close_down step_ok_def)
  qed
  then show "step_ok k s (handle_close True s)" "cn_state (io_conn (handle_close True s)) \<noteq> Connected" by auto
qed

lemma handle_close_armed: "conn_core s \<Longrightarrow> books k s \<Longrightarrow> armed (handle_close True s)"
  using handle_close_ok(2) by (simp add: armed_def)

section \<open>Writing\<close>

text \<open>A connection that is up, in the middle of an operation of its thread.\<close>

definition up :: "nat \<Rightarrow> conn_io \<Rightarrow> bool" where
  "up k s \<longleftrightarrow> conn_core s \<and> books k s \<and> cn_state (io_conn s) = Connected"

lemma wrote_up:
  assumes "up k s" and "n \<le> readable_bytes (cn_write_buffer (io_conn s))"
  shows "up k (wrote n s)" and "onward s (wrote n s)"
proof -
  let ?c = "io_conn s" and ?b = "cn_write_buffer (io_conn s)"
  have wf: "buffer_wf ?b" using core_wf assms(1) by (simp add: up_def)
  obtain b' where b': "retrieve n ?b = Some b'" using retrieve_Some [OF assms(2)] by blast
  note f = retrieve_wf [OF wf b'] retrieve_content [OF wf b']
  have n: "n \<le> length (content ?b)" using assms(2) wf by simp
  have t: "take n (peek ?b) = take n (content ?b)" using assms(2) by (simp add: content_def)
  have w: "wrote n s = s\<lparr>io_conn := release_write_bytes n (?c\<lparr>cn_write_buffer := b'\<rparr>), io_wire := io_wire s @ take n (content ?b)\<rparr>"
    by (simp add: wrote_def b' t Let_def)
  have st: "cn_state ?c = Connected" "io_wire s @ content ?b = concat (io_appended s)" "books k s" "conn_core s"
    using assms(1) by (auto simp: up_def conn_core_def Let_def)
  have cat: "io_wire s @ take n (content ?b) @ drop n (content ?b) = concat (io_appended s)" using st(2) by simp
  then have "prefix (io_wire s @ take n (content ?b)) (concat (io_appended s))"
    by (metis append.assoc prefixI)
  then have "conn_core (wrote n s)"
    using st f cat unfolding w by (simp add: conn_core_def Let_def)
  moreover have "books k (wrote n s)"
    using st(3) n unfolding w by (auto simp: books_def queued_bytes_def f(2) simp del: length_content)
  ultimately show "up k (wrote n s)" using st(1) by (simp add: up_def w)
  show "onward s (wrote n s)" using st(1) by (simp add: onward_def w)
qed

lemma write_loop_up:
  "up k s \<Longrightarrow> write_loop as s = (ok, s') \<Longrightarrow> up k s' \<and> onward s s'"
proof (induction as arbitrary: s)
  case (Cons a as)
  show ?case
  proof (cases a)
    case (Wrote n)
    let ?s = "wrote (min n (readable_bytes (cn_write_buffer (io_conn s)))) s"
    have "up k ?s" "onward s ?s" using wrote_up [OF Cons.prems(1)] by simp_all
    then show ?thesis
      using Cons.IH [of ?s] Cons.prems Wrote by (auto split: if_splits intro: onward_trans)
  qed (use Cons in \<open>auto split: if_splits\<close>)
qed auto

lemma rearm_ok:
  assumes "up k s"
  shows "step_ok k s (rearm True ctl_ok s)" and "armed (rearm True ctl_ok s)"
proof -
  let ?c = "io_conn s"
  obtain updated l where u: "update_fd True ctl_ok (cn_fd ?c) (need_events ?c) (io_loop s) = (updated, l)" by fastforce
  let ?s = "s\<lparr>io_loop := l\<rparr>"
  have c: "conn_core s" "books k s" "cn_state ?c = Connected" using assms by (simp_all add: up_def)
  have l: "el_pending_functors l = queue_of s" "el_valid l"
      "um_contains (cn_fd ?c) (el_callbacks l) = um_contains (cn_fd ?c) (el_callbacks (io_loop s))"
      "um_contains (cn_fd ?c) (el_interest l) = um_contains (cn_fd ?c) (el_interest (io_loop s))"
      "updated \<Longrightarrow> um_find (cn_fd ?c) (el_interest l) = Some (need_events ?c)"
    using u c(1) by (auto simp: update_fd_def queue_of_def conn_core_def Let_def el_valid_def um_contains_def split: if_splits)
  have core: "conn_core ?s" using c l by (simp add: conn_core_def Let_def)
  have bk: "books k ?s" using c(2) l(1) by (simp add: books_def queued_bytes_def queue_of_def)
  have on: "onward s ?s" using l(1) by (simp add: onward_def queue_of_def)
  have "step_ok k s (rearm True ctl_ok s) \<and> armed (rearm True ctl_ok s)"
  proof (cases updated)
    case True
    then show ?thesis using core bk on l(5) by (simp add: rearm_def u step_ok_def armed_def)
  next
    case False
    then show ?thesis
      using step_ok_trans [OF on handle_close_ok(1) [OF core bk]] handle_close_armed [OF core bk]
      by (simp add: rearm_def u)
  qed
  then show "step_ok k s (rearm True ctl_ok s)" "armed (rearm True ctl_ok s)" by auto
qed

section \<open>Sending\<close>

lemma release_send_ok:
  assumes "conn_core s" and "books (k + length data) s"
  shows "step_ok k s (release_send data s)" and "armed s \<Longrightarrow> armed (release_send data s)"
  using assms
  by (cases "cn_state (io_conn s)"; auto simp: release_send_def set_conn_def step_ok_def conn_core_def Let_def books_def
      onward_def queued_bytes_def armed_def need_events_def)+

definition appended :: "bytes \<Rightarrow> conn_io \<Rightarrow> conn_io" where
  "appended data s = (set_conn ((io_conn s)\<lparr>cn_write_buffer := buffer_append data (cn_write_buffer (io_conn s))\<rparr>) s)
     \<lparr>io_appended := io_appended s @ [data]\<rparr>"

lemma appended_up:
  assumes "conn_core s" and "books (k + length data) s" and "cn_state (io_conn s) = Connected"
  shows "up k (appended data s)" and "onward s (appended data s)"
proof -
  have "buffer_wf (buffer_append data (cn_write_buffer (io_conn s)))"
    "content (buffer_append data (cn_write_buffer (io_conn s))) = content (cn_write_buffer (io_conn s)) @ data"
    using core_wf [OF assms(1)] by (simp_all add: append_wf append_content)
  moreover have "io_wire s @ content (cn_write_buffer (io_conn s)) @ data = concat (io_appended s) @ data"
    using assms(1,3) by (simp add: conn_core_def Let_def flip: append.assoc)
  ultimately show "up k (appended data s)"
    using assms by (simp add: appended_def up_def conn_core_def Let_def books_def queued_bytes_def set_conn_def
        prefix_append del: length_content)
  show "onward s (appended data s)" using assms(3) by (simp add: appended_def onward_def set_conn_def)
qed

lemma write_to_socket_up:
  assumes "up k s" and "write_to_socket True as s = (ok, s')"
  shows "up k s'" and "onward s s'"
proof -
  have "write_loop as s = (ok, s')" using assms by (auto simp: write_to_socket_def up_def)
  then show "up k s'" "onward s s'" using write_loop_up [OF assms(1)] by auto
qed

lemma up_core: "up k s \<Longrightarrow> conn_core s \<and> books k s"
  by (simp add: up_def)

lemma send_in_loop_ok:
  assumes "conn_core s" and "books (k + length data) s"
  shows "step_ok k s (send_in_loop True writes ctl_ok data s)"
    and "armed s \<Longrightarrow> armed (send_in_loop True writes ctl_ok data s)"
proof -
  have "step_ok k s (send_in_loop True writes ctl_ok data s) \<and> (armed s \<longrightarrow> armed (send_in_loop True writes ctl_ok data s))"
  proof (cases "cn_state (io_conn s) \<noteq> Connected \<or> data = []")
    case True
    then show ?thesis
      using release_send_ok [OF assms] on_loop [OF assms(1)] by (auto simp: send_in_loop_def)
  next
    case False
    obtain ok s2 where w: "write_to_socket True writes (appended data s) = (ok, s2)" by fastforce
    note a = appended_up [OF assms, of] False
    have "up k s2" "onward (appended data s) s2"
      using write_to_socket_up [OF _ w, of k] appended_up(1) [OF assms] False by auto
    then have u: "up k s2" "onward s s2" using appended_up(2) [OF assms] False by (auto intro: onward_trans)
    have r: "send_in_loop True writes ctl_ok data s = (if \<not> ok then handle_close True s2 else rearm True ctl_ok s2)"
      using False on_loop [OF assms(1)] w by (simp add: send_in_loop_def appended_def Let_def)
    have c: "conn_core s2" "books k s2" using u(1) by (simp_all add: up_core)
    show ?thesis
      unfolding r using step_ok_trans [OF u(2) handle_close_ok(1) [OF c]] step_ok_trans [OF u(2) rearm_ok(1) [OF u(1)]]
        handle_close_armed [OF c] rearm_ok(2) [OF u(1)] by auto
  qed
  then show "step_ok k s (send_in_loop True writes ctl_ok data s)"
    "armed s \<Longrightarrow> armed (send_in_loop True writes ctl_ok data s)" by auto
qed

lemma send_in_loop_appends:
  assumes "conn_core s" and "books (k + length data) s" and "cn_state (io_conn s) = Connected" and "data \<noteq> []"
  shows "prefix (io_appended s @ [data]) (io_appended (send_in_loop True writes ctl_ok data s))"
proof -
  obtain ok s2 where w: "write_to_socket True writes (appended data s) = (ok, s2)" by fastforce
  have u: "up k s2" "onward (appended data s) s2"
    using write_to_socket_up [OF appended_up(1) [OF assms(1-3)] w] by auto
  have r: "send_in_loop True writes ctl_ok data s = (if \<not> ok then handle_close True s2 else rearm True ctl_ok s2)"
    using assms on_loop [OF assms(1)] w by (simp add: send_in_loop_def appended_def Let_def)
  have "onward s2 (send_in_loop True writes ctl_ok data s)"
    unfolding r using handle_close_ok(1) [of s2 k] rearm_ok(1) [OF u(1)] up_core [OF u(1)] by (auto simp: step_ok_def)
  then have "onward (appended data s) (send_in_loop True writes ctl_ok data s)" by (rule onward_trans [OF u(2)])
  then show ?thesis by (simp add: onward_def) (simp add: appended_def)
qed

text \<open>What \<open>send\<close> comes down to, once the bytes are reserved.\<close>

definition reserved :: "nat \<Rightarrow> conn_io \<Rightarrow> conn_io" where
  "reserved n s = s\<lparr>io_conn := (io_conn s)\<lparr>cn_pending_write_bytes := cn_pending_write_bytes (io_conn s) + n\<rparr>\<rparr>"

lemma conn_send_eq:
  assumes "conn_core s" and "books k s"
  shows "conn_send here os writes ctl_ok data s =
     (if data \<noteq> [] \<and> cn_pending_write_bytes (io_conn s) + length data \<le> WRITE_HARD_LIMIT
      then (True, if here then send_in_loop here writes ctl_ok data (reserved (length data) s)
            else post os (SendTask data) (reserved (length data) s))
      else (False, s))"
proof -
  have c: "cn_loop (io_conn s)" "cn_shared (io_conn s)" "cn_pending_write_bytes (io_conn s) \<le> WRITE_HARD_LIMIT"
    using assms by (simp_all add: conn_core_def Let_def books_def)
  show ?thesis
  proof (cases "data \<noteq> [] \<and> cn_pending_write_bytes (io_conn s) + length data \<le> WRITE_HARD_LIMIT")
    case True
    then have "reserve_write_bytes (length data) (io_conn s) = (True, io_conn (reserved (length data) s))"
      using c(3) by (auto simp: reserve_write_bytes_def Let_def reserved_def)
    then show ?thesis using True c by (simp add: conn_send_def run_in_loop_def post_def reserved_def)
  next
    case False
    then have "data \<noteq> [] \<Longrightarrow> reserve_write_bytes (length data) (io_conn s) = (False, io_conn s)"
      using c(3) by (auto simp: reserve_write_bytes_def Let_def)
    then show ?thesis using False c by (simp add: conn_send_def)
  qed
qed

lemma reserved_ok:
  assumes "conn_core s" and "books k s" and "cn_pending_write_bytes (io_conn s) + n \<le> WRITE_HARD_LIMIT"
  shows "conn_core (reserved n s)" and "books (k + n) (reserved n s)" and "onward s (reserved n s)"
    and "armed s \<Longrightarrow> armed (reserved n s)"
  using assms
  by (cases "cn_state (io_conn s)"; simp add: reserved_def conn_core_def Let_def books_def onward_def queued_bytes_def
      armed_def need_events_def)+

lemma conn_send_here:
  assumes "conn_core s" and "books k s"
  shows "step_ok k s (snd (conn_send True os writes ctl_ok data s)) \<and>
    (armed s \<longrightarrow> armed (snd (conn_send True os writes ctl_ok data s)))"
proof (cases "data \<noteq> [] \<and> cn_pending_write_bytes (io_conn s) + length data \<le> WRITE_HARD_LIMIT")
  case True
  note r = reserved_ok [OF assms conjunct2 [OF True]]
  have "snd (conn_send True os writes ctl_ok data s) = send_in_loop True writes ctl_ok data (reserved (length data) s)"
    using True by (simp add: conn_send_eq [OF assms])
  then show ?thesis
    using step_ok_trans [OF r(3) send_in_loop_ok(1) [OF r(1,2)]] send_in_loop_ok(2) [OF r(1,2)] r(4) by auto
next
  case False
  then show ?thesis using assms by (auto simp: conn_send_eq [OF assms] step_ok_def)
qed

section \<open>Events\<close>

lemma step_okD: "step_ok k s t \<Longrightarrow> conn_core t" "step_ok k s t \<Longrightarrow> books k t" "step_ok k s t \<Longrightarrow> onward s t"
  by (simp_all add: step_ok_def)

lemma step_ok_then: "step_ok k s t \<Longrightarrow> step_ok k t u \<Longrightarrow> step_ok k s u"
  by (rule step_ok_trans [OF step_okD(3)])

lemma step_ok_self: "conn_core s \<Longrightarrow> books k s \<Longrightarrow> step_ok k s s"
  by (simp add: step_ok_def)

lemma refresh_ok:
  assumes "conn_core s" and "books k s"
  shows "step_ok k s (refresh_peer_activity here now s)" and "armed s \<Longrightarrow> armed (refresh_peer_activity here now s)"
proof -
  let ?s = "set_conn ((io_conn s)\<lparr>cn_last_peer_activity_time := now\<rparr>) s"
  have "conn_core ?s" using assms(1) by (simp add: conn_core_def set_conn_def Let_def cong: ConnState.case_cong)
  moreover have "books k ?s" using assms(2) by (simp add: books_def queued_bytes_def) (simp add: set_conn_def)
  moreover have "onward s ?s" by (simp add: onward_def) (simp add: set_conn_def)
  ultimately have "step_ok k s ?s" by (simp add: step_ok_def)
  then show "step_ok k s (refresh_peer_activity here now s)"
    using assms by (simp add: refresh_peer_activity_def step_ok_def)
  show "armed s \<Longrightarrow> armed (refresh_peer_activity here now s)"
    by (simp add: refresh_peer_activity_def armed_def set_conn_def need_events_def)
qed

lemma request_close_here: "conn_core s \<Longrightarrow> request_close True os s = handle_close True s"
  by (simp add: request_close_def run_in_loop_def conn_core_def Let_def)

lemma exec_action_ok:
  assumes "conn_core s" and "books k s"
  shows "step_ok k s (exec_action True x s)"
  using assms conn_send_here [OF assms] refresh_ok(1) [OF assms] handle_close_ok(1) [OF assms]
  by (cases x) (auto simp: request_close_here)

lemma fold_actions_ok:
  "conn_core s \<Longrightarrow> books k s \<Longrightarrow> step_ok k s (fold (exec_action True) xs s)"
proof (induction xs arbitrary: s)
  case (Cons x xs)
  have "step_ok k s (exec_action True x s)" by (rule exec_action_ok [OF Cons.prems])
  then show ?case using Cons.IH [of "exec_action True x s"]
    by (auto simp: step_ok_def intro: onward_trans)
qed (simp add: step_ok_self)

lemma read_loop_reads:
  "buffer_wf (cn_read_buffer c) \<Longrightarrow> read_loop as c = (ok, c') \<Longrightarrow>
   \<exists>b eof. buffer_wf b \<and> c' = c\<lparr>cn_read_buffer := b, cn_peer_eof := eof\<rparr>"
proof (induction as arbitrary: c)
  case Nil
  then show ?case by (intro exI [of _ "cn_read_buffer c"] exI [of _ "cn_peer_eof c"]) simp
next
  case (Cons a as)
  have self: "\<exists>b eof. buffer_wf b \<and> c = c\<lparr>cn_read_buffer := b, cn_peer_eof := eof\<rparr>"
    using Cons.prems(1) by (intro exI [of _ "cn_read_buffer c"] exI [of _ "cn_peer_eof c"]) simp
  show ?case
  proof (cases a)
    case (Received d)
    show ?thesis
    proof (cases "d = []")
      case True
      then have "c' = c\<lparr>cn_read_buffer := cn_read_buffer c, cn_peer_eof := True\<rparr>" using Cons.prems Received by simp
      then show ?thesis using Cons.prems(1) by blast
    next
      case False
      let ?c = "c\<lparr>cn_read_buffer := buffer_append d (cn_read_buffer c)\<rparr>"
      have "\<exists>b eof. buffer_wf b \<and> c' = ?c\<lparr>cn_read_buffer := b, cn_peer_eof := eof\<rparr>"
        using Cons.prems Received False by (intro Cons.IH) (simp_all add: append_wf)
      then show ?thesis by simp
    qed
  qed (use Cons self in auto)
qed

lemma set_read_ok:
  assumes "conn_core s" and "books k s" and "buffer_wf b"
  shows "step_ok k s (set_conn ((io_conn s)\<lparr>cn_read_buffer := b, cn_peer_eof := eof\<rparr>) s)"
  using assms
  by (cases "cn_state (io_conn s)"; simp add: set_conn_def step_ok_def conn_core_def Let_def books_def onward_def
      queued_bytes_def)

lemma handle_readable_ok:
  assumes "conn_core s" and "books k s" and "callback_ok e" and "handle_readable True e s = (go_on, s')"
  shows "step_ok k s s' \<and> (if go_on then cn_state (io_conn s') = Connected else armed s')"
proof -
  obtain ok c1 where r: "read_loop (ev_reads e) (io_conn s) = (ok, c1)" by fastforce
  obtain b eof where c1: "buffer_wf b" "c1 = (io_conn s)\<lparr>cn_read_buffer := b, cn_peer_eof := eof\<rparr>"
    using read_loop_reads [OF core_wf(2) [OF assms(1)] r] by blast
  let ?s1 = "set_conn c1 s"
  have s1: "step_ok k s ?s1" using set_read_ok [OF assms(1,2) c1(1)] c1(2) by simp
  then have k1: "conn_core ?s1" "books k ?s1" by (simp_all add: step_ok_def)
  have close: "step_ok k s (handle_close True t) \<and> armed (handle_close True t)" if "step_ok k s t" for t
    using step_ok_then [OF that handle_close_ok(1) [OF step_okD(1,2) [OF that]]]
      handle_close_armed [OF step_okD(1,2) [OF that]] by simp
  obtain accepted rest actions where cb: "ev_callback e (cn_read_buffer (io_conn ?s1)) = (accepted, rest, actions)"
    using prod_cases3 by blast
  have rest: "buffer_wf rest" using assms(3) cb core_wf(2) [OF k1(1)] unfolding callback_ok_def by (metis fst_conv snd_conv)
  define t where "t = set_conn ((io_conn ?s1)\<lparr>cn_read_buffer := rest\<rparr>) ?s1"
  define u where "u = fold (exec_action True) actions t"
  have t: "step_ok k ?s1 t" using set_read_ok [OF k1 rest, of "cn_peer_eof (io_conn ?s1)"] by (simp add: t_def)
  have u: "step_ok k s u"
    unfolding u_def by (rule step_ok_then [OF step_ok_then [OF s1 t] fold_actions_ok [OF step_okD(1,2) [OF t]]])
  have "handle_readable True e s =
      (if \<not> ok \<or> \<not> cn_message_callback (io_conn ?s1) then (False, handle_close True ?s1)
       else if \<not> accepted then (False, handle_close True u)
       else (cn_state (io_conn u) = Connected, u))"
    using r cb by (simp add: handle_readable_def read_from_socket_def t_def u_def Let_def)
  then show ?thesis
    using assms(4) close [OF s1] close [OF u] u by (auto simp: armed_def split: if_splits)
qed

lemma handle_writable_ok:
  assumes "up k s"
  shows "step_ok k s (handle_writable True e events s)" and "armed (handle_writable True e events s)"
proof -
  obtain ok t where w: "(if events AND EPOLLOUT \<noteq> 0 then write_to_socket True (ev_writes e) s else (True, s)) = (ok, t)"
    by fastforce
  have t: "up k t \<and> onward s t" using write_to_socket_up [OF assms] w assms by (auto split: if_splits)
  have c: "conn_core t" "books k t" using t up_core [of k t] by auto
  have "handle_writable True e events s = handle_close True t \<or> handle_writable True e events s = rearm True (ev_ctl_ok e) t"
    by (simp add: handle_writable_def w)
  moreover have "step_ok k s (handle_close True t)" "step_ok k s (rearm True (ev_ctl_ok e) t)"
    using t handle_close_ok(1) [OF c] rearm_ok(1) step_ok_trans by blast+
  moreover have "armed (handle_close True t)" "armed (rearm True (ev_ctl_ok e) t)"
    using t handle_close_armed [OF c] rearm_ok(2) by blast+
  ultimately show "step_ok k s (handle_writable True e events s)" "armed (handle_writable True e events s)" by auto
qed

lemma handle_event_ok:
  assumes "conn_core s" and "books k s" and "callback_ok e"
  shows "step_ok k s (handle_event True e events s)" and "armed (handle_event True e events s)"
proof -
  have "step_ok k s (handle_event True e events s) \<and> armed (handle_event True e events s)"
  proof (cases "cn_state (io_conn s) = Connected")
    case True
    obtain go_on t where h: "(if events AND (EPOLLIN OR EPOLLRDHUP) \<noteq> 0 then handle_readable True e s else (True, s)) = (go_on, t)"
      by fastforce
    have t: "step_ok k s t \<and> (if go_on then cn_state (io_conn t) = Connected else armed t)"
      using h handle_readable_ok [OF assms] step_ok_self [OF assms(1,2)] True by (auto split: if_splits)
    have e: "handle_event True e events s = (if \<not> go_on then t else handle_writable True e events t)"
      using True on_loop [OF assms(1)] by (simp add: handle_event_def h)
    show ?thesis
    proof (cases go_on)
      case True
      then have "up k t" using t by (simp add: up_def step_ok_def)
      then show ?thesis using True t e handle_writable_ok step_ok_then by metis
    qed (use t e in simp)
  next
    case False
    then have "handle_event True e events s = s" using on_loop [OF assms(1)] by (simp add: handle_event_def)
    then show ?thesis using False step_ok_self [OF assms(1,2)] by (simp add: armed_def)
  qed
  then show "step_ok k s (handle_event True e events s)" "armed (handle_event True e events s)" by auto
qed

section \<open>Establishing and destroying\<close>

text \<open>What a connection asks of its loop.\<close>

lemma core_loop:
  assumes "conn_core s" and "el_valid l" and "cn_state (io_conn s) = Connected \<Longrightarrow>
    um_contains (cn_fd (io_conn s)) (el_callbacks l) \<and> um_contains (cn_fd (io_conn s)) (el_interest l)"
  shows "conn_core (s\<lparr>io_loop := l\<rparr>)"
  using assms by (cases "cn_state (io_conn s)") (auto simp: conn_core_def Let_def)

lemma core_loopD:
  assumes "conn_core s" and "cn_state (io_conn s) = Connected"
  shows "um_contains (cn_fd (io_conn s)) (el_callbacks (io_loop s))" and "um_contains (cn_fd (io_conn s)) (el_interest (io_loop s))"
    and "\<not> cn_close (io_conn s)"
  using assms by (simp_all add: conn_core_def Let_def)

lemma core_valid: "conn_core s \<Longrightarrow> el_valid (io_loop s)"
  by (simp add: conn_core_def Let_def)

lemma disarm_ok:
  assumes "conn_core s" and "books k s"
  shows "step_ok k s (disarm s)"
proof -
  have "conn_core (disarm s)"
    unfolding disarm_def using core_loopD [OF assms(1)] core_valid [OF assms(1)]
    by (intro core_loop [OF assms(1)]) (simp_all add: um_contains_def el_valid_def)
  moreover have "books k (disarm s)" using assms(2) by (simp add: books_def queued_bytes_def) (simp add: disarm_def)
  ultimately show ?thesis by (simp add: step_ok_def onward_def) (simp add: disarm_def)
qed

lemma add_fd_facts:
  assumes "add_fd here ctl_ok fd events (Some cb) l = (added, l')"
  shows "\<not> added \<Longrightarrow> l' = l" and "el_pending_functors l' = el_pending_functors l" and "el_valid l' = el_valid l"
    and "added \<Longrightarrow> um_contains fd (el_callbacks l') \<and> um_find fd (el_interest l') = Some events"
  using assms by (auto simp: add_fd_def el_valid_def um_contains_def split: if_splits)

lemma connect_established_ok:
  assumes "conn_core s" and "books k s" and "armed s" and s': "s' = connect_established True ctl_ok cb s"
  shows "conn_core s'" and "books k s'" and "armed s'" and "queue_of s' = queue_of s" and "io_appended s' = io_appended s"
    and "cn_state (io_conn s') \<noteq> Connecting" and "cn_state (io_conn s') = Connected \<Longrightarrow>
      cn_state (io_conn s) = Connected \<or> cn_state (io_conn s) = Connecting"
proof -
  have "conn_core s' \<and> books k s' \<and> armed s' \<and> queue_of s' = queue_of s \<and> io_appended s' = io_appended s \<and>
    cn_state (io_conn s') \<noteq> Connecting \<and> (cn_state (io_conn s') = Connected \<longrightarrow>
      cn_state (io_conn s) = Connected \<or> cn_state (io_conn s) = Connecting)"
  proof (cases "cn_state (io_conn s) = Connecting")
    case True
    let ?c = "io_conn s"
    have c: "\<not> cn_registered ?c" "cn_shared ?c" "content (cn_write_buffer ?c) = []" "io_wire s = []" "io_appended s = []"
        "io_closings s = 0" "\<not> cn_close ?c"
      using assms(1) True by (auto simp: conn_core_def Let_def)
    obtain added l where a: "add_fd True ctl_ok (cn_fd ?c) read_events (Some cb) (io_loop s) = (added, l)" by fastforce
    note l = add_fd_facts [OF a]
    show ?thesis
    proof (cases added)
      case True
      have e: "s' = set_conn (?c\<lparr>cn_registered := True, cn_state := Connected\<rparr>) (s\<lparr>io_loop := l\<rparr>)"
        unfolding s' using True \<open>cn_state ?c = Connecting\<close> c on_loop [OF assms(1)] a
        by (simp add: connect_established_def)
      have ne: "need_events ?c = read_events"
        using c(3) core_wf(1) [OF assms(1)] by (simp add: need_events_def buffer_empty_content)
      have "conn_core s'"
        using assms(1) c l True by (simp add: e set_conn_def conn_core_def Let_def um_contains_def)
      moreover have "books k s'" using assms(2) l(2) by (simp add: e set_conn_def books_def queued_bytes_def queue_of_def)
      moreover have "armed s'" using l(4) True ne by (simp add: e set_conn_def armed_def need_events_def)
      ultimately show ?thesis using l(2) \<open>cn_state ?c = Connecting\<close> by (simp add: e set_conn_def queue_of_def)
    next
      case False
      then have l': "l = io_loop s" using l(1) by simp
      have e: "s' = handle_close True s"
        unfolding s' using False \<open>cn_state ?c = Connecting\<close> c on_loop [OF assms(1)] a l'
        by (simp add: connect_established_def)
      have "cn_state (io_conn s') \<noteq> Connecting" "io_appended s' = io_appended s"
        unfolding e using handle_close_up [OF assms(1,2)] True by simp_all
      then show ?thesis
        using handle_close_ok [OF assms(1,2)] handle_close_armed [OF assms(1,2)] by (simp add: e step_ok_def onward_def)
    qed
  next
    case False
    then have "s' = s" unfolding s' using on_loop [OF assms(1)] by (simp add: connect_established_def)
    then show ?thesis using assms False by simp
  qed
  then show "conn_core s'" "books k s'" "armed s'" "queue_of s' = queue_of s" "io_appended s' = io_appended s"
    "cn_state (io_conn s') \<noteq> Connecting" "cn_state (io_conn s') = Connected \<Longrightarrow>
      cn_state (io_conn s) = Connected \<or> cn_state (io_conn s) = Connecting" by blast+
qed

lemma connect_destroyed_ok:
  assumes "conn_core s" and "books k s"
  shows "step_ok k s (connect_destroyed True ctl_ok s)" and "cn_state (io_conn (connect_destroyed True ctl_ok s)) = Disconnected"
proof -
  let ?s' = "connect_destroyed True ctl_ok s"
  have "step_ok k s ?s' \<and> cn_state (io_conn ?s') = Disconnected"
  proof (cases "cn_state (io_conn s) = Disconnected")
    case True
    then show ?thesis using step_ok_self [OF assms] on_loop [OF assms(1)] by (simp add: connect_destroyed_def)
  next
    case False
    define l where "l = (if cn_registered (io_conn s) then snd (remove_fd True ctl_ok (cn_fd (io_conn s)) (io_loop s)) else io_loop s)"
    define s1 where "s1 = s\<lparr>io_loop := l, io_conn := (io_conn s)\<lparr>cn_registered := False\<rparr>\<rparr>"
    have l: "el_pending_functors l = queue_of s" "el_valid l"
      using assms(1) by (auto simp: l_def remove_fd_def queue_of_def conn_core_def Let_def el_valid_def)
    have c: "buffer_wf (cn_write_buffer (io_conn s1))" "cn_loop (io_conn s1)" "books k s1" "cn_close (io_conn s1) = False"
        "queue_of s1 = queue_of s"
      using assms False l
      by (cases "cn_state (io_conn s)"; simp add: s1_def conn_core_def Let_def books_def queued_bytes_def queue_of_def)+
    have s1: "s1 = (if cn_registered (io_conn s)
       then s\<lparr>io_loop := snd (remove_fd True ctl_ok (cn_fd (io_conn s)) (io_loop s)), io_conn := (io_conn s)\<lparr>cn_registered := False\<rparr>\<rparr>
       else s)"
      by (simp add: s1_def l_def)
    have cn: "cn_fd (io_conn s1) = cn_fd (io_conn s)" by (simp add: s1_def)
    let ?s2 = "clear_write_buffer_in_loop True s1"
    have e: "?s' = set_conn ((io_conn (close_connection ?s2))\<lparr>cn_state := Disconnected\<rparr>) (close_connection ?s2)"
      using False on_loop [OF assms(1)] by (simp add: connect_destroyed_def Let_def flip: s1)
    show ?thesis
      unfolding e clear_write_buffer [OF c(1-3)]
      using assms l c(5) False
      by (cases "cn_state (io_conn s)"; simp add: s1_def set_conn_def close_connection_def step_ok_def conn_core_def Let_def books_def
          onward_def queued_bytes_def queue_of_def el_valid_def)
  qed
  then show "step_ok k s ?s'" "cn_state (io_conn ?s') = Disconnected" by auto
qed

section \<open>The queue\<close>

lemma wakeup_loop_frame:
  "el_pending_functors (wakeup_loop os m) = el_pending_functors m \<and> el_callbacks (wakeup_loop os m) = el_callbacks m \<and>
   el_interest (wakeup_loop os m) = el_interest m \<and> el_valid (wakeup_loop os m) = el_valid m"
  by (induction os arbitrary: m) (auto simp: el_valid_def split: sys.splits)

lemma wakeup_frame [simp]:
  "el_pending_functors (wakeup os l) = el_pending_functors l" "el_callbacks (wakeup os l) = el_callbacks l"
  "el_interest (wakeup os l) = el_interest l" "el_valid (wakeup os l) = el_valid l"
  by (simp_all add: wakeup_def wakeup_loop_frame)

lemma el_valid_queue [simp]: "el_valid (l\<lparr>el_pending_functors := q\<rparr>) = el_valid l"
  by (simp add: el_valid_def)

definition task_bytes :: "conn_task \<Rightarrow> bytes" where
  "task_bytes x = concat (queued_sends [x])"

lemma queued_sends_append [simp]: "queued_sends (q @ r) = queued_sends q @ queued_sends r"
  by (simp add: queued_sends_def)

lemma queued_sends_simps [simp]:
  "queued_sends [] = []" "queued_sends (SendTask data # q) = data # queued_sends q"
  "queued_sends (EstablishTask # q) = queued_sends q" "queued_sends (CloseTask # q) = queued_sends q"
  "queued_sends (TimeoutTask n # q) = queued_sends q" "queued_sends (DestroyTask # q) = queued_sends q"
  by (simp_all add: queued_sends_def)

lemma task_bytes_simps [simp]:
  "task_bytes (SendTask data) = data" "task_bytes EstablishTask = []" "task_bytes CloseTask = []"
  "task_bytes (TimeoutTask n) = []" "task_bytes DestroyTask = []"
  by (simp_all add: task_bytes_def)

lemma queued_sends_Cons: "queued_sends (x # q) = queued_sends [x] @ queued_sends q"
  using queued_sends_append [of "[x]" q] by simp

lemma post_ok:
  assumes "conn_core s" and "books (k + length (task_bytes x)) s"
  shows "conn_core (post os x s)" and "books k (post os x s)" and "queue_of (post os x s) = queue_of s @ [x]"
    and "io_conn (post os x s) = io_conn s" and "armed (post os x s) = armed s" and "io_appended (post os x s) = io_appended s"
proof -
  show q: "queue_of (post os x s) = queue_of s @ [x]" "io_conn (post os x s) = io_conn s" "armed (post os x s) = armed s"
    "io_appended (post os x s) = io_appended s"
    by (simp_all add: post_def queue_of_def queue_in_loop_def armed_def)
  show "conn_core (post os x s)"
    unfolding post_def using core_loopD [OF assms(1)] core_valid [OF assms(1)]
    by (intro core_loop [OF assms(1)]) (simp_all add: queue_in_loop_def)
  show "books k (post os x s)" using assms(2) by (simp add: books_def queued_bytes_def q task_bytes_def)
qed

lemma dequeue_ok:
  assumes "conn_core s" and "books k s" and "queue_of s = x # q"
  shows "conn_core (dequeue q s)" and "books (k + length (task_bytes x)) (dequeue q s)"
    and "io_conn (dequeue q s) = io_conn s" and "armed (dequeue q s) = armed s" and "io_appended (dequeue q s) = io_appended s"
proof -
  show c: "io_conn (dequeue q s) = io_conn s" "armed (dequeue q s) = armed s" "io_appended (dequeue q s) = io_appended s"
    by (simp_all add: dequeue_def armed_def)
  show "conn_core (dequeue q s)"
    unfolding dequeue_def using core_loopD [OF assms(1)] core_valid [OF assms(1)]
    by (intro core_loop [OF assms(1)]) simp_all
  show "books (k + length (task_bytes x)) (dequeue q s)"
    using assms(2) queued_sends_Cons [of x q]
    by (simp add: books_def queued_bytes_def assms(3) task_bytes_def c(1))
qed

lemma check_timeout_in_loop_ok:
  assumes "conn_core s" and "books k s" and "armed s"
  shows "step_ok k s (check_timeout_in_loop True now timeout s)" and "armed (check_timeout_in_loop True now timeout s)"
  using handle_close_ok(1) [OF assms(1,2)] handle_close_armed [OF assms(1,2)] step_ok_self [OF assms(1,2)] assms(3)
  by (simp_all add: check_timeout_in_loop_def)

section \<open>Order\<close>

text \<open>What other threads send is taken in the order in which they sent it.\<close>

definition conn_order :: "ConnState \<Rightarrow> conn_task list \<Rightarrow> bytes list \<Rightarrow> bytes list \<Rightarrow> bytes list \<Rightarrow> bool" where
  "conn_order st q app posted taken \<longleftrightarrow> (\<forall>data. SendTask data \<in> set q \<longrightarrow> data \<noteq> []) \<and> subseq taken app \<and>
     (st = Connecting \<longrightarrow> taken = [] \<and> (\<exists>q'. q = EstablishTask # q') \<and> posted = queued_sends q) \<and>
     (st = Connected \<longrightarrow> posted = taken @ queued_sends q)"

definition conn_inv :: "conn_world \<Rightarrow> bool" where
  "conn_inv w \<longleftrightarrow> (let s = cw_io w in conn_core s \<and> books 0 s \<and> armed s \<and>
     conn_order (cn_state (io_conn s)) (queue_of s) (io_appended s) (cw_posted w) (cw_taken w))"

lemma subseq_prefix: "subseq xs ys \<Longrightarrow> prefix ys zs \<Longrightarrow> subseq xs zs"
  by (auto simp: prefix_def)

lemma order_onward:
  assumes "conn_order (cn_state (io_conn s)) (queue_of s) (io_appended s) p t" and "onward s s'"
  shows "conn_order (cn_state (io_conn s')) (queue_of s') (io_appended s') p t"
  using assms by (auto simp: conn_order_def onward_def intro: subseq_prefix)

lemma order_post:
  "conn_order st q app p t \<Longrightarrow> (\<And>data. x = SendTask data \<Longrightarrow> data \<noteq> []) \<Longrightarrow>
   conn_order st (q @ [x]) app (p @ queued_sends [x]) t"
  by (auto simp: conn_order_def)

lemma conn_invI:
  assumes "conn_core s" and "books 0 s" and "armed s"
    and "conn_order (cn_state (io_conn s)) (queue_of s) (io_appended s) (cw_posted w) (cw_taken w)"
  shows "conn_inv (set_io s w)"
  using assms by (simp add: conn_inv_def Let_def set_io_def)

lemma conn_invD:
  assumes "conn_inv w"
  shows "conn_core (cw_io w)" and "books 0 (cw_io w)" and "armed (cw_io w)"
    and "conn_order (cn_state (io_conn (cw_io w))) (queue_of (cw_io w)) (io_appended (cw_io w)) (cw_posted w) (cw_taken w)"
  using assms by (simp_all add: conn_inv_def Let_def)

lemma conn_inv_onward:
  assumes "conn_inv w" and "step_ok 0 (cw_io w) s'" and "armed s'"
  shows "conn_inv (set_io s' w)"
  by (rule conn_invI [OF step_okD(1,2) [OF assms(2)] assms(3) order_onward [OF conn_invD(4) [OF assms(1)] step_okD(3) [OF assms(2)]]])

lemma conn_inv_post:
  assumes "conn_inv w" and "conn_core s" and "books (length (task_bytes x)) s" and "armed s" and "onward (cw_io w) s"
    and "\<And>data. x = SendTask data \<Longrightarrow> data \<noteq> []"
  shows "conn_inv (set_io (post os x s) (w\<lparr>cw_posted := cw_posted w @ queued_sends [x]\<rparr>))"
proof -
  have "books (0 + length (task_bytes x)) s" using assms(3) by simp
  note p = post_ok [OF assms(2) this, of os]
  have o: "conn_order (cn_state (io_conn s)) (queue_of s) (io_appended s) (cw_posted w) (cw_taken w)"
    by (rule order_onward [OF conn_invD(4) [OF assms(1)] assms(5)])
  show ?thesis
    by (rule conn_invI) (use p assms(4) order_post [OF o assms(6)] in simp_all)
qed

lemma conn_task_inv:
  assumes "conn_inv w" and "queue_of (cw_io w) = x # q"
  shows "conn_inv (set_io (run_conn_task te x (dequeue q (cw_io w))) (note_taken x w))"
proof -
  let ?s = "cw_io w"
  define d where "d = dequeue q ?s"
  define s' where "s' = run_conn_task te x d"
  note inv = conn_invD [OF assms(1)]
  note dq = dequeue_ok [OF inv(1,2) assms(2)]
  have d: "conn_core d" "books (0 + length (task_bytes x)) d" "armed d" "io_conn d = io_conn ?s" "io_appended d = io_appended ?s"
      "queue_of d = q"
    using dq inv(3) by (simp_all add: d_def)
  have d0: "books 0 d" if "task_bytes x = []" using that d(2) by simp
  have o: "conn_order (cn_state (io_conn ?s)) (x # q) (io_appended ?s) (cw_posted w) (cw_taken w)"
    using inv(4) assms(2) by simp
  have quiet: "conn_inv (set_io s' (note_taken x w))"
    if "step_ok 0 d s'" "armed s'" "queued_sends [x] = []" "x \<noteq> EstablishTask"
  proof (rule conn_invI [OF step_okD(1,2) [OF that(1)] that(2)])
    have "queued_sends (x # q) = queued_sends q" using that(3) queued_sends_Cons [of x q] by simp
    then have "conn_order (cn_state (io_conn d)) (queue_of d) (io_appended d) (cw_posted w) (cw_taken w)"
      using o that(4) d by (auto simp: conn_order_def)
    then show "conn_order (cn_state (io_conn s')) (queue_of s') (io_appended s') (cw_posted (note_taken x w)) (cw_taken (note_taken x w))"
      using order_onward step_okD(3) [OF that(1)] that(3) by (simp add: note_taken_def)
  qed
  have "conn_inv (set_io s' (note_taken x w))"
  proof (cases x)
    case EstablishTask
    have s': "s' = connect_established True (tk_ctl_ok te) (tk_callback te) d" by (simp add: s'_def EstablishTask)
    have b: "books 0 d" using d0 EstablishTask by simp
    note e = connect_established_ok [OF d(1) b d(3) s']
    have "conn_order (cn_state (io_conn s')) (queue_of s') (io_appended s') (cw_posted w) (cw_taken w)"
      using o e(4-7) d(4-6) EstablishTask by (auto simp: conn_order_def)
    then show ?thesis by (intro conn_invI e(1-3)) (simp add: note_taken_def EstablishTask)
  next
    case (SendTask data)
    have s': "s' = send_in_loop True (tk_writes te) (tk_ctl_ok te) data d" by (simp add: s'_def SendTask)
    have b: "books (0 + length data) d" using d(2) SendTask by simp
    note r = send_in_loop_ok [OF d(1) b, of "tk_writes te" "tk_ctl_ok te", folded s']
    have dt: "data \<noteq> []" using o SendTask by (simp add: conn_order_def)
    note r' = step_okD(3) [OF r(1)]
    have "conn_order (cn_state (io_conn s')) (queue_of s') (io_appended s') (cw_posted (note_taken x w)) (cw_taken (note_taken x w))"
    proof (cases "cn_state (io_conn ?s) = Connected")
      case True
      then have "prefix (io_appended ?s @ [data]) (io_appended s')"
        using send_in_loop_appends [OF d(1) b _ dt] d(4,5) by (simp add: s')
      moreover have "subseq (cw_taken w @ [data]) (io_appended ?s @ [data])"
        using o by (simp add: conn_order_def)
      ultimately have "subseq (cw_taken w @ [data]) (io_appended s')" by (rule subseq_prefix [rotated])
      moreover have "cn_state (io_conn s') \<noteq> Connecting" using r' True d(4) by (auto simp: onward_def)
      moreover have "queue_of s' = q" using r' d(6) by (simp add: onward_def)
      ultimately show ?thesis using o True SendTask by (simp add: conn_order_def note_taken_def)
    next
      case False
      then have "cn_state (io_conn ?s) \<noteq> Connecting" using o SendTask by (auto simp: conn_order_def)
      then have "cn_state (io_conn s') \<noteq> Connected \<and> cn_state (io_conn s') \<noteq> Connecting"
        using r' False d(4) by (auto simp: onward_def)
      moreover have "subseq (cw_taken w) (io_appended s')"
        using o r' d(5) by (auto simp: conn_order_def onward_def intro: subseq_prefix)
      ultimately show ?thesis using o r' d(6) False by (simp add: conn_order_def note_taken_def onward_def)
    qed
    then show ?thesis by (intro conn_invI step_okD(1,2) [OF r(1)] r(2) d(3))
  next
    case CloseTask
    have b: "books 0 d" using d0 CloseTask by simp
    show ?thesis
      by (rule quiet) (use handle_close_ok(1) [OF d(1) b] handle_close_armed [OF d(1) b] in \<open>simp_all add: s'_def CloseTask\<close>)
  next
    case (TimeoutTask n)
    have b: "books 0 d" using d0 TimeoutTask by simp
    show ?thesis
      by (rule quiet) (use check_timeout_in_loop_ok [OF d(1) b d(3)] in \<open>simp_all add: s'_def TimeoutTask\<close>)
  next
    case DestroyTask
    have b: "books 0 d" using d0 DestroyTask by simp
    show ?thesis
      by (rule quiet) (use connect_destroyed_ok [OF d(1) b] in \<open>simp_all add: s'_def DestroyTask armed_def\<close>)
  qed
  then show ?thesis by (simp add: s'_def d_def)
qed

section \<open>Steps\<close>

lemma conn_frame_inv:
  assumes "conn_inv w" and "loop_frame (cw_io w) l"
  shows "conn_inv (set_io ((cw_io w)\<lparr>io_loop := l\<rparr>) w)"
proof -
  let ?s = "cw_io w"
  note inv = conn_invD [OF assms(1)]
  have f: "cn_state (io_conn ?s) = Connected \<Longrightarrow>
      um_find (cn_fd (io_conn ?s)) (el_interest l) = um_find (cn_fd (io_conn ?s)) (el_interest (io_loop ?s)) \<and>
      um_find (cn_fd (io_conn ?s)) (el_callbacks l) = um_find (cn_fd (io_conn ?s)) (el_callbacks (io_loop ?s))"
    using assms(2) core_loopD(3) [OF inv(1)] by (simp add: loop_frame_def)
  have q: "queue_of (?s\<lparr>io_loop := l\<rparr>) = queue_of ?s" using assms(2) by (simp add: loop_frame_def queue_of_def)
  have "conn_core (?s\<lparr>io_loop := l\<rparr>)"
    using f assms(2) core_loopD(1,2) [OF inv(1)] by (intro core_loop [OF inv(1)]) (simp_all add: loop_frame_def um_contains_def)
  moreover have "books 0 (?s\<lparr>io_loop := l\<rparr>)" using inv(2) q by (simp add: books_def queued_bytes_def)
  moreover have "armed (?s\<lparr>io_loop := l\<rparr>)" using inv(3) f by (simp add: armed_def)
  ultimately show ?thesis using inv(4) q by (intro conn_invI) simp_all
qed

lemma conn_send_inv:
  assumes "conn_inv w" and "conn_send here os writes ctl_ok data (cw_io w) = (ok, s)"
  shows "conn_inv (set_io s (w\<lparr>cw_posted := cw_posted w @ (if ok \<and> \<not> here then [data] else [])\<rparr>))"
proof -
  note inv = conn_invD [OF assms(1)]
  note e = conn_send_eq [OF inv(1,2), of here os writes ctl_ok data, unfolded assms(2)]
  consider (here) here | (rejected) "\<not> ok" "s = cw_io w"
    | (posted) "ok" "\<not> here" "s = post os (SendTask data) (reserved (length data) (cw_io w))" "data \<noteq> []"
        "cn_pending_write_bytes (io_conn (cw_io w)) + length data \<le> WRITE_HARD_LIMIT"
    using e by (auto split: if_splits)
  then show ?thesis
  proof cases
    case here
    then have "step_ok 0 (cw_io w) s" "armed s"
      using conn_send_here [OF inv(1,2), of os writes ctl_ok data] assms(2) inv(3) by simp_all
    then show ?thesis using conn_inv_onward [OF assms(1)] here by simp
  next
    case rejected
    then show ?thesis using assms(1) by (simp add: set_io_def)
  next
    case posted
    note r = reserved_ok [OF inv(1,2) posted(5)]
    have "conn_inv (set_io (post os (SendTask data) (reserved (length data) (cw_io w)))
        (w\<lparr>cw_posted := cw_posted w @ queued_sends [SendTask data]\<rparr>))"
      by (rule conn_inv_post [OF assms(1) r(1)]) (use r inv(3) posted(4) in simp_all)
    then show ?thesis using posted by simp
  qed
qed

text \<open>A functor without bytes can be queued at any moment.\<close>

lemma conn_quiet_post_inv:
  assumes "conn_inv w" and "queued_sends [x] = []"
  shows "conn_inv (set_io (post os x (cw_io w)) w)"
proof -
  note inv = conn_invD [OF assms(1)]
  have "conn_inv (set_io (post os x (cw_io w)) (w\<lparr>cw_posted := cw_posted w @ queued_sends [x]\<rparr>))"
    by (rule conn_inv_post [OF assms(1) inv(1)]) (use inv assms(2) in \<open>auto simp: task_bytes_def\<close>)
  then show ?thesis using assms(2) by simp
qed

lemma conn_close_inv:
  assumes "conn_inv w"
  shows "conn_inv (set_io (request_close here os (cw_io w)) w)"
proof (cases here)
  case True
  note inv = conn_invD [OF assms]
  show ?thesis
    using conn_inv_onward [OF assms handle_close_ok(1) [OF inv(1,2)] handle_close_armed [OF inv(1,2)]] True
      request_close_here [OF inv(1)] by simp
next
  case False
  then have "request_close here os (cw_io w) = post os CloseTask (cw_io w)"
    using conn_invD(1) [OF assms] by (simp add: request_close_def run_in_loop_def post_def conn_core_def Let_def)
  then show ?thesis using conn_quiet_post_inv [OF assms, of CloseTask os] by simp
qed

lemma conn_timeout_inv:
  assumes "conn_inv w"
  shows "conn_inv (set_io (check_timeout os timeout (cw_io w)) w)"
proof -
  have "set_io (cw_io w) w = w" by (simp add: set_io_def)
  then show ?thesis using assms conn_quiet_post_inv [OF assms, of "TimeoutTask timeout" os] by (simp add: check_timeout_def)
qed

lemma conn_event_inv:
  assumes "conn_inv w" and "callback_ok e"
  shows "conn_inv (set_io (handle_event True e events (disarm (cw_io w))) w)"
proof -
  note inv = conn_invD [OF assms(1)]
  note d = disarm_ok [OF inv(1,2)]
  note h = handle_event_ok [OF step_okD(1,2) [OF d] assms(2)]
  show ?thesis by (rule conn_inv_onward [OF assms(1) step_ok_then [OF d h(1)] h(2)])
qed

lemma conn_inv_step:
  assumes "conn_inv w" and "conn_step w w'"
  shows "conn_inv w'"
  using assms(2)
proof cases
  case (cw_refresh here now)
  note inv = conn_invD [OF assms(1)]
  show ?thesis
    unfolding cw_refresh by (rule conn_inv_onward [OF assms(1)]) (use refresh_ok [OF inv(1,2)] inv(3) in simp_all)
next
  case (cw_destroy_here ctl_ok)
  note inv = conn_invD [OF assms(1)]
  show ?thesis
    unfolding cw_destroy_here
    by (rule conn_inv_onward [OF assms(1)]) (use connect_destroyed_ok [OF inv(1,2)] in \<open>simp_all add: armed_def\<close>)
qed (use assms(1) conn_event_inv conn_task_inv conn_send_inv conn_close_inv conn_timeout_inv conn_quiet_post_inv [where x = DestroyTask] conn_frame_inv in simp_all)

lemma conn_inv_started:
  assumes "conn_started w"
  shows "conn_inv w"
  using assms
  by (auto simp: conn_started_def conn_inv_def Let_def conn_core_def books_def queued_bytes_def armed_def conn_order_def
      set_message_callback_def set_close_callback_def Connection_new_def queued_sends_def simp del: length_content)

interpretation connection: invariant_system conn_started conn_step conn_inv
  by unfold_locales (auto intro: conn_inv_started conn_inv_step)

end
