(* ===== verification/Connection_Claims.thy ===== *)
theory Connection_Claims
  imports Connection_World
begin

text \<open>
  What holds of a connection at every moment, whatever its peer, its loop and the other threads
  do, and the run on which it is shown to say something.
\<close>

text \<open>C9: a connection keeps its books. At every moment the atomic counter of pending bytes is
  exactly the bytes in the write buffer and in the sends queued by other threads, and never
  exceeds the hard limit, so that \<open>send\<close> accepts data precisely when it is not empty and fits
  below the limit. While the connection is up its descriptor is armed: for reading, and for
  writing precisely when bytes wait. The close callback has been called once since the
  connection began to close and not before, and the descriptor is closed precisely when it is
  disconnected.\<close>

theorem connection_keeps_its_books:
  assumes "reach conn_started conn_step w"
  shows "let s = cw_io w; c = io_conn s; waiting = content (cn_write_buffer c) in
    cn_pending_write_bytes c = length waiting + length (concat (queued_sends (queue_of s))) \<and>
    cn_pending_write_bytes c \<le> WRITE_HARD_LIMIT \<and>
    (fst (conn_send here os writes ctl_ok data s) \<longleftrightarrow>
       data \<noteq> [] \<and> cn_pending_write_bytes c + length data \<le> WRITE_HARD_LIMIT) \<and>
    (cn_state c = Connected \<longrightarrow> um_find (cn_fd c) (el_interest (io_loop s)) =
       Some (if waiting = [] then read_events else read_events OR EPOLLOUT)) \<and>
    (case cn_state c of Disconnecting \<Rightarrow> io_closings s = 1 | Disconnected \<Rightarrow> io_closings s \<le> 1 | _ \<Rightarrow> io_closings s = 0) \<and>
    (cn_close c \<longleftrightarrow> cn_state c = Disconnected)"
proof -
  have inv: "conn_inv w" using assms by (rule connection.reach_inv)
  let ?s = "cw_io w"
  note i = conn_invD [OF inv]
  have "cn_state (io_conn ?s) = Connected \<longrightarrow> um_find (cn_fd (io_conn ?s)) (el_interest (io_loop ?s)) =
       Some (if content (cn_write_buffer (io_conn ?s)) = [] then read_events else read_events OR EPOLLOUT)"
    using i(3) buffer_empty_content [OF core_wf(1) [OF i(1)]] by (simp add: armed_def need_events_def)
  moreover have "case cn_state (io_conn ?s) of Disconnecting \<Rightarrow> io_closings ?s = 1 | Disconnected \<Rightarrow> io_closings ?s \<le> 1
      | _ \<Rightarrow> io_closings ?s = 0" "cn_close (io_conn ?s) \<longleftrightarrow> cn_state (io_conn ?s) = Disconnected"
    using i(1) by (cases "cn_state (io_conn ?s)"; simp add: conn_core_def Let_def)+
  ultimately show ?thesis
    using i(2) conn_send_eq [OF i(1,2)] unfolding books_def queued_bytes_def Let_def by simp
qed

text \<open>C10: bytes leave in order. What the kernel has taken from a connection is always a prefix
  of what was appended for sending, the rest of which waits in the write buffer while the
  connection is up: nothing is lost, repeated or reordered. What other threads sent
  successfully is, while the connection is up, what its loop has taken, in the order of sending,
  and what is still queued; what was taken is embedded, whole and in order, in the stream, among
  what the loop's own thread sent.\<close>

theorem bytes_leave_in_order:
  assumes "reach conn_started conn_step w"
  shows "let s = cw_io w; c = io_conn s in
    prefix (io_wire s) (concat (io_appended s)) \<and>
    (cn_state c = Connected \<longrightarrow> io_wire s @ content (cn_write_buffer c) = concat (io_appended s) \<and>
       cw_posted w = cw_taken w @ queued_sends (queue_of s)) \<and>
    subseq (cw_taken w) (io_appended s)"
proof -
  note i = conn_invD [OF connection.reach_inv [OF assms]]
  show ?thesis using i(1,4) by (auto simp: conn_core_def conn_order_def Let_def)
qed

text \<open>Another thread sends three bytes to a connection just accepted; the loop establishes it and
  sends them, but the kernel takes only two.\<close>

definition demo_conn_loop :: conn_loop where
  "demo_conn_loop = (EventLoop_new 8 5 6 True 0)\<lparr>el_pending_functors := [EstablishTask]\<rparr>"

definition demo_conn_world :: conn_world where
  "demo_conn_world = \<lparr>cw_io = \<lparr>io_conn = set_message_callback (set_close_callback (Connection_new True 9 0)),
     io_loop = demo_conn_loop, io_wire = [], io_closings = 0, io_appended = []\<rparr>, cw_posted = [], cw_taken = []\<rparr>"

definition demo_task_env :: task_env where
  "demo_task_env = \<lparr>tk_ctl_ok = True, tk_writes = [WIntr, Wrote 2], tk_now = 0, tk_callback = 1\<rparr>"

lemmas demo_conn_defs = demo_conn_world_def demo_conn_loop_def EventLoop_new_def add_fd_def update_fd_def el_valid_def
  um_contains_def Connection_new_def set_message_callback_def set_close_callback_def set_io_def note_taken_def queue_of_def
  dequeue_def set_conn_def off_loop_def queue_in_loop_def wakeup_def run_in_loop_def

definition demo_sent :: conn_world where
  "demo_sent = (let s = snd (conn_send False [Ok] [] True [7, 8, 9] (cw_io demo_conn_world)) in
     set_io s (demo_conn_world\<lparr>cw_posted := [[7, 8, 9]]\<rparr>))"

definition demo_up :: conn_world where
  "demo_up = set_io (run_conn_task demo_task_env EstablishTask (dequeue [SendTask [7, 8, 9]] (cw_io demo_sent))) (note_taken EstablishTask demo_sent)"

definition demo_served :: conn_world where
  "demo_served = set_io (run_conn_task demo_task_env (SendTask [7, 8, 9]) (dequeue [] (cw_io demo_up))) (note_taken (SendTask [7, 8, 9]) demo_up)"

lemma demo_started: "reach conn_started conn_step demo_conn_world"
proof (rule reach_init)
  show "conn_started demo_conn_world"
    unfolding conn_started_def
    by (intro conjI exI [of _ 9] exI [of _ 0])
      (simp_all add: demo_conn_defs um_emplace_def um_find_def)
qed

lemma demo_sent_eq: "conn_send False [Ok] [] True [7, 8, 9] (cw_io demo_conn_world) =
    (True, (cw_io demo_conn_world)\<lparr>io_conn := (io_conn (cw_io demo_conn_world))\<lparr>cn_pending_write_bytes := 3\<rparr>,
       io_loop := demo_conn_loop\<lparr>el_pending_functors := [EstablishTask, SendTask [7, 8, 9]], el_signal := True\<rparr>\<rparr>)"
  by (simp add: demo_conn_defs conn_send_def reserve_write_bytes_def WRITE_HARD_LIMIT_def Let_def)

lemma demo_up_reached: "reach conn_started conn_step demo_up"
proof -
  have "conn_step demo_conn_world demo_sent"
    unfolding demo_sent_def Let_def using cw_send [OF demo_sent_eq] by (simp add: demo_sent_eq) (simp add: demo_conn_world_def)
  then have r: "reach conn_started conn_step demo_sent" by (rule reach_step [OF demo_started])
  have q: "queue_of (cw_io demo_sent) = [EstablishTask, SendTask [7, 8, 9]]"
    by (simp add: demo_sent_def demo_sent_eq queue_of_def set_io_def Let_def)
  show ?thesis unfolding demo_up_def by (rule reach_step [OF r cw_task [OF q]])
qed

lemma demo_up_facts:
  "cn_state (io_conn (cw_io demo_up)) = Connected" "cn_write_buffer (io_conn (cw_io demo_up)) = Buffer_new 4096"
  "cn_loop (io_conn (cw_io demo_up))" "cn_pending_write_bytes (io_conn (cw_io demo_up)) = 3"
  "queue_of (cw_io demo_up) = [SendTask [7, 8, 9]]" "io_wire (cw_io demo_up) = []" "io_appended (cw_io demo_up) = []"
  "cw_posted demo_up = [[7, 8, 9]]" "cw_taken demo_up = []"
  by (simp_all add: demo_up_def demo_sent_def conn_send_def reserve_write_bytes_def WRITE_HARD_LIMIT_def demo_task_env_def
      connect_established_def Let_def demo_conn_defs
      um_emplace_def um_find_def)

lemma demo_served_reached: "reach conn_started conn_step demo_served"
  unfolding demo_served_def by (rule reach_step [OF demo_up_reached cw_task]) (simp add: demo_up_facts)

text \<open>After it: two bytes are out, one waits, and the connection is up.\<close>

lemma demo_served_facts:
  "cn_state (io_conn (cw_io demo_served)) = Connected" "content (cn_write_buffer (io_conn (cw_io demo_served))) = [9]"
  "io_appended (cw_io demo_served) = [[7, 8, 9]]" "queue_of (cw_io demo_served) = []"
  "cw_posted demo_served = [[7, 8, 9]]"
  by (simp_all add: demo_served_def demo_up_def demo_sent_def conn_send_def reserve_write_bytes_def release_write_bytes_def
      WRITE_HARD_LIMIT_def demo_task_env_def connect_established_def send_in_loop_def write_to_socket_def wrote_def rearm_def
      buffer_append_def ensure_writable_bytes_def Buffer_new_def buffer_defs buffer_empty_def copy_to_def
      Let_def demo_conn_defs um_emplace_def um_assign_def um_find_def)

theorem connection_keeps_its_books_witness:
  "cn_pending_write_bytes (io_conn (cw_io demo_served)) = 1 \<and>
   um_find (cn_fd (io_conn (cw_io demo_served))) (el_interest (io_loop (cw_io demo_served))) = Some (read_events OR EPOLLOUT) \<and>
   \<not> fst (conn_send False [Ok] [] True (replicate 1048576 0) (cw_io demo_served))"
  using connection_keeps_its_books [OF demo_served_reached, of False "[Ok]" "[]" True "replicate 1048576 0"]
  by (simp add: Let_def demo_served_facts WRITE_HARD_LIMIT_def del: length_content)

theorem bytes_leave_in_order_witness: "io_wire (cw_io demo_served) = [7, 8] \<and> cw_taken demo_served = [[7, 8, 9]]"
proof -
  have "io_wire (cw_io demo_served) @ [9] = [7, 8] @ [9]" "cw_taken demo_served = [[7, 8, 9]]"
    using bytes_leave_in_order [OF demo_served_reached] by (simp_all add: Let_def demo_served_facts)
  then show ?thesis by (simp only: append_same_eq simp_thms)
qed

end
