(* ===== verification/Loop_Threads.thy ===== *)
theory Loop_Threads
  imports Event_Loop
begin

text \<open>
  \<open>EventLoopThread\<close> and \<open>EventLoopThreadPool\<close> (\<open>src/event_loop_thread.cpp\<close>,
  \<open>src/event_loop_thread_pool.cpp\<close>): threads that each run an event loop of their own, and the
  round robin that hands the loops out. A loop is named by \<open>BaseLoop\<close> or by the number of the
  thread it lives in. Starting a thread is cut where \<open>start_loop\<close> waits for the new thread.
\<close>

datatype loop_ref = BaseLoop | IoLoop nat

text \<open>Where the new thread is: not created, constructing its loop, in \<open>loop()\<close>, returned.\<close>

datatype thread_pc = NoThread | Creating | Looping | Returned

record EventLoopThread =
  et_loop :: "loop_ref option"
  et_started :: bool
  et_start_failed :: bool
  et_joinable :: bool
  et_pc :: thread_pc

definition EventLoopThread_new :: EventLoopThread where
  "EventLoopThread_new = \<lparr>et_loop = None, et_started = False, et_start_failed = False, et_joinable = False, et_pc = NoThread\<rparr>"

section \<open>A thread\<close>

text \<open>\<open>start_loop\<close> up to its wait: whether it waits at all.\<close>

definition start_spawn :: "EventLoopThread \<Rightarrow> bool \<times> EventLoopThread" where
  "start_spawn t = (if et_started t then (False, t) else (True, t\<lparr>et_started := True, et_joinable := True, et_pc := Creating\<rparr>))"

text \<open>\<open>thread_func\<close> up to the call of \<open>loop()\<close>; the constructed loop may be invalid.\<close>

definition thread_create :: "bool \<Rightarrow> loop_ref \<Rightarrow> EventLoopThread \<Rightarrow> EventLoopThread" where
  "thread_create valid l t =
     (if \<not> valid then t\<lparr>et_start_failed := True, et_pc := Returned\<rparr> else t\<lparr>et_loop := Some l, et_pc := Looping\<rparr>)"

text \<open>\<open>thread_func\<close> after \<open>loop()\<close> has returned.\<close>

definition thread_leave :: "EventLoopThread \<Rightarrow> EventLoopThread" where
  "thread_leave t = t\<lparr>et_loop := None, et_pc := Returned\<rparr>"

text \<open>What \<open>start_loop\<close> waits for, and what it does then.\<close>

definition start_ready :: "EventLoopThread \<Rightarrow> bool" where
  "start_ready t \<longleftrightarrow> et_loop t \<noteq> None \<or> et_start_failed t"

definition start_return :: "EventLoopThread \<Rightarrow> loop_ref option \<times> EventLoopThread" where
  "start_return t = (let result = et_loop t; failed = et_start_failed t in
     (result, if failed \<and> et_joinable t then t\<lparr>et_joinable := False\<rparr> else t))"

text \<open>The whole of \<open>start_loop\<close>, when the new thread is still in \<open>loop()\<close> as it returns.\<close>

definition start_loop :: "bool \<Rightarrow> loop_ref \<Rightarrow> EventLoopThread \<Rightarrow> loop_ref option \<times> EventLoopThread" where
  "start_loop valid l t =
     (case start_spawn t of (waits, t1) \<Rightarrow> if \<not> waits then (None, t1) else start_return (thread_create valid l t1))"

text \<open>The destructor: whether it tells the loop to quit, then it waits for the thread.\<close>

definition thread_destroy :: "EventLoopThread \<Rightarrow> bool \<times> EventLoopThread" where
  "thread_destroy t = (et_loop t \<noteq> None, if et_joinable t then t\<lparr>et_loop := None, et_joinable := False, et_pc := Returned\<rparr> else t)"

section \<open>The pool\<close>

record EventLoopThreadPool =
  tp_base :: bool \<comment> \<open>the pointer to the base loop is not null\<close>
  tp_thread_count :: nat
  tp_started :: bool
  tp_next :: nat
  tp_threads :: "EventLoopThread list"
  tp_loops :: "loop_ref list"

definition EventLoopThreadPool_new :: "bool \<Rightarrow> nat \<Rightarrow> EventLoopThreadPool" where
  "EventLoopThreadPool_new base_loop thread_count =
     \<lparr>tp_base = base_loop, tp_thread_count = thread_count, tp_started = False, tp_next = 0, tp_threads = [], tp_loops = []\<rparr>"

text \<open>The loop of \<open>start\<close>: which of the new threads' loops are valid is an argument. On a failure
  the threads started so far are destroyed with the vector that holds them.\<close>

primrec start_threads :: "nat \<Rightarrow> (nat \<Rightarrow> bool) \<Rightarrow> nat \<Rightarrow> (EventLoopThread list \<times> loop_ref list) option" where
  "start_threads 0 valid i = Some ([], [])"
| "start_threads (Suc n) valid i =
     (case start_loop (valid i) (IoLoop i) EventLoopThread_new of
        (None, t) \<Rightarrow> None
      | (Some l, t) \<Rightarrow> map_option (\<lambda>(threads, loops). (t # threads, l # loops)) (start_threads n valid (i + 1)))"

definition pool_start :: "bool \<Rightarrow> bool \<Rightarrow> (nat \<Rightarrow> bool) \<Rightarrow> EventLoopThreadPool \<Rightarrow> bool \<times> EventLoopThreadPool" where
  "pool_start here base_valid valid p =
     (if \<not> tp_base p then (False, p)
      else if \<not> base_valid then (False, p)
      else if \<not> here then (False, p)
      else if tp_started p then (False, p)
      else case start_threads (tp_thread_count p) valid 0 of
        None \<Rightarrow> (False, p)
      | Some (threads, loops) \<Rightarrow> (True, p\<lparr>tp_threads := threads, tp_loops := loops, tp_started := True, tp_next := 0\<rparr>))"

definition get_next_loop :: "bool \<Rightarrow> EventLoopThreadPool \<Rightarrow> loop_ref option \<times> EventLoopThreadPool" where
  "get_next_loop here p =
     (if \<not> tp_started p then (None, p)
      else if \<not> here then (None, p)
      else if tp_loops p = [] then (Some BaseLoop, p)
      else let result = tp_loops p ! tp_next p; next = tp_next p + 1 in
        (Some result, p\<lparr>tp_next := if next = length (tp_loops p) then 0 else next\<rparr>))"

section \<open>Starting\<close>

lemma start_loop_new:
  "start_loop valid l EventLoopThread_new = (if valid then Some l else None,
     if valid then EventLoopThread_new\<lparr>et_started := True, et_joinable := True, et_loop := Some l, et_pc := Looping\<rparr>
     else EventLoopThread_new\<lparr>et_started := True, et_start_failed := True, et_pc := Returned\<rparr>)"
  by (simp add: start_loop_def start_spawn_def start_return_def thread_create_def EventLoopThread_new_def Let_def)

text \<open>A thread is started once.\<close>

lemma start_loop_once: "et_started t \<Longrightarrow> start_loop valid l t = (None, t)"
  by (simp add: start_loop_def start_spawn_def)

lemma start_threads_loops:
  "start_threads n valid i = (if \<forall>j<n. valid (i + j)
     then Some (map (\<lambda>j. snd (start_loop True (IoLoop j) EventLoopThread_new)) [i..<i + n], map IoLoop [i..<i + n]) else None)"
proof (induction n arbitrary: i)
  case (Suc n)
  have "(\<forall>j<Suc n. valid (i + j)) \<longleftrightarrow> valid i \<and> (\<forall>j<n. valid (i + 1 + j))"
    by (auto simp: less_Suc_eq_0_disj)
  moreover have "[i..<i + Suc n] = i # [i + 1..<i + 1 + n]" by (simp add: upt_conv_Cons)
  ultimately show ?case using Suc.IH [of "i + 1"] by (simp add: start_loop_new)
qed simp

definition pool_wf :: "EventLoopThreadPool \<Rightarrow> bool" where
  "pool_wf p \<longleftrightarrow> (tp_started p \<longrightarrow> tp_loops p = map IoLoop [0..<tp_thread_count p]) \<and>
     (\<not> tp_started p \<longrightarrow> tp_loops p = []) \<and> (tp_loops p \<noteq> [] \<longrightarrow> tp_next p < length (tp_loops p))"

lemma pool_wf_new [simp]: "pool_wf (EventLoopThreadPool_new base n)"
  by (simp add: pool_wf_def EventLoopThreadPool_new_def)

lemma pool_wf_start: "pool_wf p \<Longrightarrow> pool_start here bv valid p = (ok, p') \<Longrightarrow> pool_wf p'"
  by (auto simp: pool_start_def start_threads_loops pool_wf_def split: if_splits)

lemma pool_wf_next: "pool_wf p \<Longrightarrow> get_next_loop here p = (l, p') \<Longrightarrow> pool_wf p'"
  by (auto simp: get_next_loop_def pool_wf_def Let_def split: if_splits)

text \<open>The loop handed out next: the loops in turn, or the base loop when there are none.\<close>

definition loop_number :: "EventLoopThreadPool \<Rightarrow> nat \<Rightarrow> loop_ref" where
  "loop_number p k = (if tp_loops p = [] then BaseLoop else IoLoop ((tp_next p + k) mod length (tp_loops p)))"

lemma get_next_loop_started:
  assumes "pool_wf p" and "tp_started p" and "get_next_loop True p = (l, p')"
  shows "l = Some (loop_number p 0)" and "loop_number p' k = loop_number p (Suc k)" and "tp_started p'"
    and "tp_loops p' = tp_loops p"
proof -
  have "l = Some (loop_number p 0) \<and> loop_number p' k = loop_number p (Suc k) \<and> tp_started p' \<and> tp_loops p' = tp_loops p"
  proof (cases "tp_loops p = []")
    case True
    then show ?thesis using assms by (simp add: get_next_loop_def loop_number_def)
  next
    case False
    let ?n = "length (tp_loops p)"
    have n: "tp_next p < ?n" "tp_loops p = map IoLoop [0..<?n]" using assms(1,2) False by (auto simp: pool_wf_def)
    then have nth: "tp_loops p ! tp_next p = IoLoop (tp_next p)" by (metis add_0 diff_zero length_upt nth_map nth_upt)
    have p': "l = Some (tp_loops p ! tp_next p)" "p' = p\<lparr>tp_next := if tp_next p + 1 = ?n then 0 else tp_next p + 1\<rparr>"
      using assms(2,3) False by (auto simp: get_next_loop_def Let_def)
    have "loop_number p' k = loop_number p (Suc k)"
    proof (cases "tp_next p + 1 = ?n")
      case True
      then have "(tp_next p + Suc k) mod ?n = k mod ?n" by (metis Suc_eq_plus1 add_Suc_right add_Suc_shift mod_add_self1)
      then show ?thesis using False True by (simp add: p'(2) loop_number_def)
    qed (use False in \<open>simp add: p'(2) loop_number_def\<close>)
    then show ?thesis using False n(1) nth assms(2) by (simp add: p' loop_number_def)
  qed
  then show "l = Some (loop_number p 0)" "loop_number p' k = loop_number p (Suc k)" "tp_started p'"
    "tp_loops p' = tp_loops p" by auto
qed

end
