(* ===== verification/Tcp_Server.thy ===== *)
theory Tcp_Server
  imports Loop_Threads
begin

text \<open>
  \<open>TcpServer\<close> (\<open>src/tcp_server.cpp\<close>): the listening socket and the table of connections, on the
  thread of the base loop. A connection object is named by its position in \<open>ti_conns\<close>, which
  holds its descriptor and its loop; both never change and its loop is never null. The state
  has, besides the server, what the code acts on: the base loop's descriptors, the descriptors
  the process has open, the functors queued in the loops, and the history of the calls of the
  closed callback and of the \<open>connect_destroyed\<close> functors. What a connection does by itself is
  the theory \<open>Connection\<close>; here it only calls back, and \<open>connect_destroyed\<close> closes it.
\<close>

datatype srv_task = RemoveTask nat | EstablishConn nat | DestroyConn nat

record TcpServer =
  ts_base :: bool \<comment> \<open>the pointer to the base loop is not null\<close>
  ts_port :: u16
  ts_pool :: EventLoopThreadPool
  ts_listen_fd :: int
  ts_listen_registered :: bool
  ts_started :: bool
  ts_message_callback :: bool
  ts_closed_callback :: bool
  ts_connections :: "(int, nat) umap"

record tcp_io =
  ti_server :: TcpServer
  ti_base :: "(nat, nat) EventLoop" \<comment> \<open>its descriptors; the functors are in \<open>ti_pending\<close>\<close>
  ti_conns :: "(int \<times> loop_ref) list"
  ti_open :: "int list"
  ti_pending :: "(loop_ref \<times> srv_task) list"
  ti_dead :: "nat list" \<comment> \<open>disconnected: \<open>connect_destroyed\<close> has run\<close>
  ti_closed :: "nat list" \<comment> \<open>calls of the closed callback\<close>
  ti_destroyed :: "nat list" \<comment> \<open>\<open>connect_destroyed\<close> handed to the connection's loop\<close>
  ti_checks :: "(nat \<times> int) list" \<comment> \<open>calls of \<open>check_timeout\<close>\<close>

definition TcpServer_new :: "bool \<Rightarrow> u16 \<Rightarrow> nat \<Rightarrow> TcpServer" where
  "TcpServer_new base_loop port thread_count =
     \<lparr>ts_base = base_loop, ts_port = port, ts_pool = EventLoopThreadPool_new base_loop thread_count, ts_listen_fd = -1,
      ts_listen_registered = False, ts_started = False, ts_message_callback = False, ts_closed_callback = False,
      ts_connections = []\<rparr>"

definition ts_set_message_callback :: "TcpServer \<Rightarrow> TcpServer" where
  "ts_set_message_callback sv = (if ts_started sv then sv else sv\<lparr>ts_message_callback := True\<rparr>)"

definition ts_set_connection_closed_callback :: "TcpServer \<Rightarrow> TcpServer" where
  "ts_set_connection_closed_callback sv = (if ts_started sv then sv else sv\<lparr>ts_closed_callback := True\<rparr>)"

definition set_server :: "TcpServer \<Rightarrow> tcp_io \<Rightarrow> tcp_io" where
  "set_server sv s = s\<lparr>ti_server := sv\<rparr>"

section \<open>Functors\<close>

definition conn_fd :: "tcp_io \<Rightarrow> nat \<Rightarrow> int" where
  "conn_fd s c = fst (ti_conns s ! c)"

definition conn_home :: "tcp_io \<Rightarrow> nat \<Rightarrow> loop_ref" where
  "conn_home s c = snd (ti_conns s ! c)"

definition queue_on :: "loop_ref \<Rightarrow> srv_task \<Rightarrow> tcp_io \<Rightarrow> tcp_io" where
  "queue_on l x s = s\<lparr>ti_pending := ti_pending s @ [(l, x)]\<rparr>"

text \<open>\<open>connect_destroyed\<close> closes the descriptor, once.\<close>

definition destroy_conn :: "nat \<Rightarrow> tcp_io \<Rightarrow> tcp_io" where
  "destroy_conn c s =
     (if c \<in> set (ti_dead s) then s
      else s\<lparr>ti_dead := c # ti_dead s, ti_open := removeAll (conn_fd s c) (ti_open s)\<rparr>)"

definition note_destroyed :: "nat \<Rightarrow> tcp_io \<Rightarrow> tcp_io" where
  "note_destroyed c s = s\<lparr>ti_destroyed := ti_destroyed s @ [c]\<rparr>"

section \<open>The listening socket\<close>

record listen_env =
  le_socket :: int
  le_setsockopt :: bool
  le_bind :: bool
  le_listen :: bool
  le_getfl :: bool
  le_setfl :: bool
  le_ctl_ok :: bool
  le_del_ok :: bool

text \<open>Closing a descriptor takes it out of the kernel's interest list.\<close>

definition close_listen_socket :: "bool \<Rightarrow> bool \<Rightarrow> tcp_io \<Rightarrow> tcp_io" where
  "close_listen_socket here ctl_ok s =
     (let sv = ti_server s; fd = ts_listen_fd sv;
          s1 = (if ts_listen_registered sv
                then s\<lparr>ti_base := snd (remove_fd here ctl_ok fd (ti_base s)), ti_server := sv\<lparr>ts_listen_registered := False\<rparr>\<rparr>
                else s) in
      if fd \<noteq> -1
      then s1\<lparr>ti_open := removeAll fd (ti_open s1),
              ti_base := (ti_base s1)\<lparr>el_interest := um_erase fd (el_interest (ti_base s1))\<rparr>,
              ti_server := (ti_server s1)\<lparr>ts_listen_fd := -1\<rparr>\<rparr>
      else s1)"

definition create_listen_socket :: "bool \<Rightarrow> listen_env \<Rightarrow> tcp_io \<Rightarrow> bool \<times> tcp_io" where
  "create_listen_socket here e s =
     (let sv = ti_server s in
      if ts_listen_fd sv \<noteq> -1 \<or> ts_listen_registered sv then (False, s)
      else let s1 = set_server (sv\<lparr>ts_listen_fd := le_socket e\<rparr>) s in
        if le_socket e = -1 then (False, s1)
        else let s2 = s1\<lparr>ti_open := le_socket e # ti_open s1\<rparr> in
          if \<not> le_setsockopt e then (False, close_listen_socket here (le_del_ok e) s2)
          else if \<not> le_bind e then (False, close_listen_socket here (le_del_ok e) s2)
          else if \<not> le_listen e then (False, close_listen_socket here (le_del_ok e) s2)
          else if \<not> le_getfl e then (False, close_listen_socket here (le_del_ok e) s2)
          else if \<not> le_setfl e then (False, close_listen_socket here (le_del_ok e) s2)
          else (True, s2))"

definition ts_start :: "bool \<Rightarrow> listen_env \<Rightarrow> (nat \<Rightarrow> bool) \<Rightarrow> tcp_io \<Rightarrow> bool \<times> tcp_io" where
  "ts_start here e valid s =
     (let sv = ti_server s in
      if \<not> ts_base sv \<or> \<not> el_valid (ti_base s) \<or> \<not> here \<or> ts_started sv \<or> ts_listen_fd sv \<noteq> -1 \<or>
         ts_listen_registered sv \<or> \<not> ts_message_callback sv then (False, s)
      else case create_listen_socket here e s of
        (created, s1) \<Rightarrow>
        if \<not> created then (False, s1)
        else case add_fd here (le_ctl_ok e) (ts_listen_fd (ti_server s1)) (EPOLLIN OR EPOLLET) (Some 0) (ti_base s1) of
          (added, base) \<Rightarrow>
          if \<not> added then (False, close_listen_socket here (le_del_ok e) s1)
          else let s2 = s1\<lparr>ti_base := base, ti_server := (ti_server s1)\<lparr>ts_listen_registered := True\<rparr>\<rparr> in
            case pool_start here (el_valid base) valid (ts_pool (ti_server s2)) of
              (pool_ok, pool) \<Rightarrow>
              if \<not> pool_ok then (False, close_listen_socket here (le_del_ok e) s2)
              else (True, set_server ((ti_server s2)\<lparr>ts_pool := pool, ts_started := True\<rparr>) s2))"

section \<open>Removing a connection\<close>

text \<open>Whether the closed callback throws makes no difference: the exception is logged.\<close>

definition remove_connection_in_loop :: "bool \<Rightarrow> nat \<Rightarrow> tcp_io \<Rightarrow> tcp_io" where
  "remove_connection_in_loop here c s =
     (let sv = ti_server s in
      if \<not> ts_base sv \<or> \<not> here then s
      else case um_find (conn_fd s c) (ts_connections sv) of
        None \<Rightarrow> s
      | Some c' \<Rightarrow>
        if c' \<noteq> c then s
        else let s1 = (if ts_closed_callback sv then s\<lparr>ti_closed := ti_closed s @ [c]\<rparr> else s);
                 s2 = set_server (sv\<lparr>ts_connections := um_erase (conn_fd s c) (ts_connections sv)\<rparr>) s1 in
          note_destroyed c (queue_on (conn_home s c) (DestroyConn c) s2))"

definition remove_connection :: "bool \<Rightarrow> nat \<Rightarrow> tcp_io \<Rightarrow> tcp_io" where
  "remove_connection here c s =
     (if \<not> ts_base (ti_server s) then s
      else if here then remove_connection_in_loop here c s
      else queue_on BaseLoop (RemoveTask c) s)"

text \<open>What a functor does to the server; establishing a connection is its own business.\<close>

primrec run_srv_task :: "bool \<Rightarrow> srv_task \<Rightarrow> tcp_io \<Rightarrow> tcp_io" where
  "run_srv_task here (RemoveTask c) s = remove_connection_in_loop here c s"
| "run_srv_task here (EstablishConn c) s = s"
| "run_srv_task here (DestroyConn c) s = destroy_conn c s"

text \<open>\<open>run_in_loop\<close> called on the base loop's thread.\<close>

definition run_on :: "loop_ref \<Rightarrow> srv_task \<Rightarrow> tcp_io \<Rightarrow> tcp_io" where
  "run_on l x s = (if l = BaseLoop then run_srv_task True x s else queue_on l x s)"

section \<open>Accepting\<close>

text \<open>What \<open>accept\<close> answers; a new descriptor comes with the results of the two \<open>fcntl\<close> calls.\<close>

datatype accept_result = Accepted int bool bool | AcIntr | AcAgain | AcError

definition close_client :: "int \<Rightarrow> tcp_io \<Rightarrow> tcp_io" where
  "close_client fd s = s\<lparr>ti_open := removeAll fd (ti_open s)\<rparr>"

definition add_connection :: "int \<Rightarrow> loop_ref \<Rightarrow> tcp_io \<Rightarrow> tcp_io" where
  "add_connection fd io_loop s =
     (let c = length (ti_conns s) in
      run_on io_loop (EstablishConn c) (s\<lparr>ti_conns := ti_conns s @ [(fd, io_loop)],
        ti_server := (ti_server s)\<lparr>ts_connections := um_assign fd c (ts_connections (ti_server s))\<rparr>\<rparr>))"

text \<open>One turn of the loop, and whether there is another one.\<close>

definition accept_one :: "bool \<Rightarrow> accept_result \<Rightarrow> tcp_io \<Rightarrow> bool \<times> tcp_io" where
  "accept_one here a s =
     (case a of
        AcIntr \<Rightarrow> (True, s)
      | AcAgain \<Rightarrow> (False, s)
      | AcError \<Rightarrow> (False, s)
      | Accepted fd getfl setfl \<Rightarrow>
        let s0 = s\<lparr>ti_open := fd # ti_open s\<rparr> in
        if \<not> getfl then (True, close_client fd s0)
        else if \<not> setfl then (True, close_client fd s0)
        else case get_next_loop here (ts_pool (ti_server s0)) of
          (io_loop, pool) \<Rightarrow>
          let s1 = set_server ((ti_server s0)\<lparr>ts_pool := pool\<rparr>) s0 in
          (case io_loop of
             None \<Rightarrow> (True, close_client fd s1)
           | Some l \<Rightarrow>
             if um_contains fd (ts_connections (ti_server s1)) then (True, close_client fd s1)
             else (True, add_connection fd l s1)))"

primrec accept_loop :: "bool \<Rightarrow> accept_result list \<Rightarrow> tcp_io \<Rightarrow> tcp_io" where
  "accept_loop here [] s = s"
| "accept_loop here (a # as) s = (case accept_one here a s of (again, s') \<Rightarrow> if again then accept_loop here as s' else s')"

definition handle_accept :: "bool \<Rightarrow> u32 \<Rightarrow> accept_result list \<Rightarrow> tcp_io \<Rightarrow> tcp_io" where
  "handle_accept here events as s =
     (let sv = ti_server s in
      if \<not> ts_base sv \<or> \<not> here then s
      else if \<not> ts_started sv \<or> \<not> ts_listen_registered sv \<or> ts_listen_fd sv = -1 then s
      else if events AND EPOLLIN = 0 then s
      else accept_loop here as s)"

section \<open>Timeouts and shutting down\<close>

definition check_timeouts :: "bool \<Rightarrow> int \<Rightarrow> tcp_io \<Rightarrow> tcp_io" where
  "check_timeouts here timeout s =
     (if \<not> ts_base (ti_server s) \<or> \<not> here then s
      else if \<not> ts_started (ti_server s) then s
      else if timeout \<le> 0 then s
      else s\<lparr>ti_checks := ti_checks s @ map (\<lambda>(fd, c). (c, timeout)) (ts_connections (ti_server s))\<rparr>)"

definition destroy_entry :: "int \<times> nat \<Rightarrow> tcp_io \<Rightarrow> tcp_io" where
  "destroy_entry x s = (let c = snd x in note_destroyed c (run_on (conn_home s c) (DestroyConn c) s))"

definition server_destructor :: "bool \<Rightarrow> bool \<Rightarrow> tcp_io \<Rightarrow> tcp_io" where
  "server_destructor here ctl_ok s =
     (if \<not> ts_base (ti_server s) \<or> \<not> here then s
      else let s1 = close_listen_socket here ctl_ok s;
               s2 = set_server ((ti_server s1)\<lparr>ts_started := False\<rparr>) s1;
               s3 = fold destroy_entry (ts_connections (ti_server s2)) s2 in
        set_server ((ti_server s3)\<lparr>ts_connections := []\<rparr>) s3)"

end
