(* ===== verification/Tcp_World.thy ===== *)
theory Tcp_World
  imports Tcp_Server
begin

text \<open>
  The server among its loops: the base loop accepts, removes and checks timeouts; every loop
  runs its functors in the order in which they were queued; and a connection calls its close
  callback, once and on its own loop's thread, at any moment before it is disconnected
  (\<open>Connection_Claims\<close>). The kernel hands out only descriptors that are not open; the
  rest of the process opens and closes its own.
\<close>

record tcp_world =
  tw_io :: tcp_io
  tw_notified :: "nat list" \<comment> \<open>connections that have called back\<close>
  tw_gone :: bool \<comment> \<open>the server has been destroyed\<close>

text \<open>The answers of \<open>accept\<close> are descriptors that are not open at that moment.\<close>

primrec kernel_ok :: "accept_result list \<Rightarrow> tcp_io \<Rightarrow> bool" where
  "kernel_ok [] s = True"
| "kernel_ok (a # as) s =
     ((case a of Accepted fd _ _ \<Rightarrow> 0 \<le> fd \<and> fd \<notin> set (ti_open s) | _ \<Rightarrow> True) \<and>
      (case accept_one True a s of (again, s') \<Rightarrow> again \<longrightarrow> kernel_ok as s'))"

definition tcp_started :: "tcp_world \<Rightarrow> bool" where
  "tcp_started w \<longleftrightarrow> (\<exists>port thread_count. ti_server (tw_io w) =
       ts_set_connection_closed_callback (ts_set_message_callback (TcpServer_new True port thread_count))) \<and>
     ti_conns (tw_io w) = [] \<and> ti_pending (tw_io w) = [] \<and> ti_dead (tw_io w) = [] \<and> ti_closed (tw_io w) = [] \<and>
     ti_destroyed (tw_io w) = [] \<and> tw_notified w = [] \<and> \<not> tw_gone w"

definition with_io :: "tcp_io \<Rightarrow> tcp_world \<Rightarrow> tcp_world" where
  "with_io s w = w\<lparr>tw_io := s\<rparr>"

text \<open>Descriptors of others come and go.\<close>

definition fds_frame :: "tcp_io \<Rightarrow> int list \<Rightarrow> bool" where
  "fds_frame s fds \<longleftrightarrow> (\<forall>c<length (ti_conns s). c \<notin> set (ti_dead s) \<longrightarrow> conn_fd s c \<in> set fds) \<and>
     (ts_listen_fd (ti_server s) \<noteq> -1 \<longrightarrow> ts_listen_fd (ti_server s) \<in> set fds)"

inductive tcp_step :: "tcp_world \<Rightarrow> tcp_world \<Rightarrow> bool" where
  tw_start: "\<not> tw_gone w \<Longrightarrow> le_socket e \<notin> set (ti_open (tw_io w)) \<Longrightarrow>
    tcp_step w (with_io (snd (ts_start True e valid (tw_io w))) w)"
| tw_accept: "\<not> tw_gone w \<Longrightarrow> kernel_ok as (tw_io w) \<Longrightarrow> tcp_step w (with_io (handle_accept True events as (tw_io w)) w)"
| tw_close: "c < length (ti_conns (tw_io w)) \<Longrightarrow> c \<notin> set (tw_notified w) \<Longrightarrow> c \<notin> set (ti_dead (tw_io w)) \<Longrightarrow>
    here = (conn_home (tw_io w) c = BaseLoop) \<Longrightarrow> \<not> (here \<and> tw_gone w) \<Longrightarrow>
    tcp_step w (with_io (remove_connection here c (tw_io w)) (w\<lparr>tw_notified := c # tw_notified w\<rparr>))"
| tw_task: "ti_pending (tw_io w) = xs @ (l, x) # ys \<Longrightarrow> l \<notin> fst ` set xs \<Longrightarrow> \<not> (l = BaseLoop \<and> tw_gone w) \<Longrightarrow>
    tcp_step w (with_io (run_srv_task True x ((tw_io w)\<lparr>ti_pending := xs @ ys\<rparr>)) w)"
| tw_timeouts: "\<not> tw_gone w \<Longrightarrow> tcp_step w (with_io (check_timeouts True timeout (tw_io w)) w)"
| tw_drop: "\<not> tw_gone w \<Longrightarrow>
    tcp_step w (with_io (server_destructor True ctl_ok (tw_io w)) (w\<lparr>tw_gone := True\<rparr>))"
| tw_fds: "fds_frame (tw_io w) fds \<Longrightarrow> tcp_step w (with_io ((tw_io w)\<lparr>ti_open := fds\<rparr>) w)"
| tw_base: "el_valid base = el_valid (ti_base (tw_io w)) \<Longrightarrow> tcp_step w (with_io ((tw_io w)\<lparr>ti_base := base\<rparr>) w)"

section \<open>The invariant\<close>

text \<open>Of the server's state alone: table, descriptors and histories.\<close>

definition destroys_due :: "tcp_io \<Rightarrow> nat \<Rightarrow> nat" where
  "destroys_due s c = count_list (map snd (ti_pending s)) (DestroyConn c)"

fun task_ok :: "(int \<times> loop_ref) list \<Rightarrow> loop_ref \<times> srv_task \<Rightarrow> bool" where
  "task_ok conns (l, RemoveTask c) \<longleftrightarrow> l = BaseLoop \<and> c < length conns"
| "task_ok conns (l, EstablishConn c) \<longleftrightarrow> c < length conns \<and> l = snd (conns ! c)"
| "task_ok conns (l, DestroyConn c) \<longleftrightarrow> c < length conns \<and> l = snd (conns ! c)"

definition tasks_ok :: "tcp_io \<Rightarrow> bool" where
  "tasks_ok s \<longleftrightarrow> (\<forall>x \<in> set (ti_pending s). task_ok (ti_conns s) x)"

definition table_ok :: "tcp_io \<Rightarrow> bool" where
  "table_ok s \<longleftrightarrow> um_wf (ts_connections (ti_server s)) \<and>
     (\<forall>fd c. um_find fd (ts_connections (ti_server s)) = Some c \<longleftrightarrow>
        c < length (ti_conns s) \<and> c \<notin> set (ti_destroyed s) \<and> conn_fd s c = fd)"

definition alive_ok :: "tcp_io \<Rightarrow> bool" where
  "alive_ok s \<longleftrightarrow> (\<forall>c<length (ti_conns s). c \<notin> set (ti_dead s) \<longrightarrow> conn_fd s c \<in> set (ti_open s) \<and> 0 \<le> conn_fd s c \<and>
      (\<forall>d<length (ti_conns s). d \<notin> set (ti_dead s) \<longrightarrow> conn_fd s d = conn_fd s c \<longrightarrow> d = c) \<and>
      (ts_listen_fd (ti_server s) = conn_fd s c \<longrightarrow> False)) \<and>
    (ts_listen_fd (ti_server s) \<noteq> -1 \<longrightarrow> ts_listen_fd (ti_server s) \<in> set (ti_open s))"

definition once_ok :: "tcp_io \<Rightarrow> bool" where
  "once_ok s \<longleftrightarrow> distinct (ti_destroyed s) \<and> distinct (ti_dead s) \<and>
     (\<forall>c. (if c \<in> set (ti_destroyed s) then c < length (ti_conns s) \<and> destroys_due s c + count_list (ti_dead s) c = 1
           else destroys_due s c = 0 \<and> c \<notin> set (ti_dead s)))"

text \<open>Connections are dealt to the loops in turn.\<close>

definition nth_loop :: "nat \<Rightarrow> nat \<Rightarrow> loop_ref" where
  "nth_loop thread_count c = (if thread_count = 0 then BaseLoop else IoLoop (c mod thread_count))"

definition pool_ok :: "tcp_io \<Rightarrow> bool" where
  "pool_ok s \<longleftrightarrow> (let p = ts_pool (ti_server s) in pool_wf p \<and> tp_base p \<and> (ts_started (ti_server s) \<longrightarrow> tp_started p) \<and>
     (\<not> tp_started p \<longrightarrow> ti_conns s = []) \<and>
     (tp_started p \<longrightarrow> (\<forall>k. loop_number p k = nth_loop (tp_thread_count p) (length (ti_conns s) + k))) \<and>
     (\<forall>c<length (ti_conns s). conn_home s c = nth_loop (tp_thread_count p) c))"

definition io_ok :: "tcp_io \<Rightarrow> bool" where
  "io_ok s \<longleftrightarrow> ts_base (ti_server s) \<and> ts_closed_callback (ti_server s) \<and> tasks_ok s \<and> table_ok s \<and> alive_ok s \<and> once_ok s \<and> pool_ok s"

definition tcp_inv :: "tcp_world \<Rightarrow> bool" where
  "tcp_inv w \<longleftrightarrow> (let s = tw_io w in io_ok s \<and> set (tw_notified w) \<subseteq> {..<length (ti_conns s)} \<and>
     (\<not> tw_gone w \<longrightarrow> ti_closed s = ti_destroyed s \<and> set (ti_destroyed s) \<subseteq> set (tw_notified w) \<and>
        (\<forall>c \<in> set (tw_notified w). c \<in> set (ti_destroyed s) \<or> (BaseLoop, RemoveTask c) \<in> set (ti_pending s)) \<and>
        (\<forall>l c. (l, RemoveTask c) \<in> set (ti_pending s) \<longrightarrow> c \<in> set (tw_notified w))) \<and>
     (tw_gone w \<longrightarrow> (\<forall>c<length (ti_conns s). c \<in> set (ti_destroyed s)) \<and> distinct (ti_closed s)))"

section \<open>Destroying\<close>

lemma count_list_snoc [simp]: "count_list (xs @ [x]) y = count_list xs y + (if x = y then 1 else 0)"
  by (induction xs) auto

lemma distinct_count: "distinct xs \<Longrightarrow> count_list xs x = (if x \<in> set xs then 1 else 0)"
  by (induction xs) auto

text \<open>Handing \<open>connect_destroyed\<close> to a connection's loop, where the connection has just left the
  table: it is queued there, or runs at once.\<close>

definition handed :: "nat \<Rightarrow> tcp_io \<Rightarrow> tcp_io" where
  "handed c s = note_destroyed c (queue_on (conn_home s c) (DestroyConn c) s)"

lemma handed_frame [simp]:
  "ti_server (handed c s) = ti_server s" "ti_conns (handed c s) = ti_conns s" "ti_open (handed c s) = ti_open s"
  "ti_dead (handed c s) = ti_dead s" "ti_closed (handed c s) = ti_closed s" "ti_destroyed (handed c s) = ti_destroyed s @ [c]"
  "ti_pending (handed c s) = ti_pending s @ [(conn_home s c, DestroyConn c)]" "conn_fd (handed c s) d = conn_fd s d"
  "conn_home (handed c s) d = conn_home s d"
  by (simp_all add: handed_def note_destroyed_def queue_on_def conn_fd_def conn_home_def)

lemma handed_ok:
  assumes "c < length (ti_conns s)" and "c \<notin> set (ti_destroyed s)"
  shows "tasks_ok s \<Longrightarrow> tasks_ok (handed c s)" and "alive_ok s \<Longrightarrow> alive_ok (handed c s)"
    and "once_ok s \<Longrightarrow> once_ok (handed c s)" and "pool_ok s \<Longrightarrow> pool_ok (handed c s)"
proof -
  show "tasks_ok s \<Longrightarrow> tasks_ok (handed c s)" using assms by (auto simp: tasks_ok_def conn_home_def)
  show "alive_ok s \<Longrightarrow> alive_ok (handed c s)" by (simp add: alive_ok_def)
  show "pool_ok s \<Longrightarrow> pool_ok (handed c s)" by (simp add: pool_ok_def)
  have destroys_due: "destroys_due (handed c s) d = destroys_due s d + (if d = c then 1 else 0)" for d by (simp add: destroys_due_def)
  show "once_ok s \<Longrightarrow> once_ok (handed c s)" using assms unfolding once_ok_def destroys_due by auto
qed

lemma destroy_frame [simp]:
  "ti_server (destroy_conn c s) = ti_server s" "ti_conns (destroy_conn c s) = ti_conns s"
  "ti_pending (destroy_conn c s) = ti_pending s" "ti_closed (destroy_conn c s) = ti_closed s"
  "ti_destroyed (destroy_conn c s) = ti_destroyed s" "conn_fd (destroy_conn c s) d = conn_fd s d"
  "conn_home (destroy_conn c s) d = conn_home s d"
  "set (ti_dead (destroy_conn c s)) = insert c (set (ti_dead s))"
  by (auto simp: destroy_conn_def conn_fd_def conn_home_def)

lemma alive_destroy:
  assumes "alive_ok s" and "c < length (ti_conns s)"
  shows "alive_ok (destroy_conn c s)"
proof (cases "c \<in> set (ti_dead s)")
  case True
  then show ?thesis using assms by (simp add: destroy_conn_def)
next
  case False
  then show ?thesis
    using assms unfolding alive_ok_def by (simp add: destroy_conn_def conn_fd_def) (metis)
qed

section \<open>The listening socket\<close>

lemma conn_fd_cong: "ti_conns t = ti_conns s \<Longrightarrow> conn_fd t = conn_fd s" "ti_conns t = ti_conns s \<Longrightarrow> conn_home t = conn_home s"
  by (auto simp: conn_fd_def conn_home_def)

lemma io_ok_frame:
  assumes "io_ok s" and "ti_conns t = ti_conns s" "ti_pending t = ti_pending s" "ti_dead t = ti_dead s" "ti_destroyed t = ti_destroyed s"
    and "ts_connections (ti_server t) = ts_connections (ti_server s)" "ts_base (ti_server t) = ts_base (ti_server s)"
      "ts_closed_callback (ti_server t) = ts_closed_callback (ti_server s)" and "alive_ok t" and "pool_ok t"
  shows "io_ok t"
proof -
  note f = conn_fd_cong [OF assms(2)]
  have tasks: "tasks_ok t" using assms(1) by (simp add: io_ok_def tasks_ok_def f assms(2,3))
  have table: "table_ok t" using assms(1) by (simp add: io_ok_def table_ok_def f assms(2,5,6))
  have "destroys_due t = destroys_due s" by (simp add: destroys_due_def fun_eq_iff assms(3))
  then have "once_ok t = once_ok s" by (simp only: once_ok_def assms(2,4,5))
  then show ?thesis using assms tasks table by (simp add: io_ok_def)
qed

lemma pool_ok_frame:
  assumes "pool_ok s" and "ti_conns t = ti_conns s" and "ts_pool (ti_server t) = ts_pool (ti_server s)"
    and "ts_started (ti_server t) \<Longrightarrow> ts_started (ti_server s)"
  shows "pool_ok t"
  using assms conn_fd_cong [OF assms(2)] by (auto simp: pool_ok_def Let_def)

lemma close_listen_frame [simp]:
  "ti_conns (close_listen_socket here ok s) = ti_conns s" "ti_pending (close_listen_socket here ok s) = ti_pending s"
  "ti_dead (close_listen_socket here ok s) = ti_dead s" "ti_destroyed (close_listen_socket here ok s) = ti_destroyed s"
  "ti_closed (close_listen_socket here ok s) = ti_closed s"
  "ti_server (close_listen_socket here ok s) = (ti_server s)\<lparr>ts_listen_registered := False, ts_listen_fd := -1\<rparr>"
  by (auto simp: close_listen_socket_def Let_def)

lemma close_listen_open:
  "ti_open (close_listen_socket here ok s) =
     (if ts_listen_fd (ti_server s) = -1 then ti_open s else removeAll (ts_listen_fd (ti_server s)) (ti_open s))"
  by (auto simp: close_listen_socket_def Let_def)

lemma close_listen_ok:
  assumes "io_ok s"
  shows "io_ok (close_listen_socket here ok s)"
proof (rule io_ok_frame [OF assms])
  have "alive_ok s" using assms by (simp add: io_ok_def)
  then show "alive_ok (close_listen_socket here ok s)"
    by (auto simp: alive_ok_def close_listen_open conn_fd_def)
  have "pool_ok s" using assms by (simp add: io_ok_def)
  then show "pool_ok (close_listen_socket here ok s)" by (rule pool_ok_frame) simp_all
qed simp_all

lemma create_listen_ok:
  assumes "io_ok s" and "le_socket e \<notin> set (ti_open s)" and "create_listen_socket here e s = (ok, t)"
  shows "io_ok t" and "ti_conns t = ti_conns s" "ti_pending t = ti_pending s" "ti_closed t = ti_closed s"
    "ti_destroyed t = ti_destroyed s" "ts_started (ti_server t) = ts_started (ti_server s)"
proof -
  let ?t = "set_server ((ti_server s)\<lparr>ts_listen_fd := le_socket e\<rparr>) s"
  let ?u = "?t\<lparr>ti_open := le_socket e # ti_open s\<rparr>"
  have a: "alive_ok s" "pool_ok s" using assms(1) by (simp_all add: io_ok_def)
  have t: "io_ok ?t" if "le_socket e = -1"
    by (rule io_ok_frame [OF assms(1)])
      (use a that in \<open>auto simp: set_server_def alive_ok_def conn_fd_def intro: pool_ok_frame [OF a(2)]\<close>)
  have u: "io_ok ?u"
    by (rule io_ok_frame [OF assms(1)])
      (use a assms(2) in \<open>auto simp: set_server_def alive_ok_def conn_fd_def intro: pool_ok_frame [OF a(2)]\<close>)
  consider "t = s" | "t = ?t" "le_socket e = -1" | "t = ?u" | "t = close_listen_socket here (le_del_ok e) ?u"
    using assms(3) by (auto simp: create_listen_socket_def Let_def set_server_def split: if_splits)
  then have "io_ok t \<and> ti_conns t = ti_conns s \<and> ti_pending t = ti_pending s \<and> ti_closed t = ti_closed s \<and>
    ti_destroyed t = ti_destroyed s \<and> ts_started (ti_server t) = ts_started (ti_server s)"
    by cases (use assms(1) t u close_listen_ok in \<open>simp_all add: set_server_def\<close>)
  then show "io_ok t" "ti_conns t = ti_conns s" "ti_pending t = ti_pending s" "ti_closed t = ti_closed s"
    "ti_destroyed t = ti_destroyed s" "ts_started (ti_server t) = ts_started (ti_server s)" by auto
qed

lemma alive_frame:
  "alive_ok s \<Longrightarrow> ti_conns t = ti_conns s \<Longrightarrow> ti_dead t = ti_dead s \<Longrightarrow> set (ti_open t) = set (ti_open s) \<Longrightarrow>
   ts_listen_fd (ti_server t) = ts_listen_fd (ti_server s) \<Longrightarrow> alive_ok t"
  using conn_fd_cong [of t s] by (simp add: alive_ok_def)

lemma pool_started_ok:
  assumes "pool_ok s" and "pool_start here bv valid (ts_pool (ti_server s)) = (True, p)" and "ti_conns t = ti_conns s"
    and "ts_pool (ti_server t) = p"
  shows "pool_ok t"
proof -
  let ?p = "ts_pool (ti_server s)"
  have p: "\<not> tp_started ?p" "p = ?p\<lparr>tp_threads := tp_threads p, tp_loops := map IoLoop [0..<tp_thread_count ?p], tp_started := True, tp_next := 0\<rparr>"
    using assms(2) by (auto simp: pool_start_def start_threads_loops split: if_splits)
  have f: "tp_loops p = map IoLoop [0..<tp_thread_count ?p]" "tp_started p" "tp_next p = 0" "tp_thread_count p = tp_thread_count ?p"
      "tp_base p = tp_base ?p"
    by (subst p(2), simp)+
  have "pool_wf p" using f by (simp add: pool_wf_def)
  then show ?thesis using assms(1,3,4) p(1) f by (auto simp: pool_ok_def Let_def loop_number_def nth_loop_def)
qed

lemma ts_start_ok:
  assumes "io_ok s" and "le_socket e \<notin> set (ti_open s)" and "ts_start True e valid s = (ok, t)"
  shows "io_ok t \<and> ti_conns t = ti_conns s \<and> ti_pending t = ti_pending s \<and> ti_closed t = ti_closed s \<and>
    ti_destroyed t = ti_destroyed s"
proof -
  obtain created s1 where c: "create_listen_socket True e s = (created, s1)" by fastforce
  note l = create_listen_ok [OF assms(1,2) c]
  obtain added base where a: "add_fd True (le_ctl_ok e) (ts_listen_fd (ti_server s1)) (EPOLLIN OR EPOLLET) (Some 0) (ti_base s1) = (added, base)"
    by fastforce
  define s2 where "s2 = s1\<lparr>ti_base := base, ti_server := (ti_server s1)\<lparr>ts_listen_registered := True\<rparr>\<rparr>"
  have al: "alive_ok s1" "pool_ok s1" using l(1) by (simp_all add: io_ok_def)
  have s2: "io_ok s2"
    by (rule io_ok_frame [OF l(1)]) (use al in \<open>auto simp: s2_def intro: pool_ok_frame [OF al(2)] alive_frame [OF al(1)]\<close>)
  obtain pok p where p: "pool_start True (el_valid base) valid (ts_pool (ti_server s2)) = (pok, p)" by fastforce
  define s3 where "s3 = set_server ((ti_server s2)\<lparr>ts_pool := p, ts_started := True\<rparr>) s2"
  have s3: "io_ok s3" if pok
  proof (rule io_ok_frame [OF s2])
    have "pool_ok s2" "alive_ok s2" using s2 by (simp_all add: io_ok_def)
    then show "pool_ok s3" "alive_ok s3"
      using pool_started_ok [of s2 True "el_valid base" valid p s3] p that
      by (auto simp: s3_def set_server_def intro: alive_frame)
  qed (simp_all add: s3_def set_server_def)
  consider "t = s" | "t = s1" | "t = close_listen_socket True (le_del_ok e) s1" | "t = close_listen_socket True (le_del_ok e) s2" | "pok" "t = s3"
    using assms(3) by (auto simp: ts_start_def Let_def c a s2_def [symmetric] p s3_def split: if_splits)
  then show ?thesis
    by cases (use assms(1) l s2 s3 close_listen_ok in \<open>simp_all add: s2_def s3_def set_server_def\<close>)
qed

section \<open>Removing\<close>

lemma dead_destroyed: "once_ok s \<Longrightarrow> c \<in> set (ti_dead s) \<Longrightarrow> c \<in> set (ti_destroyed s)"
  unfolding once_ok_def by metis

lemma in_table:
  assumes "io_ok s" and "c < length (ti_conns s)"
  shows "um_find (conn_fd s c) (ts_connections (ti_server s)) = Some c \<longleftrightarrow> c \<notin> set (ti_destroyed s)"
  using assms by (simp add: io_ok_def table_ok_def)

definition taken_out :: "nat \<Rightarrow> tcp_io \<Rightarrow> tcp_io" where
  "taken_out c s = s\<lparr>ti_closed := ti_closed s @ [c],
     ti_server := (ti_server s)\<lparr>ts_connections := um_erase (conn_fd s c) (ts_connections (ti_server s))\<rparr>\<rparr>"

lemma remove_eq:
  assumes "io_ok s" and "c < length (ti_conns s)"
  shows "remove_connection_in_loop True c s = (if c \<in> set (ti_destroyed s) then s else handed c (taken_out c s))"
proof -
  have h: "conn_home s c = conn_home (taken_out c s) c" by (simp add: conn_home_def taken_out_def)
  show ?thesis
    using in_table [OF assms] assms(1) h
    by (auto simp: remove_connection_in_loop_def io_ok_def handed_def taken_out_def set_server_def Let_def split: option.splits)
qed

lemma table_take_out:
  assumes "table_ok s" and "c < length (ti_conns s)" and "c \<notin> set (ti_destroyed s)" and "ti_conns t = ti_conns s"
    and "ti_destroyed t = ti_destroyed s @ [c]"
    and "ts_connections (ti_server t) = um_erase (conn_fd s c) (ts_connections (ti_server s))"
  shows "table_ok t"
proof -
  have "um_find (conn_fd s c) (ts_connections (ti_server s)) = Some c" using assms(1-3) by (simp add: table_ok_def)
  then have "d = c" if "d < length (ti_conns s)" "d \<notin> set (ti_destroyed s)" "conn_fd s d = conn_fd s c" for d
    using assms(1) that unfolding table_ok_def by (metis option.inject)
  then show ?thesis
    using assms conn_fd_cong [OF assms(4)] unfolding table_ok_def by auto
qed

lemma remove_ok:
  assumes "io_ok s" and "c < length (ti_conns s)"
  shows "io_ok (remove_connection_in_loop True c s)"
proof (cases "c \<in> set (ti_destroyed s)")
  case False
  let ?u = "taken_out c s"
  have s: "tasks_ok s" "table_ok s" "alive_ok s" "once_ok s" "pool_ok s" "ts_base (ti_server s)" "ts_closed_callback (ti_server s)"
    using assms(1) by (simp_all add: io_ok_def)
  have c: "c < length (ti_conns ?u)" "c \<notin> set (ti_destroyed ?u)" using assms(2) False by (simp_all add: taken_out_def)
  have "destroys_due ?u = destroys_due s" by (simp add: destroys_due_def taken_out_def fun_eq_iff)
  then have "once_ok ?u = once_ok s" by (simp add: once_ok_def taken_out_def)
  moreover have "tasks_ok ?u" using s(1) by (simp add: tasks_ok_def taken_out_def)
  moreover have "alive_ok ?u" by (rule alive_frame [OF s(3)]) (simp_all add: taken_out_def)
  moreover have "pool_ok ?u" by (rule pool_ok_frame [OF s(5)]) (simp_all add: taken_out_def)
  moreover have "table_ok (handed c ?u)"
    by (rule table_take_out [OF s(2) assms(2) False]) (simp_all add: taken_out_def)
  ultimately show ?thesis
    using handed_ok [OF c] s by (simp add: remove_eq [OF assms] False io_ok_def) (simp add: taken_out_def)
qed (use assms in \<open>simp add: remove_eq\<close>)

section \<open>Running a functor\<close>

lemma destroys_due_dequeue:
  assumes "ti_pending s = xs @ (l, x) # ys"
  shows "destroys_due s c = destroys_due (s\<lparr>ti_pending := xs @ ys\<rparr>) c + (if x = DestroyConn c then 1 else 0)"
  by (simp add: destroys_due_def assms)

lemma dequeue_quiet:
  assumes "io_ok s" and "ti_pending s = xs @ (l, x) # ys" and "\<And>c. x \<noteq> DestroyConn c"
  shows "io_ok (s\<lparr>ti_pending := xs @ ys\<rparr>)"
proof -
  let ?t = "s\<lparr>ti_pending := xs @ ys\<rparr>"
  have s: "tasks_ok s" "table_ok s" "alive_ok s" "once_ok s" "pool_ok s" using assms(1) by (simp_all add: io_ok_def)
  have "destroys_due ?t = destroys_due s" using destroys_due_dequeue [OF assms(2)] assms(3) by (simp add: fun_eq_iff)
  then have "once_ok ?t = once_ok s" by (simp only: once_ok_def) simp
  moreover have "tasks_ok ?t" using s(1) assms(2) by (simp add: tasks_ok_def)
  moreover have "table_ok ?t" using s(2) by (simp add: table_ok_def conn_fd_def)
  moreover have "alive_ok ?t" by (rule alive_frame [OF s(3)]) simp_all
  moreover have "pool_ok ?t" by (rule pool_ok_frame [OF s(5)]) simp_all
  ultimately show ?thesis using assms(1) s(4) by (simp add: io_ok_def)
qed

lemma run_destroy_ok:
  assumes "io_ok s" and "ti_pending s = xs @ (l, DestroyConn c) # ys"
  shows "io_ok (destroy_conn c (s\<lparr>ti_pending := xs @ ys\<rparr>))"
proof -
  let ?t = "s\<lparr>ti_pending := xs @ ys\<rparr>"
  let ?u = "destroy_conn c ?t"
  have s: "tasks_ok s" "table_ok s" "alive_ok s" "once_ok s" "pool_ok s" using assms(1) by (simp_all add: io_ok_def)
  have c: "c < length (ti_conns s)" using s(1) assms(2) by (auto simp: tasks_ok_def)
  have destroys_due: "destroys_due s d = destroys_due ?u d + (if d = c then 1 else 0)" for d
    using destroys_due_dequeue [OF assms(2), of d] by (simp add: destroys_due_def)
  have dead: "c \<notin> set (ti_dead s)" "c \<in> set (ti_destroyed s)"
  proof -
    have "destroys_due s c \<ge> 1" using destroys_due [of c] by simp
    then show d: "c \<in> set (ti_destroyed s)" using s(4) unfolding once_ok_def by (metis not_one_le_zero)
    then have "count_list (ti_dead s) c = 0" using s(4) \<open>destroys_due s c \<ge> 1\<close> unfolding once_ok_def
      by (metis add_le_same_cancel1 le_zero_eq)
    then show "c \<notin> set (ti_dead s)" by (simp add: count_list_0_iff)
  qed
  have u: "ti_dead ?u = c # ti_dead s" "ti_destroyed ?u = ti_destroyed s" "ti_conns ?u = ti_conns s"
    using dead(1) by (simp_all add: destroy_conn_def)
  have o: "if d \<in> set (ti_destroyed s) then d < length (ti_conns s) \<and> destroys_due s d + count_list (ti_dead s) d = 1
      else destroys_due s d = 0 \<and> d \<notin> set (ti_dead s)" for d
    using s(4) unfolding once_ok_def by blast
  have "once_ok ?u"
    unfolding once_ok_def u
  proof (intro conjI allI)
    fix d
    show "if d \<in> set (ti_destroyed s) then d < length (ti_conns s) \<and> destroys_due ?u d + count_list (c # ti_dead s) d = 1
        else destroys_due ?u d = 0 \<and> d \<notin> set (c # ti_dead s)"
      using o [of d] destroys_due [of d] dead(2) by (cases "d = c") (auto split: if_splits)
  qed (use s(4) dead in \<open>simp_all add: once_ok_def\<close>)
  moreover have "tasks_ok ?u" using s(1) assms(2) by (simp add: tasks_ok_def)
  moreover have "table_ok ?u" using s(2) by (simp add: table_ok_def) (simp add: conn_fd_def)
  moreover have "alive_ok ?t" by (rule alive_frame [OF s(3)]) simp_all
  then have "alive_ok ?u" by (rule alive_destroy) (simp add: c)
  moreover have "pool_ok ?u" by (rule pool_ok_frame [OF s(5)]) simp_all
  ultimately show ?thesis using assms(1) by (simp add: io_ok_def)
qed

section \<open>Accepting\<close>

text \<open>The descriptors of which the answers of \<open>accept\<close> make connections.\<close>

primrec accepted_fds :: "accept_result list \<Rightarrow> int list" where
  "accepted_fds [] = []"
| "accepted_fds (a # as) =
     (case a of Accepted fd getfl setfl \<Rightarrow> (if getfl \<and> setfl then fd # accepted_fds as else accepted_fds as)
      | AcIntr \<Rightarrow> accepted_fds as | AcAgain \<Rightarrow> [] | AcError \<Rightarrow> [])"

definition accepts :: "int list \<Rightarrow> tcp_io \<Rightarrow> tcp_io \<Rightarrow> bool" where
  "accepts fds s t \<longleftrightarrow> io_ok t \<and> map fst (ti_conns t) = map fst (ti_conns s) @ fds \<and> ti_destroyed t = ti_destroyed s \<and>
     ti_closed t = ti_closed s \<and> (\<forall>l c. (l, RemoveTask c) \<in> set (ti_pending t) \<longleftrightarrow> (l, RemoveTask c) \<in> set (ti_pending s)) \<and> ts_started (ti_server t) = ts_started (ti_server s) \<and>
     tp_thread_count (ts_pool (ti_server t)) = tp_thread_count (ts_pool (ti_server s))"

lemma accepts_trans: "accepts fds s t \<Longrightarrow> accepts gds t u \<Longrightarrow> accepts (fds @ gds) s u"
  by (auto simp: accepts_def)

text \<open>A descriptor that was not open is in no entry of the table.\<close>

lemma fresh_not_in_table:
  assumes "io_ok s" and "fd \<notin> set (ti_open s)"
  shows "\<not> um_contains fd (ts_connections (ti_server s))"
proof
  assume "um_contains fd (ts_connections (ti_server s))"
  then obtain c where c: "um_find fd (ts_connections (ti_server s)) = Some c" by (auto simp: um_contains_def)
  then have c': "c < length (ti_conns s)" "c \<notin> set (ti_destroyed s)" "conn_fd s c = fd"
    using assms(1) by (simp_all add: io_ok_def table_ok_def)
  then have "c \<notin> set (ti_dead s)" using dead_destroyed assms(1) by (auto simp: io_ok_def)
  then have "fd \<in> set (ti_open s)" using assms(1) c' by (auto simp: io_ok_def alive_ok_def)
  then show False using assms(2) by simp
qed

text \<open>The state after a connection has been added, on the loop whose turn it was.\<close>

definition with_connection :: "int \<Rightarrow> EventLoopThreadPool \<Rightarrow> tcp_io \<Rightarrow> tcp_io" where
  "with_connection fd p s = (let c = length (ti_conns s); l = loop_number (ts_pool (ti_server s)) 0 in
     s\<lparr>ti_open := fd # ti_open s, ti_conns := ti_conns s @ [(fd, l)],
       ti_server := (ti_server s)\<lparr>ts_pool := p, ts_connections := um_assign fd c (ts_connections (ti_server s))\<rparr>,
       ti_pending := ti_pending s @ (if l = BaseLoop then [] else [(l, EstablishConn c)])\<rparr>)"

lemma accept_one_added:
  assumes "io_ok s" and "ts_started (ti_server s)" and "fd \<notin> set (ti_open s)"
  shows "\<exists>p. get_next_loop True (ts_pool (ti_server s)) = (Some (loop_number (ts_pool (ti_server s)) 0), p) \<and>
    accept_one True (Accepted fd True True) s = (True, with_connection fd p s)"
proof -
  obtain l p where p: "get_next_loop True (ts_pool (ti_server s)) = (l, p)" by fastforce
  have "pool_wf (ts_pool (ti_server s))" "tp_started (ts_pool (ti_server s))"
    using assms(1,2) by (simp_all add: io_ok_def pool_ok_def Let_def)
  then have "l = Some (loop_number (ts_pool (ti_server s)) 0)" using get_next_loop_started(1) p by blast
  then show ?thesis
    using p fresh_not_in_table [OF assms(1,3)]
    by (simp add: accept_one_def set_server_def add_connection_def run_on_def queue_on_def with_connection_def Let_def)
qed

lemma with_connection_ok:
  assumes "io_ok s" and "ts_started (ti_server s)" and fd: "0 \<le> fd" "fd \<notin> set (ti_open s)"
    and p: "get_next_loop True (ts_pool (ti_server s)) = (l, p)"
  shows "accepts [fd] s (with_connection fd p s)"
proof -
  let ?t = "with_connection fd p s" and ?n = "length (ti_conns s)"
  have s: "tasks_ok s" "table_ok s" "alive_ok s" "once_ok s" "pool_ok s" using assms(1) by (simp_all add: io_ok_def)
  have pw: "pool_wf (ts_pool (ti_server s))" "tp_started (ts_pool (ti_server s))"
    using s(5) assms(2) by (simp_all add: pool_ok_def Let_def)
  note pn = get_next_loop_started [OF pw p] pool_wf_next [OF pw(1) p]
  have t: "ti_conns ?t = ti_conns s @ [(fd, loop_number (ts_pool (ti_server s)) 0)]" "ts_pool (ti_server ?t) = p"
    "ti_dead ?t = ti_dead s" "ti_destroyed ?t = ti_destroyed s" "ti_open ?t = fd # ti_open s"
    "ts_listen_fd (ti_server ?t) = ts_listen_fd (ti_server s)" "ts_started (ti_server ?t)"
    "ts_connections (ti_server ?t) = um_assign fd ?n (ts_connections (ti_server s))"
    "ts_base (ti_server ?t) = ts_base (ti_server s)" "ts_closed_callback (ti_server ?t) = ts_closed_callback (ti_server s)"
    "ti_closed ?t = ti_closed s"
    using assms(2) by (simp_all add: with_connection_def Let_def)
  have cf: "conn_fd ?t c = (if c = ?n then fd else conn_fd s c)" "conn_home ?t c = (if c = ?n then loop_number (ts_pool (ti_server s)) 0 else conn_home s c)"
    if "c \<le> ?n" for c
    using that by (auto simp: conn_fd_def conn_home_def t nth_append)
  have new: "?n \<notin> set (ti_destroyed s)" "?n \<notin> set (ti_dead s)"
    using s(4) unfolding once_ok_def by (metis less_irrefl)+
  have "tasks_ok ?t"
  proof -
    have "task_ok (ti_conns s @ [y]) x" if "task_ok (ti_conns s) x" for x y
      using that by (cases "(ti_conns s, x)" rule: task_ok.cases) (auto simp: nth_append)
    then show ?thesis using s(1) by (auto simp: tasks_ok_def with_connection_def Let_def nth_append)
  qed
  moreover have "table_ok ?t"
  proof -
    have "um_find fd' (ts_connections (ti_server ?t)) = Some c \<longleftrightarrow>
        c < Suc ?n \<and> c \<notin> set (ti_destroyed s) \<and> conn_fd ?t c = fd'" for fd' c
    proof (cases "c = ?n")
      case True
      have "um_find fd' (ts_connections (ti_server s)) \<noteq> Some ?n" using s(2) by (simp add: table_ok_def)
      then show ?thesis using True cf new by (auto simp: t)
    next
      case False
      have "\<not> um_contains fd (ts_connections (ti_server s))" by (rule fresh_not_in_table [OF assms(1) fd(2)])
      then have "conn_fd s c \<noteq> fd" if "c < ?n" "c \<notin> set (ti_destroyed s)"
        using in_table [OF assms(1) that(1)] that(2) by (auto simp: um_contains_def)
      then show ?thesis using False cf s(2) by (auto simp: t table_ok_def less_Suc_eq)
    qed
    then show ?thesis using s(2) by (simp add: table_ok_def t(1,4)) (simp add: t(8))
  qed
  moreover have "alive_ok ?t"
    using s(3) fd cf by (auto simp: alive_ok_def t less_Suc_eq)
  moreover have "destroys_due ?t = destroys_due s" by (auto simp: destroys_due_def with_connection_def Let_def fun_eq_iff)
  then have "once_ok ?t" using s(4) unfolding once_ok_def t by (auto simp: less_Suc_eq split: if_splits)
  moreover have "pool_ok ?t"
    using s(5) pn pw cf assms(2) p
    by (auto simp: pool_ok_def Let_def t less_Suc_eq get_next_loop_def split: if_splits)
  ultimately show ?thesis
    using assms(1,2) p by (auto simp: accepts_def io_ok_def t) (auto simp: with_connection_def Let_def get_next_loop_def split: if_splits)
qed

text \<open>A descriptor that is closed at once leaves nothing behind.\<close>

lemma close_client_ok:
  assumes "io_ok s" and "fd \<notin> set (ti_open s)"
  shows "accepts [] s (close_client fd (s\<lparr>ti_open := fd # ti_open s\<rparr>))"
proof -
  let ?t = "close_client fd (s\<lparr>ti_open := fd # ti_open s\<rparr>)"
  have "alive_ok s" "pool_ok s" using assms(1) by (simp_all add: io_ok_def)
  then have "alive_ok ?t" "pool_ok ?t"
    using assms(2) by (auto simp: close_client_def intro: alive_frame pool_ok_frame)
  then have "io_ok ?t" by (intro io_ok_frame [OF assms(1)]) (simp_all add: close_client_def)
  then show ?thesis by (simp add: accepts_def close_client_def)
qed

lemma accepts_self: "io_ok s \<Longrightarrow> accepts [] s s"
  by (simp add: accepts_def)

lemma accept_loop_ok:
  "io_ok s \<Longrightarrow> ts_started (ti_server s) \<Longrightarrow> kernel_ok as s \<Longrightarrow> accepts (accepted_fds as) s (accept_loop True as s)"
proof (induction as arbitrary: s)
  case (Cons a as)
  note prems = Cons.prems
  show ?case
  proof (cases a)
    case (Accepted fd getfl setfl)
    have fd: "0 \<le> fd" "fd \<notin> set (ti_open s)" using prems(3) Accepted by simp_all
    show ?thesis
    proof (cases "getfl \<and> setfl")
      case True
      obtain p where p: "get_next_loop True (ts_pool (ti_server s)) = (Some (loop_number (ts_pool (ti_server s)) 0), p)"
          "accept_one True (Accepted fd True True) s = (True, with_connection fd p s)"
        using accept_one_added [OF prems(1,2) fd(2)] by blast
      have w: "accepts [fd] s (with_connection fd p s)" by (rule with_connection_ok [OF prems(1,2) fd p(1)])
      have "accepts (accepted_fds as) (with_connection fd p s) (accept_loop True as (with_connection fd p s))"
        by (rule Cons.IH) (use w prems p(2) Accepted True in \<open>auto simp: accepts_def\<close>)
      from accepts_trans [OF w this] show ?thesis using Accepted True p(2) by simp
    next
      case False
      let ?t = "close_client fd (s\<lparr>ti_open := fd # ti_open s\<rparr>)"
      have one: "accept_one True a s = (True, ?t)" using Accepted False by (auto simp: accept_one_def Let_def)
      have w: "accepts [] s ?t" by (rule close_client_ok [OF prems(1) fd(2)])
      have "accepts (accepted_fds as) ?t (accept_loop True as ?t)"
        by (rule Cons.IH) (use w prems one in \<open>auto simp: accepts_def\<close>)
      from accepts_trans [OF w this] show ?thesis using Accepted False one by auto
    qed
  qed (use Cons accepts_self in \<open>simp_all add: accept_one_def\<close>)
qed (simp add: accepts_self)

lemma handle_accept_ok:
  assumes "io_ok s" and "kernel_ok as s"
  shows "accepts (if ts_started (ti_server s) \<and> ts_listen_registered (ti_server s) \<and> ts_listen_fd (ti_server s) \<noteq> -1 \<and>
    events AND EPOLLIN \<noteq> 0 then accepted_fds as else []) s (handle_accept True events as s)"
  using accept_loop_ok [OF assms(1) _ assms(2)] accepts_self [OF assms(1)] assms(1)
  by (auto simp: handle_accept_def io_ok_def)

section \<open>Shutting down\<close>

definition work_ok :: "tcp_io \<Rightarrow> bool" where
  "work_ok s \<longleftrightarrow> tasks_ok s \<and> alive_ok s \<and> once_ok s \<and> pool_ok s"

lemma note_destroyed_now_ok:
  assumes "work_ok s" and "c < length (ti_conns s)" and "c \<notin> set (ti_destroyed s)"
  shows "work_ok (note_destroyed c (destroy_conn c s))"
proof -
  let ?u = "destroy_conn c s" and ?v = "note_destroyed c (destroy_conn c s)"
  have s: "tasks_ok s" "alive_ok s" "once_ok s" "pool_ok s" using assms(1) by (simp_all add: work_ok_def)
  have v: "ti_conns ?v = ti_conns s" "ti_pending ?v = ti_pending s" "ti_dead ?v = ti_dead ?u" "ti_destroyed ?v = ti_destroyed s @ [c]"
      "ti_open ?v = ti_open ?u" "ti_server ?v = ti_server s"
    by (simp_all add: note_destroyed_def)
  have o: "if d \<in> set (ti_destroyed s) then d < length (ti_conns s) \<and> destroys_due s d + count_list (ti_dead s) d = 1
      else destroys_due s d = 0 \<and> d \<notin> set (ti_dead s)" for d
    using s(3) unfolding once_ok_def by blast
  have dead: "ti_dead ?u = c # ti_dead s" "c \<notin> set (ti_dead s)" using o [of c] assms(3) by (auto simp: destroy_conn_def)
  have "destroys_due ?v d = destroys_due s d" for d by (simp add: destroys_due_def v)
  moreover have "count_list (ti_dead s) c = 0" using dead(2) by (simp add: count_list_0_iff)
  ultimately have "once_ok ?v"
    using s(3) o assms(2,3) dead unfolding once_ok_def v by (auto split: if_splits)
  moreover have "tasks_ok ?v" using s(1) by (simp add: tasks_ok_def v)
  moreover have "alive_ok ?v" by (rule alive_frame [OF alive_destroy [OF s(2) assms(2)]]) (simp_all add: v)
  moreover have "pool_ok ?v" by (rule pool_ok_frame [OF s(4)]) (simp_all add: v)
  ultimately show ?thesis by (simp add: work_ok_def)
qed

lemma destroy_entry_ok:
  assumes "work_ok s" and "snd x < length (ti_conns s)" and "snd x \<notin> set (ti_destroyed s)"
  shows "work_ok (destroy_entry x s)" and "ti_conns (destroy_entry x s) = ti_conns s"
    and "ti_destroyed (destroy_entry x s) = ti_destroyed s @ [snd x]" and "ti_closed (destroy_entry x s) = ti_closed s"
    and "ti_server (destroy_entry x s) = ti_server s"
proof -
  have e: "destroy_entry x s = (if conn_home s (snd x) = BaseLoop then note_destroyed (snd x) (destroy_conn (snd x) s) else handed (snd x) s)"
    by (simp add: destroy_entry_def run_on_def handed_def Let_def)
  show "work_ok (destroy_entry x s)"
    using note_destroyed_now_ok [OF assms] handed_ok [OF assms(2,3)] assms(1) by (simp add: e) (simp add: work_ok_def)
  show "ti_conns (destroy_entry x s) = ti_conns s" "ti_destroyed (destroy_entry x s) = ti_destroyed s @ [snd x]"
    "ti_closed (destroy_entry x s) = ti_closed s" "ti_server (destroy_entry x s) = ti_server s"
    by (simp_all add: e note_destroyed_def)
qed

lemma fold_destroy:
  "work_ok s \<Longrightarrow> distinct (map snd es) \<Longrightarrow> (\<forall>x \<in> set es. snd x < length (ti_conns s) \<and> snd x \<notin> set (ti_destroyed s)) \<Longrightarrow>
   work_ok (fold destroy_entry es s) \<and> ti_conns (fold destroy_entry es s) = ti_conns s \<and>
   ti_destroyed (fold destroy_entry es s) = ti_destroyed s @ map snd es \<and>
   ti_closed (fold destroy_entry es s) = ti_closed s \<and> ti_server (fold destroy_entry es s) = ti_server s"
proof (induction es arbitrary: s)
  case (Cons x es)
  have x: "snd x < length (ti_conns s)" "snd x \<notin> set (ti_destroyed s)" using Cons.prems(3) by simp_all
  note e = destroy_entry_ok [OF Cons.prems(1) x]
  have "\<forall>y \<in> set es. snd y < length (ti_conns s) \<and> snd y \<notin> set (ti_destroyed s @ [snd x])"
    using Cons.prems(2,3) by (auto simp: image_iff)
  with Cons.IH [OF e(1)] Cons.prems(2) show ?case unfolding e(2-5) by simp
qed simp

lemma destructor_ok:
  assumes "io_ok s"
    and t_def: "t = server_destructor True ctl_ok s"
  shows "io_ok t" and "ti_conns t = ti_conns s" and "ti_closed t = ti_closed s"
    and "\<And>c. c < length (ti_conns s) \<Longrightarrow> c \<in> set (ti_destroyed t)"
proof -
  let ?m = "ts_connections (ti_server s)"
  define s2 where "s2 = set_server ((ti_server s)\<lparr>ts_listen_registered := False, ts_listen_fd := -1, ts_started := False\<rparr>)
    (close_listen_socket True ctl_ok s)"
  define s3 where "s3 = fold destroy_entry ?m s2"
  have t: "t = set_server ((ti_server s3)\<lparr>ts_connections := []\<rparr>) s3"
    using assms(1) by (simp add: t_def server_destructor_def s2_def s3_def io_ok_def set_server_def Let_def)
  have c: "io_ok (close_listen_socket True ctl_ok s)" by (rule close_listen_ok [OF assms(1)])
  have f: "ti_conns s2 = ti_conns s" "ti_pending s2 = ti_pending s" "ti_dead s2 = ti_dead s" "ti_destroyed s2 = ti_destroyed s"
      "ti_closed s2 = ti_closed s" "ti_server s2 = (ti_server s)\<lparr>ts_listen_registered := False, ts_listen_fd := -1, ts_started := False\<rparr>"
    by (simp_all add: s2_def set_server_def)
  have "alive_ok (close_listen_socket True ctl_ok s)" "pool_ok (close_listen_socket True ctl_ok s)" "tasks_ok s" "once_ok s"
    using c assms(1) by (simp_all add: io_ok_def)
  moreover have "destroys_due s2 = destroys_due s" by (simp add: destroys_due_def f fun_eq_iff)
  ultimately have w: "work_ok s2"
    unfolding work_ok_def tasks_ok_def once_ok_def f
    by (auto intro: alive_frame pool_ok_frame simp: s2_def set_server_def once_ok_def)
  have tbl: "um_wf ?m" "\<And>fd c. (fd, c) \<in> set ?m \<longleftrightarrow> c < length (ti_conns s) \<and> c \<notin> set (ti_destroyed s) \<and> conn_fd s c = fd"
    using assms(1) um_entries_find [of ?m] by (auto simp: io_ok_def table_ok_def)
  have "distinct (map snd ?m)"
    unfolding distinct_map
  proof
    show "distinct ?m" using tbl(1) by (simp add: um_wf_def distinct_map)
    show "inj_on snd (set ?m)" using tbl(2) by (auto simp: inj_on_def)
  qed
  moreover have "\<forall>x \<in> set ?m. snd x < length (ti_conns s2) \<and> snd x \<notin> set (ti_destroyed s2)" using tbl(2) by (auto simp: f)
  ultimately have s3: "work_ok s3" "ti_conns s3 = ti_conns s" "ti_destroyed s3 = ti_destroyed s @ map snd ?m" "ti_closed s3 = ti_closed s"
      "ti_server s3 = ti_server s2"
    using fold_destroy [OF w] by (simp_all add: s3_def f)
  show cl: "ti_conns t = ti_conns s" "ti_closed t = ti_closed s" by (simp_all add: t set_server_def s3)
  have td: "ti_destroyed t = ti_destroyed s @ map snd ?m" by (simp add: t set_server_def s3)
  show all: "c \<in> set (ti_destroyed t)" if "c < length (ti_conns s)" for c
    using tbl(2) [of "conn_fd s c" c] that by (force simp: td)
  have "destroys_due t = destroys_due s3" by (simp add: destroys_due_def t set_server_def fun_eq_iff)
  then have "once_ok t = once_ok s3" by (simp add: once_ok_def t set_server_def)
  moreover have "tasks_ok t = tasks_ok s3" by (simp add: tasks_ok_def t set_server_def)
  moreover have "alive_ok t" by (rule alive_frame [of s3]) (use s3(1) in \<open>simp_all add: work_ok_def t set_server_def\<close>)
  moreover have "pool_ok t" by (rule pool_ok_frame [of s3]) (use s3(1) in \<open>simp_all add: work_ok_def t set_server_def\<close>)
  moreover have "table_ok t" using all cl(1) by (auto simp: table_ok_def) (simp_all add: t set_server_def)
  moreover have "ts_base (ti_server t)" "ts_closed_callback (ti_server t)"
    using assms(1) by (simp_all add: t set_server_def s3 f io_ok_def)
  ultimately show "io_ok t" using s3(1) by (simp add: io_ok_def work_ok_def)
qed

section \<open>Steps\<close>

lemma tcp_invD:
  assumes "tcp_inv w"
  shows "io_ok (tw_io w)" and "set (tw_notified w) \<subseteq> {..<length (ti_conns (tw_io w))}"
    and "\<not> tw_gone w \<Longrightarrow> ti_closed (tw_io w) = ti_destroyed (tw_io w)"
    and "\<not> tw_gone w \<Longrightarrow> set (ti_destroyed (tw_io w)) \<subseteq> set (tw_notified w)"
    and "\<not> tw_gone w \<Longrightarrow> c \<in> set (tw_notified w) \<Longrightarrow>
      c \<in> set (ti_destroyed (tw_io w)) \<or> (BaseLoop, RemoveTask c) \<in> set (ti_pending (tw_io w))"
    and "\<not> tw_gone w \<Longrightarrow> (l, RemoveTask c) \<in> set (ti_pending (tw_io w)) \<Longrightarrow> c \<in> set (tw_notified w)"
    and "tw_gone w \<Longrightarrow> c < length (ti_conns (tw_io w)) \<Longrightarrow> c \<in> set (ti_destroyed (tw_io w))"
    and "tw_gone w \<Longrightarrow> distinct (ti_closed (tw_io w))"
  using assms by (auto simp: tcp_inv_def Let_def)

text \<open>A step that neither removes a connection nor touches the queued removals.\<close>

lemma tcp_inv_quiet:
  assumes "tcp_inv w" and "io_ok s" and "ti_destroyed s = ti_destroyed (tw_io w)" and "ti_closed s = ti_closed (tw_io w)"
    and "length (ti_conns (tw_io w)) \<le> length (ti_conns s)"
    and "tw_gone w \<Longrightarrow> length (ti_conns (tw_io w)) = length (ti_conns s)"
    and "\<And>l c. (l, RemoveTask c) \<in> set (ti_pending s) \<longleftrightarrow> (l, RemoveTask c) \<in> set (ti_pending (tw_io w))"
  shows "tcp_inv (with_io s w)"
  using assms by (auto simp: tcp_inv_def with_io_def Let_def)

lemma tcp_start_inv:
  assumes "tcp_inv w" and "le_socket e \<notin> set (ti_open (tw_io w))"
  shows "tcp_inv (with_io (snd (ts_start True e valid (tw_io w))) w)"
proof -
  obtain ok t where t: "ts_start True e valid (tw_io w) = (ok, t)" by fastforce
  note o = ts_start_ok [OF tcp_invD(1) [OF assms(1)] assms(2) t]
  show ?thesis unfolding t snd_conv by (rule tcp_inv_quiet [OF assms(1)]) (use o in simp_all)
qed

lemma tcp_accept_inv:
  assumes "tcp_inv w" and "kernel_ok as (tw_io w)" and "\<not> tw_gone w"
  shows "tcp_inv (with_io (handle_accept True events as (tw_io w)) w)"
proof -
  obtain fds where o: "accepts fds (tw_io w) (handle_accept True events as (tw_io w))"
    using handle_accept_ok [OF tcp_invD(1) [OF assms(1)] assms(2)] by blast
  from o have "map fst (ti_conns (handle_accept True events as (tw_io w))) = map fst (ti_conns (tw_io w)) @ fds"
    by (simp add: accepts_def)
  from arg_cong [OF this, of length]
  have "length (ti_conns (tw_io w)) \<le> length (ti_conns (handle_accept True events as (tw_io w)))" by simp
  then show ?thesis
    by (intro tcp_inv_quiet [OF assms(1)]) (use o assms(3) in \<open>simp_all add: accepts_def\<close>)
qed

text \<open>Removing a connection that has called back.\<close>

lemma tcp_remove_inv:
  assumes "tcp_inv w" and "\<not> tw_gone w" and "io_ok s" and "c \<in> set notified"
    and s: "ti_conns s = ti_conns (tw_io w)" "ti_destroyed s = ti_destroyed (tw_io w)" "ti_closed s = ti_closed (tw_io w)"
    and notified: "set notified = insert c (set (tw_notified w))" and "c < length (ti_conns s)"
    and pending: "\<And>l d. (l, RemoveTask d) \<in> set (ti_pending s) \<Longrightarrow> (l, RemoveTask d) \<in> set (ti_pending (tw_io w))"
      "\<And>d. d \<noteq> c \<Longrightarrow> (BaseLoop, RemoveTask d) \<in> set (ti_pending (tw_io w)) \<Longrightarrow> (BaseLoop, RemoveTask d) \<in> set (ti_pending s)"
  shows "tcp_inv (with_io (remove_connection_in_loop True c s) (w\<lparr>tw_notified := notified\<rparr>))"
proof -
  let ?t = "remove_connection_in_loop True c s"
  have r: "?t = (if c \<in> set (ti_destroyed s) then s else handed c (taken_out c s))" by (rule remove_eq [OF assms(3,9)])
  have t: "ti_conns ?t = ti_conns s" "set (ti_destroyed ?t) = insert c (set (ti_destroyed s))" "ti_closed ?t = ti_destroyed ?t"
      "(l, RemoveTask d) \<in> set (ti_pending ?t) \<longleftrightarrow> (l, RemoveTask d) \<in> set (ti_pending s)" for l d
    using tcp_invD(3) [OF assms(1,2)] s by (auto simp: r) (auto simp: taken_out_def)
  have old: "\<And>d. d \<in> set (tw_notified w) \<Longrightarrow> d \<in> set (ti_destroyed (tw_io w)) \<or> (BaseLoop, RemoveTask d) \<in> set (ti_pending (tw_io w))"
    using tcp_invD(5) [OF assms(1,2)] by blast
  have "io_ok ?t" by (rule remove_ok [OF assms(3,9)])
  then show ?thesis
    using tcp_invD(2,4) [OF assms(1)] tcp_invD(6) [OF assms(1,2)] old assms(2,9) s notified pending t
    unfolding tcp_inv_def with_io_def Let_def by (simp, blast)
qed

lemma queue_removal_inv:
  assumes "tcp_inv w" and "c < length (ti_conns (tw_io w))"
  shows "tcp_inv (with_io (queue_on BaseLoop (RemoveTask c) (tw_io w)) (w\<lparr>tw_notified := c # tw_notified w\<rparr>))"
proof -
  let ?s = "tw_io w"
  let ?t = "queue_on BaseLoop (RemoveTask c) ?s"
  have i: "tasks_ok ?s" "table_ok ?s" "alive_ok ?s" "once_ok ?s" "pool_ok ?s" using tcp_invD(1) [OF assms(1)] by (simp_all add: io_ok_def)
  have "destroys_due ?t = destroys_due ?s" by (simp add: destroys_due_def queue_on_def fun_eq_iff)
  then have "once_ok ?t = once_ok ?s" by (simp only: once_ok_def) (simp add: queue_on_def)
  moreover have "tasks_ok ?t" using i(1) assms(2) by (simp add: tasks_ok_def queue_on_def)
  moreover have "table_ok ?t" using i(2) by (simp add: table_ok_def queue_on_def conn_fd_def)
  moreover have "alive_ok ?t" by (rule alive_frame [OF i(3)]) (simp_all add: queue_on_def)
  moreover have "pool_ok ?t" by (rule pool_ok_frame [OF i(5)]) (simp_all add: queue_on_def)
  ultimately have "io_ok ?t" using tcp_invD(1) [OF assms(1)] i(4) by (simp add: io_ok_def) (simp add: queue_on_def)
  then show ?thesis
    using assms(2) tcp_invD(2-8) [OF assms(1)] by (auto simp: tcp_inv_def with_io_def Let_def queue_on_def)
qed

lemma tcp_close_inv:
  assumes "tcp_inv w" and "c < length (ti_conns (tw_io w))" and "c \<notin> set (tw_notified w)" and "\<not> (here \<and> tw_gone w)"
  shows "tcp_inv (with_io (remove_connection here c (tw_io w)) (w\<lparr>tw_notified := c # tw_notified w\<rparr>))"
proof (cases here)
  case True
  have "ts_base (ti_server (tw_io w))" using tcp_invD(1) [OF assms(1)] by (simp add: io_ok_def)
  then show ?thesis
    using True tcp_remove_inv [OF assms(1) _ tcp_invD(1) [OF assms(1)], of c "c # tw_notified w"] assms(2,4)
    by (simp add: remove_connection_def)
next
  case False
  have "ts_base (ti_server (tw_io w))" using tcp_invD(1) [OF assms(1)] by (simp add: io_ok_def)
  then show ?thesis using False queue_removal_inv [OF assms(1,2)] by (simp add: remove_connection_def)
qed

lemma tcp_task_inv:
  assumes "tcp_inv w" and "ti_pending (tw_io w) = xs @ (l, x) # ys" and "\<not> (l = BaseLoop \<and> tw_gone w)"
  shows "tcp_inv (with_io (run_srv_task True x ((tw_io w)\<lparr>ti_pending := xs @ ys\<rparr>)) w)"
proof -
  let ?s = "(tw_io w)\<lparr>ti_pending := xs @ ys\<rparr>"
  note i = tcp_invD(1) [OF assms(1)]
  have ok: "task_ok (ti_conns (tw_io w)) (l, x)" using i assms(2) by (simp add: io_ok_def tasks_ok_def)
  show ?thesis
  proof (cases x)
    case (RemoveTask c)
    then have l: "l = BaseLoop" "\<not> tw_gone w" "c < length (ti_conns (tw_io w))" using ok assms(3) by auto
    have n: "c \<in> set (tw_notified w)" by (rule tcp_invD(6) [OF assms(1) l(2), of l]) (simp add: assms(2) RemoveTask)
    have "tcp_inv (with_io (remove_connection_in_loop True c ?s) (w\<lparr>tw_notified := tw_notified w\<rparr>))"
      by (rule tcp_remove_inv [OF assms(1) l(2) dequeue_quiet [OF i assms(2)]])
        (use n l assms(2) RemoveTask in auto)
    then show ?thesis using RemoveTask by simp
  next
    case (EstablishConn c)
    show ?thesis
      by (rule tcp_inv_quiet [OF assms(1)]) (use dequeue_quiet [OF i assms(2)] assms(2) EstablishConn in auto)
  next
    case (DestroyConn c)
    have "io_ok (destroy_conn c ?s)" using run_destroy_ok [OF i] assms(2) DestroyConn by blast
    then show ?thesis
      by (intro tcp_inv_quiet [OF assms(1)]) (use assms(2) DestroyConn in auto)
  qed
qed

lemma tcp_drop_inv:
  assumes "tcp_inv w" and "\<not> tw_gone w"
  shows "tcp_inv (with_io (server_destructor True ctl_ok (tw_io w)) (w\<lparr>tw_gone := True\<rparr>))"
proof -
  note d = destructor_ok [OF tcp_invD(1) [OF assms(1)] refl, where ctl_ok = ctl_ok]
  have "distinct (ti_closed (tw_io w))"
    using tcp_invD(3) [OF assms] tcp_invD(1) [OF assms(1)] by (simp add: io_ok_def once_ok_def)
  then show ?thesis
    using d tcp_invD(2) [OF assms(1)] by (simp add: tcp_inv_def with_io_def Let_def)
qed

lemma tcp_inv_step:
  assumes "tcp_inv w" and "tcp_step w w'"
  shows "tcp_inv w'"
  using assms(2)
proof cases
  case (tw_timeouts timeout)
  have i: "alive_ok (tw_io w)" "pool_ok (tw_io w)" using tcp_invD(1) [OF assms(1)] by (simp_all add: io_ok_def)
  let ?t = "check_timeouts True timeout (tw_io w)"
  have t: "ti_conns ?t = ti_conns (tw_io w)" "ti_pending ?t = ti_pending (tw_io w)" "ti_dead ?t = ti_dead (tw_io w)"
    "ti_destroyed ?t = ti_destroyed (tw_io w)" "ti_closed ?t = ti_closed (tw_io w)" "ti_server ?t = ti_server (tw_io w)"
    "ti_open ?t = ti_open (tw_io w)"
    by (simp_all add: check_timeouts_def)
  have "alive_ok ?t" by (rule alive_frame [OF i(1)]) (simp_all add: t)
  moreover have "pool_ok ?t" by (rule pool_ok_frame [OF i(2)]) (simp_all add: t)
  ultimately have "io_ok ?t" by (intro io_ok_frame [OF tcp_invD(1) [OF assms(1)]]) (simp_all add: t)
  then show ?thesis unfolding tw_timeouts by (intro tcp_inv_quiet [OF assms(1)]) (simp_all add: t)
next
  case (tw_fds fds)
  have i: "alive_ok (tw_io w)" "pool_ok (tw_io w)" using tcp_invD(1) [OF assms(1)] by (simp_all add: io_ok_def)
  let ?t = "(tw_io w)\<lparr>ti_open := fds\<rparr>"
  have "alive_ok ?t" using i(1) tw_fds(2) by (simp add: alive_ok_def fds_frame_def conn_fd_def)
  moreover have "pool_ok ?t" by (rule pool_ok_frame [OF i(2)]) simp_all
  ultimately have "io_ok ?t" by (intro io_ok_frame [OF tcp_invD(1) [OF assms(1)]]) simp_all
  then show ?thesis unfolding tw_fds by (intro tcp_inv_quiet [OF assms(1)]) simp_all
next
  case (tw_base base)
  have i: "alive_ok (tw_io w)" "pool_ok (tw_io w)" using tcp_invD(1) [OF assms(1)] by (simp_all add: io_ok_def)
  let ?t = "(tw_io w)\<lparr>ti_base := base\<rparr>"
  have "alive_ok ?t" by (rule alive_frame [OF i(1)]) simp_all
  moreover have "pool_ok ?t" by (rule pool_ok_frame [OF i(2)]) simp_all
  ultimately have "io_ok ?t" by (intro io_ok_frame [OF tcp_invD(1) [OF assms(1)]]) simp_all
  then show ?thesis unfolding tw_base by (intro tcp_inv_quiet [OF assms(1)]) simp_all
qed (use assms(1) tcp_start_inv tcp_accept_inv tcp_close_inv tcp_task_inv tcp_drop_inv in simp_all)

lemma tcp_inv_started:
  assumes "tcp_started w"
  shows "tcp_inv w"
  using assms
  by (auto simp: tcp_started_def tcp_inv_def Let_def io_ok_def tasks_ok_def table_ok_def alive_ok_def once_ok_def destroys_due_def pool_ok_def
      ts_set_connection_closed_callback_def ts_set_message_callback_def TcpServer_new_def EventLoopThreadPool_new_def pool_wf_def)

interpretation tcp_server: invariant_system tcp_started tcp_step tcp_inv
  by unfold_locales (auto intro: tcp_inv_started tcp_inv_step)

end
