(* ===== verification/Tcp_Claims.thy ===== *)
theory Tcp_Claims
  imports Tcp_World
begin

text \<open>What holds of the server and its connections at every moment, with a run that shows it.\<close>

text \<open>C11: every accepted connection is closed exactly once. It is in the table, under its own
  descriptor, from when it is accepted until it is handed to its loop for destruction, which
  happens at most once, and then \<open>connect_destroyed\<close> is queued exactly once, on the
  connection's own loop, or has run. Until it has run the descriptor is open, and no other
  connection that is not destroyed has the same one, so that a close that is handled late never
  hits a newer connection. While the server exists the closed callback has been called for
  exactly the connections handed over, in that order, only for such as have called back, and each
  that has called back is handed over or waits in the base loop's queue. When the server is
  destroyed every connection is handed over.\<close>

theorem every_connection_is_closed_once:
  assumes "reach tcp_started tcp_step w" and "c < length (ti_conns (tw_io w))"
  shows "let s = tw_io w in
    (um_find (conn_fd s c) (ts_connections (ti_server s)) = Some c \<longleftrightarrow> c \<notin> set (ti_destroyed s)) \<and>
    count_list (ti_destroyed s) c \<le> 1 \<and>
    (c \<in> set (ti_destroyed s) \<longrightarrow>
       count_list (ti_pending s) (conn_home s c, DestroyConn c) = (if c \<in> set (ti_dead s) then 0 else 1)) \<and>
    (c \<notin> set (ti_dead s) \<longrightarrow> conn_fd s c \<in> set (ti_open s) \<and>
       (\<forall>d<length (ti_conns s). d \<notin> set (ti_dead s) \<longrightarrow> conn_fd s d = conn_fd s c \<longrightarrow> d = c)) \<and>
    (\<not> tw_gone w \<longrightarrow> ti_closed s = ti_destroyed s \<and> (c \<in> set (ti_destroyed s) \<longrightarrow> c \<in> set (tw_notified w)) \<and>
       (c \<in> set (tw_notified w) \<longrightarrow> c \<in> set (ti_destroyed s) \<or> (BaseLoop, RemoveTask c) \<in> set (ti_pending s))) \<and>
    (tw_gone w \<longrightarrow> c \<in> set (ti_destroyed s))"
proof -
  have inv: "tcp_inv w" using assms(1) by (rule tcp_server.reach_inv)
  let ?s = "tw_io w"
  note i = tcp_invD [OF inv]
  have o: "once_ok ?s" "alive_ok ?s" "tasks_ok ?s" using i(1) by (simp_all add: io_ok_def)
  have n: "count_list (ti_destroyed ?s) c \<le> 1" using o(1) by (simp add: once_ok_def distinct_count)
  have d: "destroys_due ?s c = (if c \<in> set (ti_dead ?s) then 0 else 1)" if "c \<in> set (ti_destroyed ?s)"
    using o(1) that unfolding once_ok_def by (auto simp: distinct_count split: if_splits)
  have "count_list ps (l, DestroyConn c) = count_list (map snd ps) (DestroyConn c)"
    if "\<forall>x \<in> set ps. snd x = DestroyConn c \<longrightarrow> fst x = l" for ps :: "(loop_ref \<times> srv_task) list" and l
    using that by (induction ps) auto
  moreover have "\<forall>x \<in> set (ti_pending ?s). snd x = DestroyConn c \<longrightarrow> fst x = conn_home ?s c"
    using o(3) by (auto simp: tasks_ok_def conn_home_def)
  ultimately have "count_list (ti_pending ?s) (conn_home ?s c, DestroyConn c) = destroys_due ?s c" by (simp add: destroys_due_def)
  then show ?thesis
    using in_table [OF i(1) assms(2)] n d o(2) i(3,4,7) i(5) [of c] assms(2) unfolding alive_ok_def Let_def by auto
qed

text \<open>C12: no connection is turned away and the loops share them evenly. When the listening socket
  is ready, every descriptor that \<open>accept\<close> yields before it would block or fails, and that can be
  made non-blocking, becomes a connection of the table: no descriptor of a new connection is ever
  found there already. The connections go to the loops in turn, so that connection number \<open>c\<close>
  lives on loop \<open>c\<close> modulo the number of threads, or on the base loop when there are none.\<close>

theorem accepting_shares_the_loops:
  assumes "reach tcp_started tcp_step w" and "\<not> tw_gone w" and "kernel_ok as (tw_io w)"
    and "ts_started (ti_server (tw_io w))" and "ts_listen_registered (ti_server (tw_io w))"
    and "ts_listen_fd (ti_server (tw_io w)) \<noteq> -1" and "events AND EPOLLIN \<noteq> 0"
  shows "let s = tw_io w; t = handle_accept True events as s; threads = tp_thread_count (ts_pool (ti_server s)) in
    map fst (ti_conns t) = map fst (ti_conns s) @ accepted_fds as \<and>
    (\<forall>c<length (ti_conns t). conn_home t c = (if threads = 0 then BaseLoop else IoLoop (c mod threads))) \<and>
    (\<forall>c<length (ti_conns t). length (ti_conns s) \<le> c \<longrightarrow> um_find (conn_fd t c) (ts_connections (ti_server t)) = Some c)"
proof -
  have i: "io_ok (tw_io w)" by (rule tcp_invD(1) [OF tcp_server.reach_inv [OF assms(1)]])
  define t where "t = handle_accept True events as (tw_io w)"
  have o: "accepts (accepted_fds as) (tw_io w) t"
    using handle_accept_ok [OF i assms(3), of events] assms(4-7) by (simp add: t_def)
  then have t: "io_ok t" "ti_destroyed t = ti_destroyed (tw_io w)"
      "tp_thread_count (ts_pool (ti_server t)) = tp_thread_count (ts_pool (ti_server (tw_io w)))"
      "map fst (ti_conns t) = map fst (ti_conns (tw_io w)) @ accepted_fds as"
    by (simp_all add: accepts_def)
  have "c \<notin> set (ti_destroyed t)" if "length (ti_conns (tw_io w)) \<le> c" for c
    using i that unfolding t(2) io_ok_def once_ok_def by (metis linorder_not_le)
  then show ?thesis
    using t in_table [OF t(1)] by (auto simp: Let_def io_ok_def pool_ok_def nth_loop_def t_def [symmetric])
qed

text \<open>A server with two threads accepts three connections; the second closes, and its descriptor
  is used again.\<close>

definition demo_server :: tcp_world where
  "demo_server = \<lparr>tw_io = \<lparr>ti_server = ts_set_connection_closed_callback (ts_set_message_callback (TcpServer_new True 8080 2)),
     ti_base = EventLoop_new 8 5 6 True 0, ti_conns = [], ti_open = [5, 6], ti_pending = [], ti_dead = [], ti_closed = [],
     ti_destroyed = [], ti_checks = []\<rparr>, tw_notified = [], tw_gone = False\<rparr>"

definition demo_listen :: listen_env where
  "demo_listen = \<lparr>le_socket = 7, le_setsockopt = True, le_bind = True, le_listen = True, le_getfl = True, le_setfl = True, le_ctl_ok = True, le_del_ok = True\<rparr>"

definition demo_listening :: tcp_world where
  "demo_listening = with_io (snd (ts_start True demo_listen (\<lambda>i. True) (tw_io demo_server))) demo_server"

definition demo_answers :: "accept_result list" where
  "demo_answers = [Accepted 9 True True, AcIntr, Accepted 10 True True, Accepted 11 True False, Accepted 11 True True, AcAgain]"

definition demo_accepting :: tcp_world where
  "demo_accepting = with_io (handle_accept True EPOLLIN demo_answers (tw_io demo_listening)) demo_listening"

definition demo_closing :: tcp_world where
  "demo_closing = with_io (remove_connection False 1 (tw_io demo_accepting)) (demo_accepting\<lparr>tw_notified := [1]\<rparr>)"

lemmas demo_server_defs = demo_server_def TcpServer_new_def EventLoopThreadPool_new_def ts_set_message_callback_def
  ts_set_connection_closed_callback_def EventLoop_new_def add_fd_def el_valid_def um_contains_def um_emplace_def um_find_def
  ts_start_def create_listen_socket_def set_server_def pool_start_def start_threads_loops start_loop_new EventLoopThread_new_def
  demo_listen_def demo_listening_def with_io_def

lemma demo_listening_io: "\<exists>base threads. tw_io demo_listening =
   \<lparr>ti_server = \<lparr>ts_base = True, ts_port = 8080, ts_pool =
      \<lparr>tp_base = True, tp_thread_count = 2, tp_started = True, tp_next = 0,
       tp_threads = threads, tp_loops = [IoLoop 0, IoLoop 1]\<rparr>,
      ts_listen_fd = 7, ts_listen_registered = True, ts_started = True, ts_message_callback = True, ts_closed_callback = True,
      ts_connections = []\<rparr>,
     ti_base = base, ti_conns = [], ti_open = [7, 5, 6], ti_pending = [], ti_dead = [], ti_closed = [], ti_destroyed = [], ti_checks = []\<rparr>"
  by (simp add: demo_server_defs Let_def upt_rec numeral_2_eq_2)

lemma demo_listening_reached: "reach tcp_started tcp_step demo_listening"
proof -
  have "tcp_started demo_server"
    unfolding tcp_started_def by (intro conjI exI [of _ 8080] exI [of _ 2]) (simp_all add: demo_server_def)
  then have "reach tcp_started tcp_step demo_server" by (rule reach_init)
  moreover have "tcp_step demo_server demo_listening"
    unfolding demo_listening_def by (rule tw_start) (simp_all add: demo_server_def demo_listen_def)
  ultimately show ?thesis by (rule reach_step)
qed

lemmas demo_accept_defs = demo_answers_def accept_one_def get_next_loop_def set_server_def close_client_def add_connection_def
  run_on_def queue_on_def um_contains_def um_assign_def um_find_def Let_def

lemma demo_accepting_ready: "kernel_ok demo_answers (tw_io demo_listening)" "\<not> tw_gone demo_listening"
  using demo_listening_io by (auto simp: demo_accept_defs) (simp add: demo_listening_def demo_server_def with_io_def)

lemma demo_accepting_reached: "reach tcp_started tcp_step demo_accepting"
  unfolding demo_accepting_def
  by (rule reach_step [OF demo_listening_reached tw_accept]) (rule demo_accepting_ready)+

lemma demo_accepting_io:
  "ti_conns (tw_io demo_accepting) = [(9, IoLoop 0), (10, IoLoop 1), (11, IoLoop 0)]"
  "ts_connections (ti_server (tw_io demo_accepting)) = [(9, 0), (10, 1), (11, 2)]"
  "ti_pending (tw_io demo_accepting) = [(IoLoop 0, EstablishConn 0), (IoLoop 1, EstablishConn 1), (IoLoop 0, EstablishConn 2)]"
  "ti_dead (tw_io demo_accepting) = []" "ti_destroyed (tw_io demo_accepting) = []" "ts_base (ti_server (tw_io demo_accepting))"
  "ts_closed_callback (ti_server (tw_io demo_accepting))" "ti_closed (tw_io demo_accepting) = []"
proof -
  obtain base threads where io: "tw_io demo_listening =
   \<lparr>ti_server = \<lparr>ts_base = True, ts_port = 8080, ts_pool =
      \<lparr>tp_base = True, tp_thread_count = 2, tp_started = True, tp_next = 0, tp_threads = threads, tp_loops = [IoLoop 0, IoLoop 1]\<rparr>,
      ts_listen_fd = 7, ts_listen_registered = True, ts_started = True, ts_message_callback = True, ts_closed_callback = True,
      ts_connections = []\<rparr>,
     ti_base = base, ti_conns = [], ti_open = [7, 5, 6], ti_pending = [], ti_dead = [], ti_closed = [], ti_destroyed = [], ti_checks = []\<rparr>"
    using demo_listening_io by blast
  have "tw_io demo_accepting = handle_accept True EPOLLIN demo_answers (tw_io demo_listening)"
    by (simp add: demo_accepting_def with_io_def)
  then show "ti_conns (tw_io demo_accepting) = [(9, IoLoop 0), (10, IoLoop 1), (11, IoLoop 0)]"
    "ts_connections (ti_server (tw_io demo_accepting)) = [(9, 0), (10, 1), (11, 2)]"
    "ti_pending (tw_io demo_accepting) = [(IoLoop 0, EstablishConn 0), (IoLoop 1, EstablishConn 1), (IoLoop 0, EstablishConn 2)]"
    "ti_dead (tw_io demo_accepting) = []" "ti_destroyed (tw_io demo_accepting) = []" "ts_base (ti_server (tw_io demo_accepting))"
    "ts_closed_callback (ti_server (tw_io demo_accepting))" "ti_closed (tw_io demo_accepting) = []"
    unfolding io by (simp_all add: handle_accept_def EPOLLIN_def demo_accept_defs)
qed

lemma demo_accepting_world: "tw_notified demo_accepting = []" "\<not> tw_gone demo_accepting"
  by (simp_all add: demo_accepting_def demo_listening_def with_io_def demo_server_def)

definition demo_removed :: tcp_world where
  "demo_removed = with_io (run_srv_task True (RemoveTask 1) ((tw_io demo_closing)\<lparr>ti_pending := ti_pending (tw_io demo_accepting) @ []\<rparr>)) demo_closing"

lemma demo_removed_reached: "reach tcp_started tcp_step demo_removed"
proof -
  have "tcp_step demo_accepting demo_closing"
    unfolding demo_closing_def
    using tw_close [of 1 demo_accepting False] by (simp add: demo_accepting_io demo_accepting_world conn_home_def)
  then have r: "reach tcp_started tcp_step demo_closing" by (rule reach_step [OF demo_accepting_reached])
  show ?thesis
    unfolding demo_removed_def
    by (rule reach_step [OF r tw_task [where l = BaseLoop]])
      (simp_all add: demo_closing_def with_io_def remove_connection_def queue_on_def demo_accepting_io demo_accepting_world)
qed

theorem every_connection_is_closed_once_witness:
  "ti_closed (tw_io demo_removed) = [1] \<and> 10 \<in> set (ti_open (tw_io demo_removed)) \<and>
   count_list (ti_pending (tw_io demo_removed)) (IoLoop 1, DestroyConn 1) = 1"
proof -
  have f: "ti_conns (tw_io demo_removed) = [(9, IoLoop 0), (10, IoLoop 1), (11, IoLoop 0)]" "ti_dead (tw_io demo_removed) = []"
    "ti_destroyed (tw_io demo_removed) = [1]" "\<not> tw_gone demo_removed"
    by (simp_all add: demo_removed_def demo_closing_def with_io_def remove_connection_def remove_connection_in_loop_def
        note_destroyed_def queue_on_def conn_fd_def conn_home_def set_server_def um_find_def demo_accepting_io demo_accepting_world Let_def)
  show ?thesis
    using every_connection_is_closed_once [OF demo_removed_reached, of 1] by (simp add: f conn_fd_def conn_home_def Let_def)
qed

theorem accepting_shares_the_loops_witness:
  "map (conn_home (handle_accept True EPOLLIN demo_answers (tw_io demo_listening))) [0, 1, 2] = [IoLoop 0, IoLoop 1, IoLoop 0]"
proof -
  have f: "ti_conns (tw_io demo_listening) = []" "ts_started (ti_server (tw_io demo_listening))"
      "ts_listen_registered (ti_server (tw_io demo_listening))" "ts_listen_fd (ti_server (tw_io demo_listening)) \<noteq> -1"
      "tp_thread_count (ts_pool (ti_server (tw_io demo_listening))) = 2"
    using demo_listening_io by auto
  have e: "EPOLLIN AND EPOLLIN \<noteq> 0" by (simp add: EPOLLIN_def)
  have "length (map fst (ti_conns (handle_accept True EPOLLIN demo_answers (tw_io demo_listening)))) = 3"
    using accepting_shares_the_loops [OF demo_listening_reached demo_accepting_ready(2,1) f(2-4) e] f(1)
    by (simp add: Let_def demo_answers_def)
  then show ?thesis
    using accepting_shares_the_loops [OF demo_listening_reached demo_accepting_ready(2,1) f(2-4) e] f(5) by (simp add: Let_def)
qed

end
