(* ===== verification/Server_Main.thy ===== *)
theory Server_Main
  imports Tcp_Server Persistence_World
begin

text \<open>
  \<open>main\<close> (\<open>main/server.cpp\<close>): the order in which the parts of the server are constructed, started,
  rolled back when a start fails, and stopped. The parts on the base loop other than rooms and
  persistence are \<open>main_parts\<close>; the base loop's descriptors are the field \<open>ti_base\<close> of the TCP server's
  state. Logging and the console are left out. The calls of the persistence service are steps of
  \<open>Persistence_World\<close>, where they wait for the writer thread.
\<close>

definition PORT :: u16 where "PORT = 8080"
definition THREAD_COUNT :: nat where "THREAD_COUNT = 4"
definition TICK_INTERVAL_MS :: u64 where "TICK_INTERVAL_MS = 50"
definition TIMEOUT_SCAN_INTERVAL_MS :: u64 where "TIMEOUT_SCAN_INTERVAL_MS = 1000"
definition CONNECTION_TIMEOUT :: int where "CONNECTION_TIMEOUT = 10000"
definition RECONNECT_TIMEOUT :: int where "RECONNECT_TIMEOUT = 30000"
definition CHECKPOINT_INTERVAL_MS :: u64 where "CHECKPOINT_INTERVAL_MS = 5000"

text \<open>The bytes of \<open>data/server.checkpoint\<close>.\<close>

definition CHECKPOINT_PATH :: path where
  "CHECKPOINT_PATH = [100, 97, 116, 97, 47, 115, 101, 114, 118, 101, 114, 46, 99, 104, 101, 99, 107, 112, 111, 105, 110, 116]"

record main_parts =
  mp_tcp :: tcp_io
  mp_signal :: ShutdownSignal
  mp_tick :: TickTimer
  mp_timeout :: TickTimer

definition base_loop :: "main_parts \<Rightarrow> (nat, nat) EventLoop" where
  "base_loop m = ti_base (mp_tcp m)"

definition set_base :: "(nat, nat) EventLoop \<Rightarrow> main_parts \<Rightarrow> main_parts" where
  "set_base l m = m\<lparr>mp_tcp := (mp_tcp m)\<lparr>ti_base := l\<rparr>\<rparr>"

section \<open>Construction\<close>

record construct_env =
  ce_logger_ok :: bool
  ce_epoll_fd :: int
  ce_wakeup_fd :: int
  ce_ctl_ok :: bool
  ce_mask_ok :: bool
  ce_block_ok :: bool
  ce_signal_fd :: int
  ce_restore_ok :: bool
  ce_directory_ok :: bool
  ce_checkpoint_fd :: int

text \<open>Up to the loading of the checkpoint; \<open>None\<close>: the program ends with status 1. The TCP server
  and the two timers are not constructed yet.\<close>

definition main_construct :: "construct_env \<Rightarrow> (main_parts \<times> RoomService \<times> PersistenceService \<times> CheckpointStore) option" where
  "main_construct e =
     (if \<not> ce_logger_ok e then None
      else let l = EventLoop_new 1024 (ce_epoll_fd e) (ce_wakeup_fd e) (ce_ctl_ok e) 0 in
        if \<not> el_valid l then None
        else let signal = ShutdownSignal_new True l (ce_mask_ok e) (ce_block_ok e) (ce_signal_fd e) (ce_restore_ok e) in
          if \<not> signal_valid l signal then None
          else if \<not> ce_directory_ok e then None
          else case PersistenceService_new True True CHECKPOINT_PATH CHECKPOINT_INTERVAL_MS l (ce_checkpoint_fd e) of
            (p, store) \<Rightarrow> Some
              (\<lparr>mp_tcp = \<lparr>ti_server = TcpServer_new False 0 0, ti_base = l, ti_conns = [],
                  ti_open = [ce_epoll_fd e, ce_wakeup_fd e, ce_signal_fd e, ce_checkpoint_fd e], ti_pending = [], ti_dead = [],
                  ti_closed = [], ti_destroyed = [], ti_checks = []\<rparr>,
                mp_signal = signal, mp_tick = TickTimer_new False l 0 False (-1), mp_timeout = TickTimer_new False l 0 False (-1)\<rparr>,
               RoomService_new RECONNECT_TIMEOUT, p, store))"

text \<open>The timers and the TCP server with its callbacks, after the checkpoint was loaded.\<close>

definition main_servers :: "int \<Rightarrow> int \<Rightarrow> main_parts \<Rightarrow> main_parts option" where
  "main_servers tick_fd timeout_fd m =
     (let l = base_loop m; tick = TickTimer_new True l TICK_INTERVAL_MS True tick_fd in
      if \<not> timer_valid l tick then None
      else let server = ts_set_connection_closed_callback (ts_set_message_callback (TcpServer_new True PORT THREAD_COUNT));
               timeout = TickTimer_new True l TIMEOUT_SCAN_INTERVAL_MS True timeout_fd in
        if \<not> timer_valid l timeout then None
        else Some (m\<lparr>mp_tcp := set_server server (mp_tcp m), mp_tick := tick, mp_timeout := timeout\<rparr>))"

section \<open>The callbacks of the timers\<close>

definition tick_callback :: "env \<Rightarrow> nat \<Rightarrow> service_state \<Rightarrow> service_state" where
  "tick_callback e expirations service = handle_tick e expirations service"

definition timeout_callback :: "bool \<Rightarrow> env \<Rightarrow> time_point \<Rightarrow> main_parts \<Rightarrow> service_state \<Rightarrow> main_parts \<times> service_state" where
  "timeout_callback here e now m service =
     (m\<lparr>mp_tcp := check_timeouts here CONNECTION_TIMEOUT (mp_tcp m)\<rparr>, handle_session_timeouts e now service)"

section \<open>Starting and stopping\<close>

definition tick_start :: "timer_env \<Rightarrow> main_parts \<Rightarrow> bool \<times> main_parts" where
  "tick_start te m = (case timer_start te 1 (base_loop m) (mp_tick m) of (ok, l, t) \<Rightarrow> (ok, set_base l (m\<lparr>mp_tick := t\<rparr>)))"

definition timeout_start :: "timer_env \<Rightarrow> main_parts \<Rightarrow> bool \<times> main_parts" where
  "timeout_start te m = (case timer_start te 2 (base_loop m) (mp_timeout m) of (ok, l, t) \<Rightarrow> (ok, set_base l (m\<lparr>mp_timeout := t\<rparr>)))"

definition tick_stop :: "timer_env \<Rightarrow> main_parts \<Rightarrow> bool \<times> main_parts" where
  "tick_stop te m = (case timer_stop te (base_loop m) (mp_tick m) of (ok, l, t) \<Rightarrow> (ok, set_base l (m\<lparr>mp_tick := t\<rparr>)))"

definition timeout_stop :: "timer_env \<Rightarrow> main_parts \<Rightarrow> bool \<times> main_parts" where
  "timeout_stop te m = (case timer_stop te (base_loop m) (mp_timeout m) of (ok, l, t) \<Rightarrow> (ok, set_base l (m\<lparr>mp_timeout := t\<rparr>)))"

text \<open>\<open>timeout_timer.stop(); tick_timer.stop()\<close>, in the roll-backs and after the loop.\<close>

definition stop_timers :: "timer_env \<Rightarrow> timer_env \<Rightarrow> main_parts \<Rightarrow> bool \<times> bool \<times> main_parts" where
  "stop_timers te te' m =
     (case timeout_stop te m of (timeout_timer_stopped, m1) \<Rightarrow>
      case tick_stop te' m1 of (tick_timer_stopped, m2) \<Rightarrow> (timeout_timer_stopped, tick_timer_stopped, m2))"

record network_env =
  ne_listen :: listen_env
  ne_threads :: "nat \<Rightarrow> bool"
  ne_tick :: timer_env
  ne_timeout :: timer_env
  ne_tick_stop :: timer_env

definition start_network :: "network_env \<Rightarrow> main_parts \<Rightarrow> bool \<times> main_parts" where
  "start_network e m =
     (case ts_start True (ne_listen e) (ne_threads e) (mp_tcp m) of (listening, tcp) \<Rightarrow>
      let m1 = m\<lparr>mp_tcp := tcp\<rparr> in
      if \<not> listening then (False, m1)
      else case tick_start (ne_tick e) m1 of (tick_started, m2) \<Rightarrow>
        if \<not> tick_started then (False, m2)
        else case timeout_start (ne_timeout e) m2 of (timeout_started, m3) \<Rightarrow>
          if \<not> timeout_started then (False, snd (tick_stop (ne_tick_stop e) m3))
          else (True, m3))"

definition start_signal :: "bool \<Rightarrow> main_parts \<Rightarrow> bool \<times> main_parts" where
  "start_signal ctl_ok m =
     (case signal_start True ctl_ok 4 (base_loop m) (mp_signal m) of (ok, l, s) \<Rightarrow> (ok, set_base l (m\<lparr>mp_signal := s\<rparr>)))"

text \<open>The end of \<open>main\<close>: the status from what the loop and the calls of \<open>stop\<close> have returned.\<close>

definition main_end :: "bool \<Rightarrow> bool \<Rightarrow> bool \<Rightarrow> bool \<Rightarrow> bool \<Rightarrow> main_parts \<Rightarrow> int \<times> main_parts" where
  "main_end ctl_ok loop_succeeded timeout_timer_stopped tick_timer_stopped persistence_service_stopped m =
     (case signal_stop True ctl_ok (base_loop m) (mp_signal m) of (shutdown_signal_stopped, l, s) \<Rightarrow>
      (if \<not> loop_succeeded \<or> \<not> timeout_timer_stopped \<or> \<not> tick_timer_stopped \<or> \<not> persistence_service_stopped \<or>
          \<not> shutdown_signal_stopped then 1 else 0, set_base l (m\<lparr>mp_signal := s\<rparr>)))"

end
