(* ===== verification/Main_World.thy ===== *)
theory Main_World
  imports Server_Main
begin

text \<open>
  The life of \<open>main\<close> around \<open>Persistence_World\<close>: construction, loading, starting in order, the base
  loop, stopping in order, exit; with the roll-backs, and with other threads and the callbacks of
  the loop in between. A crash or an exit may be followed by a new process on the same files.
\<close>

text \<open>Where \<open>main\<close> is. \<open>MnCallStop\<close> and \<open>MnWait\<close> are before and in \<open>persistence_service.stop()\<close>,
  with a flag for the roll-back and the locals \<open>loop_succeeded\<close>, \<open>timeout_timer_stopped\<close> and
  \<open>tick_timer_stopped\<close>.\<close>

datatype MainPc = MnBegin | MnLoaded | MnReady | MnPersist | MnUndo | MnSignal | MnLoop
  | MnCallStop bool bool bool bool | MnWait bool bool bool bool | MnExit int

record main_world =
  mw_pc :: MainPc
  mw_parts :: main_parts
  mw_sys :: system

definition main_started :: "main_world \<Rightarrow> bool" where
  "main_started w \<longleftrightarrow> (\<exists>e m service p store. main_construct e = Some (m, service, p, store) \<and>
     w = \<lparr>mw_pc = MnBegin, mw_parts = m, mw_sys = new_process RECONNECT_TIMEOUT p (first_boot CHECKPOINT_PATH)\<rparr>)"

text \<open>The callbacks of the base loop start and stop none of the parts.\<close>

definition parts_frame :: "main_parts \<Rightarrow> main_parts \<Rightarrow> bool" where
  "parts_frame m m' \<longleftrightarrow> mp_signal m' = mp_signal m \<and> mp_tick m' = mp_tick m \<and> mp_timeout m' = mp_timeout m \<and>
     ts_started (ti_server (mp_tcp m')) = ts_started (ti_server (mp_tcp m))"

text \<open>What runs besides the calls of \<open>main\<close>: other threads, and in the loop its callbacks.\<close>

definition others_frame :: "MainPc \<Rightarrow> system \<Rightarrow> system \<Rightarrow> bool" where
  "others_frame pc y y' \<longleftrightarrow> ps_started (sy_ps y') = ps_started (sy_ps y) \<and>
     (pc \<noteq> MnLoop \<longrightarrow> sy_service y' = sy_service y \<and> sy_ps y' = sy_ps y)"

definition main_at :: "MainPc \<Rightarrow> main_parts \<Rightarrow> system \<Rightarrow> main_world" where
  "main_at pc m y = \<lparr>mw_pc = pc, mw_parts = m, mw_sys = y\<rparr>"

inductive main_step :: "(conn \<Rightarrow> nat) \<Rightarrow> main_world \<Rightarrow> main_world \<Rightarrow> bool" for addr :: "conn \<Rightarrow> nat" where
  mn_load: "sy_main y = MStarting \<Longrightarrow> sys_step addr CHECKPOINT_PATH y y' \<Longrightarrow> sy_main y' \<noteq> MStarting \<Longrightarrow>
    main_step addr (main_at MnBegin m y) (main_at (if sy_main y' = MExited then MnExit 1 else MnLoaded) m y')"
| mn_servers: "main_step addr (main_at MnLoaded m y)
    (case main_servers tick_fd timeout_fd m of None \<Rightarrow> main_at (MnExit 1) m y | Some m' \<Rightarrow> main_at MnReady m' y)"
| mn_network: "start_network e m = (ok, m') \<Longrightarrow>
    main_step addr (main_at MnReady m y) (main_at (if ok then MnPersist else MnExit 1) m' y)"
| mn_persist: "ps_start te thread_ok 3 (base_loop m) (sy_ps y, sw_store (sy_store y)) = (r, l, p, store) \<Longrightarrow>
    stop_timers te1 te2 (set_base l m) = (t, k, m') \<Longrightarrow>
    main_step addr (main_at MnPersist m y) (case r of
        PsReturn True \<Rightarrow> main_at MnSignal (set_base l m) (after_start r p store y)
      | PsReturn False \<Rightarrow> main_at (MnExit 1) m' (after_start r p store y)
      | _ \<Rightarrow> main_at MnUndo (set_base l m) (after_start r p store y))"
| mn_undo: "sy_main y = MCall PsUndoStart \<Longrightarrow> sys_step addr CHECKPOINT_PATH y y' \<Longrightarrow> sy_main y' = MExited \<Longrightarrow>
    stop_timers te1 te2 m = (t, k, m') \<Longrightarrow> main_step addr (main_at MnUndo m y) (main_at (MnExit 1) m' y')"
| mn_signal: "start_signal ctl_ok m = (True, m') \<Longrightarrow> main_step addr (main_at MnSignal m y) (main_at MnLoop m' y)"
| mn_signal_fails: "start_signal ctl_ok m = (False, m1) \<Longrightarrow> stop_timers te1 te2 m1 = (t, k, m') \<Longrightarrow>
    main_step addr (main_at MnSignal m y) (main_at (MnCallStop True False t k) m' y)"
| mn_loop_ends: "stop_timers te1 te2 m = (t, k, m') \<Longrightarrow>
    main_step addr (main_at MnLoop m y) (main_at (MnCallStop False loop_succeeded t k) m' y)"
| mn_stop: "env_of addr (sy_world y) e \<Longrightarrow>
    ps_stop te e (sy_service y) (base_loop m) (sy_ps y, sw_store (sy_store y)) = (r, l, p, store) \<Longrightarrow>
    main_step addr (main_at (MnCallStop b lo t k) m y) (main_at (MnWait b lo t k) (set_base l m)
      (stopping r p (after_save e y (store \<noteq> sw_store (sy_store y)) store) y))"
| mn_wait: "sy_main y = MCall pc \<Longrightarrow> sys_step addr CHECKPOINT_PATH y y' \<Longrightarrow> sy_main y' \<noteq> MStarting \<Longrightarrow>
    main_step addr (main_at (MnWait b lo t k) m y) (main_at (MnWait b lo t k) m y')"
| mn_rolled_back: "sy_main y = MStopped stopped \<Longrightarrow> main_step addr (main_at (MnWait True lo t k) m y) (main_at (MnExit 1) m y)"
| mn_end: "sy_main y = MStopped stopped \<Longrightarrow> main_end ctl_ok lo t k stopped m = (status, m') \<Longrightarrow>
    main_step addr (main_at (MnWait False lo t k) m y) (main_at (MnExit status) m' y)"
| mn_other: "sys_step addr CHECKPOINT_PATH y y' \<Longrightarrow> sy_main y' = sy_main y \<Longrightarrow> sy_main y \<noteq> MStarting \<Longrightarrow>
    others_frame pc y y' \<Longrightarrow> parts_frame m m' \<Longrightarrow> \<forall>status. pc \<noteq> MnExit status \<Longrightarrow>
    main_step addr (main_at pc m y) (main_at pc m' y')"
| mn_again: "main_construct e = Some (m', service, p, store) \<Longrightarrow>
    f = sw_fs (sy_store y) \<or> fs_crash (sw_fs (sy_store y)) f \<Longrightarrow>
    main_step addr (main_at pc m y) (main_at MnBegin m' (new_process RECONNECT_TIMEOUT p (boot f (sy_store y))))"

section \<open>The invariant\<close>

definition timers_running :: "main_parts \<Rightarrow> bool" where
  "timers_running m \<longleftrightarrow> tt_state (mp_tick m) = rn_running \<and> tt_state (mp_timeout m) = rn_running \<and>
     ts_started (ti_server (mp_tcp m))"

text \<open>In \<open>persistence_service.stop()\<close>, or it has just returned.\<close>

definition in_stop :: "system \<Rightarrow> bool" where
  "in_stop y \<longleftrightarrow> (\<exists>pc. sy_main y = MCall pc \<and> pc \<noteq> PsUndoStart) \<or> (\<exists>stopped. sy_main y = MStopped stopped)"

fun pc_ok :: "MainPc \<Rightarrow> main_parts \<Rightarrow> system \<Rightarrow> bool" where
  "pc_ok MnBegin m y \<longleftrightarrow> sy_main y = MStarting"
| "pc_ok MnLoaded m y \<longleftrightarrow> sy_main y = MRunning"
| "pc_ok MnReady m y \<longleftrightarrow> sy_main y = MRunning"
| "pc_ok MnPersist m y \<longleftrightarrow> sy_main y = MRunning \<and> timers_running m"
| "pc_ok MnUndo m y \<longleftrightarrow> sy_main y = MCall PsUndoStart"
| "pc_ok MnSignal m y \<longleftrightarrow> sy_main y = MRunning \<and> timers_running m \<and> ps_started (sy_ps y)"
| "pc_ok MnLoop m y \<longleftrightarrow> sy_main y = MRunning \<and> timers_running m \<and> ps_started (sy_ps y) \<and> sg_state (mp_signal m) = rn_running"
| "pc_ok (MnCallStop b lo t k) m y \<longleftrightarrow> sy_main y = MRunning \<and> (t \<longrightarrow> tt_state (mp_timeout m) = rn_stopped) \<and>
     (k \<longrightarrow> tt_state (mp_tick m) = rn_stopped)"
| "pc_ok (MnWait b lo t k) m y \<longleftrightarrow> in_stop y \<and>
     (t \<longrightarrow> tt_state (mp_timeout m) = rn_stopped) \<and> (k \<longrightarrow> tt_state (mp_tick m) = rn_stopped)"
| "pc_ok (MnExit status) m y \<longleftrightarrow> status \<in> {0, 1} \<and> (status = 0 \<longrightarrow> sy_main y = MStopped True \<and>
     tt_state (mp_timeout m) = rn_stopped \<and> tt_state (mp_tick m) = rn_stopped \<and> sg_state (mp_signal m) = rn_stopped)"

definition main_world_inv :: "(conn \<Rightarrow> nat) \<Rightarrow> main_world \<Rightarrow> bool" where
  "main_world_inv addr w \<longleftrightarrow> reach (system_started CHECKPOINT_PATH) (sys_step addr CHECKPOINT_PATH) (mw_sys w) \<and>
     pc_ok (mw_pc w) (mw_parts w) (mw_sys w)"

text \<open>The scan for timeouts changes nothing that \<open>main\<close> starts and stops.\<close>

lemma timeout_callback_frame: "parts_frame m (fst (timeout_callback here e now m service))"
  by (simp add: parts_frame_def timeout_callback_def check_timeouts_def)

lemma main_at_simps [simp]: "mw_pc (main_at pc m y) = pc" "mw_parts (main_at pc m y) = m" "mw_sys (main_at pc m y) = y"
  by (simp_all add: main_at_def)

lemma set_base_frame [simp]:
  "mp_tick (set_base l m) = mp_tick m" "mp_timeout (set_base l m) = mp_timeout m" "mp_signal (set_base l m) = mp_signal m"
  "ti_server (mp_tcp (set_base l m)) = ti_server (mp_tcp m)" "timers_running (set_base l m) = timers_running m"
  by (simp_all add: set_base_def timers_running_def)

text \<open>What a start or a stop that reports success leaves behind.\<close>

lemma timer_started: "timer_start te cb l t = (True, l', t') \<Longrightarrow> tt_state t' = rn_running"
  by (auto simp: timer_start_def split: prod.splits if_splits)

lemma timer_stopped: "timer_stop te l t = (True, l', t') \<Longrightarrow> tt_state t' = rn_stopped"
  by (auto simp: timer_stop_def settime_def split: prod.splits if_splits)

lemma signal_started: "signal_start here ctl cb l s = (True, l', s') \<Longrightarrow> sg_state s' = rn_running"
  by (auto simp: signal_start_def split: prod.splits if_splits)

lemma signal_stopped: "signal_stop here ctl l s = (True, l', s') \<Longrightarrow> sg_state s' = rn_stopped"
  by (auto simp: signal_stop_def split: prod.splits if_splits)

lemma stop_timers_stopped:
  assumes "stop_timers te te' m = (t, k, m')"
  shows "(t \<longrightarrow> tt_state (mp_timeout m') = rn_stopped) \<and> (k \<longrightarrow> tt_state (mp_tick m') = rn_stopped)"
  using assms
  by (auto simp: stop_timers_def timeout_stop_def tick_stop_def dest: timer_stopped split: prod.splits)

lemma ts_start_started: "ts_start here e valid s = (True, t) \<Longrightarrow> ts_started (ti_server t)"
  by (auto simp: ts_start_def Let_def set_server_def split: prod.splits if_splits)

lemma start_network_running:
  assumes "start_network e m = (True, m')"
  shows "timers_running m'"
proof -
  obtain tcp where s: "ts_start True (ne_listen e) (ne_threads e) (mp_tcp m) = (True, tcp)"
    using assms by (auto simp: start_network_def Let_def split: prod.splits if_splits)
  then obtain m2 where k: "tick_start (ne_tick e) (m\<lparr>mp_tcp := tcp\<rparr>) = (True, m2)"
    using assms by (auto simp: start_network_def Let_def split: prod.splits if_splits)
  with s have t: "timeout_start (ne_timeout e) m2 = (True, m')"
    using assms by (auto simp: start_network_def Let_def split: prod.splits if_splits)
  show ?thesis
    using s k t by (auto simp: timers_running_def tick_start_def timeout_start_def dest: timer_started ts_start_started split: prod.splits)
qed

lemma main_end_zero:
  assumes "main_end ctl_ok lo t k p m = (status, m')"
  shows "status \<in> {0, 1} \<and> mp_tick m' = mp_tick m \<and> mp_timeout m' = mp_timeout m \<and>
    (status = 0 \<longrightarrow> lo \<and> t \<and> k \<and> p \<and> sg_state (mp_signal m') = rn_stopped)"
  using assms by (auto simp: main_end_def dest: signal_stopped split: prod.splits if_splits)

lemma main_construct_fresh:
  assumes "main_construct e = Some (m, service, p, store)"
  shows "fresh_persistence CHECKPOINT_PATH p"
proof -
  obtain l :: "(nat, nat) EventLoop" and fd where
    "PersistenceService_new True True CHECKPOINT_PATH CHECKPOINT_INTERVAL_MS l fd = (p, store)"
    using assms by (auto simp: main_construct_def Let_def split: if_splits prod.splits)
  then show ?thesis unfolding fresh_persistence_def by (metis fst_conv)
qed

inductive_cases main_stepE: "main_step addr w w'"

lemma main_started_inv: "main_started w \<Longrightarrow> main_world_inv addr w"
  unfolding main_started_def main_world_inv_def system_started_def
  by (auto intro!: reach_init simp: system_started_def new_process_def dest: main_construct_fresh)

text \<open>What a call of the persistence service leaves.\<close>

lemma after_start_pc:
  assumes "ps_start te ok cb l (sy_ps y, sw_store (sy_store y)) = (r, l', p, store)"
  shows "(case r of PsReturn True \<Rightarrow> sy_main (after_start r p store y) = MRunning \<and> ps_started (sy_ps (after_start r p store y))
     | PsReturn False \<Rightarrow> True | _ \<Rightarrow> sy_main (after_start r p store y) = MCall PsUndoStart)"
  using ps_start_result [OF assms] by (auto simp: after_start_def main_after_def)

lemma in_stop_stopping: "r \<noteq> PsUndoStart \<Longrightarrow> in_stop (stopping r p w y)"
  by (cases r) (auto simp: in_stop_def stopping_def main_after_def)

lemma ps_stop_pcs:
  "ps_stop te e v l st = (r, l', st') \<Longrightarrow> r \<noteq> PsUndoStart"
  "ps_stop_flush b s = Some r \<Longrightarrow> r \<noteq> PsUndoStart"
  "ps_stop_store b x = (r, x') \<Longrightarrow> r \<noteq> PsUndoStart"
  "ps_stop_join b x = (r, x') \<Longrightarrow> r \<noteq> PsUndoStart"
  by (auto simp: ps_stop_def ps_stop_flush_def ps_stop_store_def ps_stop_join_def split: if_splits prod.splits option.splits)

lemma in_stop_step:
  assumes "sys_step addr path y y'" and "in_stop y" and "sy_main y' \<noteq> MStarting"
  shows "in_stop y'"
  using assms(1) by (rule sys_stepE) (use assms(2-) in \<open>auto simp: in_stop_def new_process_def stopping_def main_after_def split: PsPc.splits dest: ps_stop_pcs\<close>)

lemma others_keep_pc_ok:
  assumes "pc_ok pc m y" and "sy_main y' = sy_main y" and "others_frame pc y y'" and "parts_frame m m'"
  shows "pc_ok pc m' y'"
  using assms by (cases pc) (auto simp: others_frame_def parts_frame_def timers_running_def in_stop_def)

text \<open>Every step is one of the persistence world, or leaves it alone.\<close>

lemma main_step_system:
  assumes "main_world_inv addr w" and "main_step addr w w'"
  shows "mw_sys w' = mw_sys w \<or> sys_step addr CHECKPOINT_PATH (mw_sys w) (mw_sys w')"
  using assms(2)
proof (rule main_stepE)
  fix te thread_ok m y r l p store te1 te2 t k m'
  assume w: "w = main_at MnPersist m y" and w': "w' = (case r of
      PsReturn True \<Rightarrow> main_at MnSignal (set_base l m) (after_start r p store y)
    | PsReturn False \<Rightarrow> main_at (MnExit 1) m' (after_start r p store y)
    | _ \<Rightarrow> main_at MnUndo (set_base l m) (after_start r p store y))"
    and st: "ps_start te thread_ok 3 (base_loop m) (sy_ps y, sw_store (sy_store y)) = (r, l, p, store)"
  have "sy_main y = MRunning" using assms(1) by (simp add: main_world_inv_def w)
  from sy_start [OF this st] have "sys_step addr CHECKPOINT_PATH y (after_start r p store y)" .
  moreover have "mw_sys w' = after_start r p store y" unfolding w' by (cases r) (auto split: bool.splits)
  ultimately show ?thesis by (simp add: w)
next
  fix y e te m r l p store b lo t k
  assume w: "w = main_at (MnCallStop b lo t k) m y" and e: "env_of addr (sy_world y) e"
    and w': "w' = main_at (MnWait b lo t k) (set_base l m) (stopping r p (after_save e y (store \<noteq> sw_store (sy_store y)) store) y)"
    and st: "ps_stop te e (sy_service y) (base_loop m) (sy_ps y, sw_store (sy_store y)) = (r, l, p, store)"
  have "sy_main y = MRunning" using assms(1) by (simp add: main_world_inv_def w)
  from sy_stop [OF this e st] show ?thesis by (simp add: w w')
next
  fix e m' service p store f y pc m
  assume "w = main_at pc m y" and "w' = main_at MnBegin m' (new_process RECONNECT_TIMEOUT p (boot f (sy_store y)))"
    and "main_construct e = Some (m', service, p, store)" and "f = sw_fs (sy_store y) \<or> fs_crash (sw_fs (sy_store y)) f"
  then show ?thesis using sy_crash [OF _ main_construct_fresh] by simp
qed (auto split: option.splits)

lemma load_ends_starting:
  assumes "sys_step addr path y y'" and "sy_main y = MStarting" and "sy_main y' \<noteq> MStarting"
  shows "sy_main y' = MExited \<or> sy_main y' = MRunning"
  using assms(1) by (rule sys_stepE) (use assms(2,3) in \<open>auto simp: new_process_def split: if_splits\<close>)

lemma signal_leaves:
  assumes "start_signal ctl_ok m = (True, m')"
  shows "sg_state (mp_signal m') = rn_running" and "timers_running m' = timers_running m"
  using assms by (auto simp: start_signal_def timers_running_def dest: signal_started split: prod.splits)

lemma stop_leaves_in_stop:
  assumes "ps_stop te e v l st = (r, l', p, store)"
  shows "in_stop (stopping r p w y)"
  using in_stop_stopping ps_stop_pcs(1) [OF assms] .

lemmas pc_ok_rules = start_network_running signal_leaves stop_timers_stopped main_end_zero stop_leaves_in_stop

lemma main_step_pc_ok:
  assumes "main_world_inv addr w" and "main_step addr w w'"
  shows "pc_ok (mw_pc w') (mw_parts w') (mw_sys w')"
proof -
  have i: "pc_ok (mw_pc w) (mw_parts w) (mw_sys w)" using assms(1) by (simp add: main_world_inv_def)
  from assms(2) show ?thesis
  proof (rule main_stepE)
    fix te thread_ok m y r l p store te1 te2 t k m'
    assume w: "w = main_at MnPersist m y" and w': "w' = (case r of
        PsReturn True \<Rightarrow> main_at MnSignal (set_base l m) (after_start r p store y)
      | PsReturn False \<Rightarrow> main_at (MnExit 1) m' (after_start r p store y)
      | _ \<Rightarrow> main_at MnUndo (set_base l m) (after_start r p store y))"
      and st: "ps_start te thread_ok 3 (base_loop m) (sy_ps y, sw_store (sy_store y)) = (r, l, p, store)"
    show ?thesis
      using after_start_pc [OF st] i unfolding w w' by (cases r) (auto split: bool.splits)
  next
    fix y y' m
    assume w: "w = main_at MnBegin m y" "w' = main_at (if sy_main y' = MExited then MnExit 1 else MnLoaded) m y'"
      and st: "sys_step addr CHECKPOINT_PATH y y'" "sy_main y = MStarting" "sy_main y' \<noteq> MStarting"
    show ?thesis using load_ends_starting [OF st] by (auto simp: w)
  next
    fix y pc y' b lo t k m
    assume w: "w = main_at (MnWait b lo t k) m y" "w' = main_at (MnWait b lo t k) m y'"
      and st: "sys_step addr CHECKPOINT_PATH y y'" "sy_main y' \<noteq> MStarting"
    then show ?thesis using i in_stop_step [OF st(1) _ st(2)] by auto
  next
    fix y y' pc m m'
    assume w: "w = main_at pc m y" "w' = main_at pc m' y'"
      and o: "sy_main y' = sy_main y" "others_frame pc y y'" "parts_frame m m'"
    show ?thesis using others_keep_pc_ok [OF _ o] i by (simp add: w)
  qed (use i in \<open>auto simp: new_process_def dest: pc_ok_rules split: option.splits\<close>)
qed

interpretation main_life: invariant_system main_started "main_step addr" "main_world_inv addr" for addr
proof
  show "main_world_inv addr w" if "main_started w" for w
    using that by (rule main_started_inv)
  show "main_world_inv addr w'" if i: "main_world_inv addr w" and s: "main_step addr w w'" for w w'
    using main_step_system [OF i s] main_step_pc_ok [OF i s] i by (auto simp: main_world_inv_def intro: reach_step)
qed

end
