(* ===== verification/Main_Claims.thy ===== *)
theory Main_Claims
  imports Main_World Persistence_Claims
begin

text \<open>
  What the life of \<open>main\<close> guarantees, and a whole run of it: started, looping, stopped, status 0.
\<close>

section \<open>What the status means\<close>

text \<open>C5: in every run of \<open>main\<close>, over any number of processes, crashes and power failures: the
  loop is entered only with both timers, the TCP server, the persistence service and the signal
  started. The status is 0 or 1, and 0 means that both timers and the signal were stopped again
  and that the file holds exactly the checkpoint of the room service as the loop left it, and
  keeps it in any crash that follows.\<close>

theorem status_zero_means_saved:
  assumes "reach main_started (main_step addr) w"
  shows "(mw_pc w = MnLoop \<longrightarrow> tt_state (mp_tick (mw_parts w)) = rn_running \<and> tt_state (mp_timeout (mw_parts w)) = rn_running \<and>
      ts_started (ti_server (mp_tcp (mw_parts w))) \<and> ps_started (sy_ps (mw_sys w)) \<and>
      sg_state (mp_signal (mw_parts w)) = rn_running) \<and>
    (\<forall>status. mw_pc w = MnExit status \<longrightarrow> status = 0 \<or> status = 1) \<and>
    (mw_pc w = MnExit 0 \<longrightarrow> tt_state (mp_tick (mw_parts w)) = rn_stopped \<and> tt_state (mp_timeout (mw_parts w)) = rn_stopped \<and>
      sg_state (mp_signal (mw_parts w)) = rn_stopped \<and>
      (\<forall>e f. e_in_base e \<and> fs_crash (sw_fs (sy_store (mw_sys w))) f \<longrightarrow>
        (\<exists>d c. fs_read CHECKPOINT_PATH f = Some d \<and> checkpoint_decode d = Inr c \<and>
           rs_make_checkpoint e (sv_generation c) (sy_service (mw_sys w)) = Some c)))"
proof -
  have i: "main_world_inv addr w" using assms by (rule main_life.reach_inv)
  then have p: "pc_ok (mw_pc w) (mw_parts w) (mw_sys w)" by (simp add: main_world_inv_def)
  have y: "sys_inv addr CHECKPOINT_PATH (mw_sys w)" using i system.reach_inv by (auto simp: main_world_inv_def)
  show ?thesis using p stopped_file [OF y] by (auto simp: timers_running_def)
qed

section \<open>A run\<close>

definition demo_construct :: construct_env where
  "demo_construct = \<lparr>ce_logger_ok = True, ce_epoll_fd = 5, ce_wakeup_fd = 6, ce_ctl_ok = True, ce_mask_ok = True,
     ce_block_ok = True, ce_signal_fd = 11, ce_restore_ok = True, ce_directory_ok = True, ce_checkpoint_fd = 7\<rparr>"

definition demo_network :: network_env where
  "demo_network = \<lparr>ne_listen = \<lparr>le_socket = 10, le_setsockopt = True, le_bind = True, le_listen = True, le_getfl = True,
     le_setfl = True, le_ctl_ok = True, le_del_ok = True\<rparr>, ne_threads = \<lambda>_. True, ne_tick = demo_timer_env, ne_timeout = demo_timer_env,
     ne_tick_stop = demo_timer_env\<rparr>"

text \<open>The base loop with these descriptors registered.\<close>

definition demo_base :: "(int \<times> nat) list \<Rightarrow> (nat, nat) EventLoop" where
  "demo_base cbs = \<lparr>el_epoll_fd = 5, el_wakeup_fd = 6, el_quit = False, el_looping = False, el_max_events = 1024,
     el_callbacks = cbs, el_pending_functors = [], el_interest = map (\<lambda>p. (fst p, EPOLLIN OR EPOLLET)) cbs, el_signal = False\<rparr>"

definition demo_timer :: "u64 \<Rightarrow> int \<Rightarrow> TickTimer" where
  "demo_timer ms fd = \<lparr>tt_loop = True, tt_timer_fd = fd, tt_interval_ms = ms, tt_callback = True, tt_state = rn_stopped, tt_armed = None\<rparr>"

definition demo_ticking :: "u64 \<Rightarrow> int \<Rightarrow> TickTimer" where
  "demo_ticking ms fd = snd (snd (timer_start demo_timer_env 0 (demo_base []) (demo_timer ms fd)))"

lemma map_of_same: "map_of (map (\<lambda>p. (fst p, c)) xs) k = map_option (\<lambda>_. c) (map_of xs k)"
  by (induction xs) auto

lemma demo_base_valid [simp]: "el_valid (demo_base cbs)"
  by (simp add: el_valid_def demo_base_def)

lemma demo_add_fd [simp]: "0 \<le> fd \<Longrightarrow> map_of cbs fd = None \<Longrightarrow>
    add_fd True True fd (EPOLLIN OR EPOLLET) (Some cb) (demo_base cbs) = (True, demo_base (cbs @ [(fd, cb)]))"
  by (auto simp: add_fd_def demo_base_def el_valid_def um_contains_def um_find_def um_emplace_def map_of_same)

lemma demo_remove_fd [simp]: "0 \<le> fd \<Longrightarrow> map_of cbs fd = Some cb \<Longrightarrow>
    remove_fd True True fd (demo_base cbs) = (True, demo_base (um_erase fd cbs))"
  by (auto simp: remove_fd_def demo_base_def el_valid_def um_contains_def um_find_def um_erase_def map_of_same
      AList.delete_eq filter_map comp_def case_prod_unfold)

lemma demo_timer_starts [simp]: "0 \<le> fd \<Longrightarrow> map_of cbs fd = None \<Longrightarrow>
    timer_start demo_timer_env cb (demo_base cbs) (demo_timer ms fd) = (True, demo_base (cbs @ [(fd, cb)]), demo_ticking ms fd)"
  by (simp add: demo_ticking_def timer_start_def settime_def demo_timer_env_def demo_timer_def)

lemma demo_timer_stops_too [simp]: "0 \<le> fd \<Longrightarrow> map_of cbs fd = Some cb \<Longrightarrow>
    timer_stop demo_timer_env (demo_base cbs) (demo_ticking ms fd) = (True, demo_base (um_erase fd cbs), demo_timer ms fd)"
  by (simp add: demo_ticking_def timer_start_def timer_stop_def settime_def demo_timer_env_def demo_timer_def read_expirations_def)

text \<open>The parts before the loop: \<open>server\<close> is the TCP server, \<open>fds\<close> the open descriptors.\<close>

definition demo_parts :: "TcpServer \<Rightarrow> int list \<Rightarrow> RunStates \<Rightarrow> TickTimer \<Rightarrow> TickTimer \<Rightarrow> (int \<times> nat) list \<Rightarrow> main_parts" where
  "demo_parts server fds sg tick timeout cbs =
     \<lparr>mp_tcp = \<lparr>ti_server = server, ti_base = demo_base cbs, ti_conns = [], ti_open = fds, ti_pending = [], ti_dead = [],
        ti_closed = [], ti_destroyed = [], ti_checks = []\<rparr>,
      mp_signal = \<lparr>sg_loop = True, sg_signal_fd = 11, sg_mask_blocked = True, sg_state = sg\<rparr>,
      mp_tick = tick, mp_timeout = timeout\<rparr>"

definition no_timer :: TickTimer where
  "no_timer = TickTimer_new False (demo_base []) 0 False (-1)"

lemma demo_parts_simps [simp]:
  "base_loop (demo_parts sv fds sg tk tm cbs) = demo_base cbs"
  "set_base (demo_base cbs') (demo_parts sv fds sg tk tm cbs) = demo_parts sv fds sg tk tm cbs'"
  "(demo_parts sv fds sg tk tm cbs)\<lparr>mp_tcp := mp_tcp (demo_parts sv' fds' sg' tk' tm' cbs')\<rparr> = demo_parts sv' fds' sg tk tm cbs'"
  "(demo_parts sv fds sg tk tm cbs)\<lparr>mp_tick := tk'\<rparr> = demo_parts sv fds sg tk' tm cbs"
  "(demo_parts sv fds sg tk tm cbs)\<lparr>mp_timeout := tm'\<rparr> = demo_parts sv fds sg tk tm' cbs"
  "mp_tick (demo_parts sv fds sg tk tm cbs) = tk" "mp_timeout (demo_parts sv fds sg tk tm cbs) = tm"
  by (simp_all add: demo_parts_def base_loop_def set_base_def)

lemma demo_network_simps [simp]:
  "ne_tick demo_network = demo_timer_env" "ne_timeout demo_network = demo_timer_env"
  by (simp_all add: demo_network_def)

lemma demo_constructs:
  "main_construct demo_construct = Some (demo_parts (TcpServer_new False 0 0) [5, 6, 11, 7] rn_stopped no_timer no_timer [(6, 0)],
     RoomService_new 30000, demo_ps, CheckpointStore_new CHECKPOINT_PATH)"
  by (simp add: main_construct_def demo_construct_def Let_def EventLoop_new_def add_fd_def el_valid_def um_contains_def
      um_find_def um_emplace_def ShutdownSignal_new_def signal_valid_def PersistenceService_new_def demo_ps_def demo_timer_loop_def
      TickTimer_new_def CHECKPOINT_INTERVAL_MS_def RECONNECT_TIMEOUT_def demo_parts_def demo_base_def no_timer_def)

lemma demo_servers: "\<exists>sv. main_servers 8 9 (demo_parts sv0 fds rn_stopped no_timer no_timer cbs) =
    Some (demo_parts sv fds rn_stopped (demo_timer 50 8) (demo_timer 1000 9) cbs) \<and>
    sv = ts_set_connection_closed_callback (ts_set_message_callback (TcpServer_new True 8080 4))"
  by (simp add: main_servers_def Let_def TickTimer_new_def timer_valid_def demo_timer_def TICK_INTERVAL_MS_def
      TIMEOUT_SCAN_INTERVAL_MS_def PORT_def THREAD_COUNT_def demo_parts_def base_loop_def set_server_def)

lemma demo_networks:
  assumes "sv = ts_set_connection_closed_callback (ts_set_message_callback (TcpServer_new True 8080 4))"
  shows "\<exists>sv'. start_network demo_network (demo_parts sv fds rn_stopped (demo_timer 50 8) (demo_timer 1000 9) [(6, 0)]) =
    (True, demo_parts sv' (10 # fds) rn_stopped (demo_ticking 50 8) (demo_ticking 1000 9) [(6, 0), (10, 0), (8, 1), (9, 2)])"
proof -
  obtain sv' where "ts_start True (ne_listen demo_network) (ne_threads demo_network)
      (mp_tcp (demo_parts sv fds rn_stopped (demo_timer 50 8) (demo_timer 1000 9) [(6, 0)])) =
    (True, mp_tcp (demo_parts sv' (10 # fds) rn_stopped (demo_timer 50 8) (demo_timer 1000 9) [(6, 0), (10, 0)]))"
    using assms by (simp add: ts_start_def create_listen_socket_def demo_network_def demo_parts_def set_server_def Let_def TcpServer_new_def
        ts_set_message_callback_def ts_set_connection_closed_callback_def pool_start_def EventLoopThreadPool_new_def start_threads_loops)
  then show ?thesis
    by (auto simp add: start_network_def Let_def tick_start_def timeout_start_def)
qed

lemma demo_ps_is:
  "demo_ps = \<lparr>ps_base_loop = True, ps_room_service = True, ps_timer = demo_timer 5000 7, ps_next_generation = 1,
      ps_loaded = False, ps_started = False\<rparr>"
  by (simp add: demo_ps_def PersistenceService_new_def TickTimer_new_def demo_timer_loop_def EventLoop_new_def add_fd_def
        el_valid_def um_contains_def um_find_def demo_timer_def)

lemma demo_launches:
  assumes "map_of cbs 7 = None"
  shows "\<exists>p s. ps_start demo_timer_env True cb (demo_base cbs) (demo_ps\<lparr>ps_loaded := True\<rparr>, CheckpointStore_new demo_path) =
    (PsReturn True, demo_base (cbs @ [(7, cb)]), p, s) \<and> ps_timer p = demo_ticking 5000 7"
proof -
  have "timer_valid (demo_base cbs) (demo_timer 5000 7)" by (simp add: timer_valid_def demo_timer_def)
  moreover have "fst (store_start True (CheckpointStore_new demo_path))"
    by (simp add: store_start_def cs_busy_def CheckpointStore_new_def demo_path_def)
  moreover have "te_here demo_timer_env" by (simp add: demo_timer_env_def)
  ultimately show ?thesis using assms by (simp add: demo_ps_is ps_start_def split_def Let_def)
qed

lemma demo_signals: "map_of cbs 11 = None \<Longrightarrow>
    start_signal True (demo_parts sv fds rn_stopped tk tm cbs) = (True, demo_parts sv fds rn_running tk tm (cbs @ [(11, 4)]))"
  by (simp add: start_signal_def signal_start_def signal_valid_def) (simp add: demo_parts_def set_base_def)

lemma demo_stops_timers: "map_of cbs 9 = Some a \<Longrightarrow> map_of cbs 8 = Some b \<Longrightarrow>
    stop_timers demo_timer_env demo_timer_env (demo_parts sv fds sg (demo_ticking 50 8) (demo_ticking 1000 9) cbs) =
    (True, True, demo_parts sv fds sg (demo_timer 50 8) (demo_timer 1000 9) (um_erase 8 (um_erase 9 cbs)))"
  by (simp add: stop_timers_def timeout_stop_def tick_stop_def um_erase_def map_of_delete)

lemma demo_main_end: "map_of cbs 11 = Some a \<Longrightarrow>
    main_end True True True True True (demo_parts sv fds rn_running tk tm cbs) = (0, demo_parts sv fds rn_stopped tk tm (um_erase 11 cbs))"
  by (simp add: main_end_def signal_stop_def) (simp add: demo_parts_def set_base_def)

lemma demo_path_is: "CHECKPOINT_PATH = demo_path"
  by (simp add: CHECKPOINT_PATH_def demo_path_def)

abbreviation main_reached :: "main_world \<Rightarrow> bool" where
  "main_reached \<equiv> reach main_started (main_step id)"

text \<open>The loop's descriptors in the order of their registration: the eventfd, the listening socket, the two timers, the
  timer of the persistence service and the signal.\<close>

definition demo_ready :: "TcpServer \<Rightarrow> RunStates \<Rightarrow> (int \<times> nat) list \<Rightarrow> main_parts" where
  "demo_ready sv sg cbs = demo_parts sv [10, 5, 6, 11, 7] sg (demo_ticking 50 8) (demo_ticking 1000 9) cbs"

lemma demo_network_started: "\<exists>sv. main_reached (main_at MnPersist (demo_ready sv rn_stopped [(6, 0), (10, 0), (8, 1), (9, 2)]) demo_sys1)"
proof -
  define m0 where "m0 = demo_parts (TcpServer_new False 0 0) [5, 6, 11, 7] rn_stopped no_timer no_timer [(6, 0)]"
  have "main_started (main_at MnBegin m0 demo_sys0)"
    using demo_constructs unfolding main_started_def m0_def
    by (intro exI conjI) (auto simp: main_at_def demo_sys0_def RECONNECT_TIMEOUT_def demo_path_is)
  then have r0: "main_reached (main_at MnBegin m0 demo_sys0)" by (rule reach_init)
  have ld: "sys_step id CHECKPOINT_PATH demo_sys0 demo_sys1" using demo_load(1) by (simp add: demo_path_is)
  have r1: "main_reached (main_at MnLoaded m0 demo_sys1)"
    using reach_step [OF r0 mn_load [OF demo_load(2) ld]] demo_sys1_fields(1) by (simp add: id_def)
  obtain sv m1 where m1: "main_servers 8 9 m0 = Some m1" "m1 = demo_parts sv [5, 6, 11, 7] rn_stopped (demo_timer 50 8) (demo_timer 1000 9) [(6, 0)]"
      and sv: "sv = ts_set_connection_closed_callback (ts_set_message_callback (TcpServer_new True 8080 4))"
    using demo_servers unfolding m0_def by blast
  then have r2: "main_reached (main_at MnReady m1 demo_sys1)"
    using reach_step [OF r1 mn_servers [of id m0 demo_sys1 8 9]] by (simp add: id_def)
  obtain sv' where "start_network demo_network m1 = (True, demo_ready sv' rn_stopped [(6, 0), (10, 0), (8, 1), (9, 2)])"
    using demo_networks [OF sv] unfolding m1(2) demo_ready_def by blast
  from reach_step [OF r2 mn_network [OF this]] show ?thesis by (auto simp: id_def)
qed

lemma demo_loops: "\<exists>sv p s. ps_start demo_timer_env True 3 (demo_base [(6, 0), (10, 0), (8, 1), (9, 2)])
      (demo_ps\<lparr>ps_loaded := True\<rparr>, CheckpointStore_new demo_path) =
    (PsReturn True, demo_base [(6, 0), (10, 0), (8, 1), (9, 2), (7, 3)], p, s) \<and> ps_timer p = demo_ticking 5000 7 \<and>
  main_reached (main_at MnLoop (demo_ready sv rn_running [(6, 0), (10, 0), (8, 1), (9, 2), (7, 3), (11, 4)])
    (after_start (PsReturn True) p s demo_sys1))"
proof -
  define cbs where "cbs = [(6 :: int, 0 :: nat), (10, 0), (8, 1), (9, 2)]"
  obtain sv m3 where r3: "main_reached (main_at MnPersist m3 demo_sys1)" and m3: "m3 = demo_ready sv rn_stopped cbs"
    using demo_network_started unfolding cbs_def by blast
  obtain p s where st: "ps_start demo_timer_env True 3 (demo_base cbs) (demo_ps\<lparr>ps_loaded := True\<rparr>, CheckpointStore_new demo_path) =
      (PsReturn True, demo_base (cbs @ [(7, 3)]), p, s)" "ps_timer p = demo_ticking 5000 7"
    using demo_launches [of cbs 3] by (auto simp: cbs_def)
  then have st': "ps_start demo_timer_env True 3 (base_loop m3) (sy_ps demo_sys1, sw_store (sy_store demo_sys1)) =
      (PsReturn True, demo_base (cbs @ [(7, 3)]), p, s)"
    by (simp add: demo_sys1_fields(2,3) m3 demo_ready_def)
  obtain l m4 where m4: "l = demo_base (cbs @ [(7, 3)])" "m4 = set_base l m3" "m4 = demo_ready sv rn_stopped (cbs @ [(7, 3)])"
    by (simp add: m3 demo_ready_def)
  obtain t k m' where t: "stop_timers demo_timer_env demo_timer_env (set_base l m3) = (t, k, m')"
    by (metis prod.exhaust)
  have r4: "main_reached (main_at MnSignal m4 (after_start (PsReturn True) p s demo_sys1))"
    using reach_step [OF r3 mn_persist [OF st' [folded m4(1)] t]] by (simp add: m4(2) id_def)
  have "start_signal True m4 = (True, demo_ready sv rn_running (cbs @ [(7, 3), (11, 4)]))"
    using demo_signals [of "cbs @ [(7, 3)]"] by (simp add: m4(3) demo_ready_def cbs_def)
  from reach_step [OF r4 mn_signal [OF this]] st show ?thesis unfolding cbs_def append.simps by blast
qed

lemma call_closed_wait: "call_closed id demo_path (\<lambda>y. main_reached (main_at (MnWait b lo t k) m y))"
  unfolding call_closed_def demo_path_is [symmetric]
proof (intro allI impI, elim conjE)
  fix y pc y'
  assume r: "main_reached (main_at (MnWait b lo t k) m y)" and s: "sy_main y = MCall pc" "sys_step id CHECKPOINT_PATH y y'"
    "sy_main y' \<noteq> MStarting"
  show "main_reached (main_at (MnWait b lo t k) m y')" by (rule reach_step [OF r mn_wait [OF s]])
qed

lemma demo_ends: "\<exists>m y. main_reached (main_at (MnExit 0) m y)"
proof -
  define cbs where "cbs = [(6 :: int, 0 :: nat), (10, 0), (7, 3), (11, 4)]"
  define l where "l = demo_base [(6, 0), (10, 0), (11, 4)]"
  obtain sv p2 s2 m4 where st: "ps_start demo_timer_env True 3 (demo_base [(6, 0), (10, 0), (8, 1), (9, 2)])
        (demo_ps\<lparr>ps_loaded := True\<rparr>, CheckpointStore_new demo_path) =
      (PsReturn True, demo_base [(6, 0), (10, 0), (8, 1), (9, 2), (7, 3)], p2, s2)" "ps_timer p2 = demo_ticking 5000 7"
    and r4: "main_reached (main_at MnLoop m4 (after_start (PsReturn True) p2 s2 demo_sys1))"
    and m4: "m4 = demo_ready sv rn_running [(6, 0), (10, 0), (8, 1), (9, 2), (7, 3), (11, 4)]"
    using demo_loops by blast
  define y2 where "y2 = after_start (PsReturn True) p2 s2 demo_sys1"
  obtain m5 where st5: "stop_timers demo_timer_env demo_timer_env m4 = (True, True, m5)"
    and m5: "base_loop m5 = demo_base cbs" "set_base l m5 = demo_parts sv [10, 5, 6, 11, 7] rn_running (demo_timer 50 8) (demo_timer 1000 9) [(6, 0), (10, 0), (11, 4)]"
    using demo_stops_timers [of "[(6, 0), (10, 0), (8, 1), (9, 2), (7, 3), (11, 4)]"]
    by (simp add: um_erase_def m4 demo_ready_def cbs_def l_def)
  have r5: "main_reached (main_at (MnCallStop False True True True) m5 y2)"
    unfolding y2_def by (rule reach_step [OF r4 mn_loop_ends [OF st5]])
  have t: "timer_stop demo_timer_env (base_loop m5) (ps_timer p2) = (True, l, demo_timer 5000 7)"
    using demo_timer_stops_too [of 7 cbs 3 5000] by (simp add: um_erase_def st(2) m5(1) cbs_def l_def)
  obtain p3 s3 where s: "ps_stop demo_timer_env demo_env (sy_service y2) (base_loop m5) (sy_ps y2, sw_store (sy_store y2)) =
      (PsFlush True, l, p3, s3)"
    and c: "\<forall>R. call_closed id demo_path R \<and>
         R (stopping (PsFlush True) p3 (after_save demo_env y2 (s3 \<noteq> sw_store (sy_store y2)) s3) y2) \<longrightarrow>
       (\<exists>y'. R y' \<and> sy_main y' = MStopped True)"
    using demo_stop [OF st(1) t y2_def] by (elim exE conjE)
  define m6 where "m6 = set_base l m5"
  let ?W = "\<lambda>y. main_reached (main_at (MnWait False True True True) m6 y)"
  have "?W (stopping (PsFlush True) p3 (after_save demo_env y2 (s3 \<noteq> sw_store (sy_store y2)) s3) y2)"
    unfolding m6_def by (rule reach_step [OF r5 mn_stop [OF demo_running(3) [OF st(1) y2_def] s]])
  then obtain y where y: "?W y" "sy_main y = MStopped True" using c call_closed_wait by blast
  obtain m7 where "main_end True True True True True m6 = (0, m7)"
    using demo_main_end [of "[(6, 0), (10, 0), (11, 4)]" 4] by (simp add: m6_def m5(2))
  from reach_step [OF y(1) mn_end [OF y(2) this]] show ?thesis by blast
qed

theorem status_zero_means_saved_witness:
  "\<exists>(w :: main_world) d c. mw_pc w = MnExit 0 \<and> fs_read CHECKPOINT_PATH (power_cut (sw_fs (sy_store (mw_sys w)))) = Some d \<and>
     checkpoint_decode d = Inr c \<and> rs_make_checkpoint demo_env (sv_generation c) (sy_service (mw_sys w)) = Some c"
proof -
  obtain m y where w: "main_reached (main_at (MnExit 0) m y)" using demo_ends by blast
  have e: "e_in_base demo_env" by (simp add: demo_env_def quiet_def)
  let ?w = "main_at (MnExit 0) m y"
  have "mw_pc ?w = MnExit 0" by simp
  with status_zero_means_saved [OF w] e power_cut show ?thesis by blast
qed

end
