(* ===== verification/Spec2Isabelle.thy ===== *)
theory Spec2Isabelle
  imports Byte_Buffer Frame_Codec Game_State Room_State_Machine Protocol Checkpoint Room Room_Laws
    Room_Manager Session_Manager Room_Service Service_Laws Server_World Service_Behaviour Service_Protocol
    Checkpoint_Codec Checkpoint_Format Checkpoint_Store Store_Laws Store_Claims Event_Loop Loop_World Tick_Timer
    Persistence_Service Persistence_World Persistence_Claims
    Connection Connection_World Connection_Claims Loop_Threads Tcp_Server Tcp_World Tcp_Claims
    Server_Main Main_World Main_Claims
begin

text \<open>
  L-W is a multiplayer room server in C++17 for Linux. Clients keep a TCP connection, over which
  length-prefixed binary frames travel; they join rooms, chat, move and attack on a board that
  the server alone decides, and may come back after a broken connection with a token. The
  server saves its state periodically and continues from it after a restart.

  \<^bold>\<open>How the program works.\<close> One thread per event loop (\<open>src/event_loop.cpp\<close>): the base loop accepts
  connections (\<open>tcp_server.cpp\<close>) and owns rooms, sessions and game states; the loops of the pool
  (\<open>event_loop_thread.cpp\<close>, \<open>event_loop_thread_pool.cpp\<close>) own the sockets and buffers of the
  connections dealt to them (\<open>connection.cpp\<close>). Loops talk to each other only by queueing
  functors. Bytes read from a socket go through the buffer (\<open>buffer.cpp\<close>) and the frame codec
  (\<open>codec.cpp\<close>) to \<open>RoomService::handle_message\<close> (\<open>room_service.cpp\<close>), which posts each frame to
  the base loop, where a handler decodes the payload (\<open>protocol.cpp\<close>), acts on the rooms
  (\<open>room_manager.cpp\<close>, \<open>room.cpp\<close>, \<open>room_state_machine.cpp\<close>, \<open>game_state.cpp\<close>) and sessions
  (\<open>session_manager.cpp\<close>, \<open>session.cpp\<close>), and sends replies. Timers (\<open>tick_timer.cpp\<close>) drive the
  game, the timeouts and the checkpoints; \<open>persistence_service.cpp\<close> numbers the checkpoints and
  hands them to the writer thread of \<open>checkpoint_store.cpp\<close>, which encodes them
  (\<open>checkpoint_codec.cpp\<close>) and replaces the file. A signal (\<open>shutdown_signal.cpp\<close>) ends the base
  loop, and \<open>main\<close> (\<open>main/server.cpp\<close>) stops everything in order.

  \<^bold>\<open>Which theory models what.\<close> Definitions have the names of the code, with a prefix where one
  name occurs in several classes; the fields of a record are the members of the class.

  \<^item> \<open>LW_Prelude\<close>: machine integers as words, \<open>std::unordered_map\<close> as an association list with
    distinct keys and its interface as a locale (\<open>unordered_map\<close>), big-endian fields, and the
    locale \<open>invariant_system\<close> by which every step relation below gets its reachable invariant.
  \<^item> \<open>Byte_Buffer\<close> (\<open>Buffer\<close>), \<open>Frame_Codec\<close> (\<open>Codec\<close>), \<open>Wire_Format\<close> and \<open>Protocol\<close> (\<open>Protocol\<close>):
    from bytes to messages. The abstract buffer is a queue of bytes, the abstract decoder a
    function on byte lists, the abstract payload a composition of field formats (locales
    \<open>field_codec\<close>, \<open>canonical_codec\<close>); each is implemented by the code's loops and assertions.
  \<^item> \<open>Game_State\<close> (\<open>Gamestate\<close>), \<open>Room_State_Machine\<close>, \<open>Room\<close> with its invariant in \<open>Room_Laws\<close>,
    \<open>Room_Manager\<close>: the game. The abstract game is a board over unbounded integers, so that the
    refinement excludes overflow of the 32-bit coordinates and hit points.
  \<^item> \<open>Session_Manager\<close> (\<open>Session\<close>, \<open>SessionManager\<close>): tokens, identities and bindings.
  \<^item> \<open>Room_Service\<close> (all handlers of \<open>RoomService\<close>), \<open>Service_Laws\<close> (its invariant: members and
    sessions correspond one to one), \<open>Server_World\<close> (the step relation of I/O threads, base loop
    and restarts around it), \<open>Service_Behaviour\<close> (what each handler does on each branch),
    \<open>Service_Protocol\<close> (what the server sends).
  \<^item> \<open>Checkpoint\<close>, \<open>Checkpoint_Codec\<close>, \<open>Checkpoint_Format\<close>: the persisted data, the encoder and
    decoder of the file, and their layout as a codec that both implement.
  \<^item> \<open>Checkpoint_Store\<close>, \<open>Store_Laws\<close>, \<open>Store_Claims\<close>: the store, its writer thread call by call,
    a file system that loses what is not synced, and what survives a crash.
  \<^item> \<open>Event_Loop\<close>, \<open>Loop_World\<close>: the event loop and its step relation among other threads.
    \<open>Tick_Timer\<close>: \<open>TickTimer\<close> and \<open>ShutdownSignal\<close>, which share the contract \<open>registered_source\<close>.
  \<^item> \<open>Persistence_Service\<close>, \<open>Persistence_World\<close>, \<open>Persistence_Claims\<close>: the persistence service and
    the life of the whole server over many processes, crashes and clean stops.
  \<^item> \<open>Connection\<close>, \<open>Connection_World\<close>, \<open>Connection_Claims\<close>: the socket with its buffers, its byte
    account and its close state machine, among the threads that use it.
  \<^item> \<open>Loop_Threads\<close>, \<open>Tcp_Server\<close>, \<open>Tcp_World\<close>, \<open>Tcp_Claims\<close>: the loop threads and the pool, the
    acceptor and the table of connections, among the loops.
  \<^item> \<open>Server_Main\<close>, \<open>Main_World\<close>, \<open>Main_Claims\<close>: \<open>main\<close>, its constants, the order in which it
    constructs, starts, rolls back and stops the parts, and what its exit status means.

  \<^bold>\<open>What the lemmas show.\<close> Every component has an invariant, each of its operations keeps it, and
  every step relation has its reachable states' invariant by \<open>invariant_system\<close>. On top of these:
  functional behaviour of the handlers branch by branch, errors and roll-backs included;
  round trips of frames, payloads, game snapshots, room and session checkpoints, the checkpoint
  file and the whole server; refinement of the queue, the board and the formats; what a crash at
  any moment leaves; that no functor, no byte and no connection is lost, repeated or reordered;
  that what counts is counted and what is bounded stays bounded. Some properties state what the
  code does although it was hardly meant: hit points a restore accepts and later refuses, rooms
  too large to start, a checksum that leaves out a field, a failed restore that has replaced the
  rooms.

  \<^bold>\<open>How the code is read.\<close>
  \<^item> Objects shared by pointer are named by numbers; a \<open>weak_ptr\<close> is a name that resolves while the
    object is alive (\<open>alive\<close>), and an address (\<open>addr\<close>) may be reused once its object is gone.
  \<^item> An \<open>unordered_map\<close> is iterated in the order of its association list; no property depends on
    that order but through the lists the code itself builds from it.
  \<^item> What the outside decides is an argument: results of system calls, as a list where the code
    retries, the clock, random bytes, whether the caller is on the right thread. After the
    listed results a non-blocking call answers \<open>EAGAIN\<close> (so that a loop over them is a recursion
    over the list and needs no fuel); where termination is in question the number of calls is bounded instead.
  \<^item> What the code does to the outside is a log in the state (\<open>effect\<close> of \<open>Room_Service\<close>, the wire of
    \<open>Connection\<close>, the histories of \<open>Loop_World\<close> and \<open>Tcp_Server\<close>) or a change of the modelled
    kernel: the interest list of an epoll instance, an eventfd that is readable or not, the
    period of a timerfd, the open descriptors, the directory and the contents of files with
    what a crash may leave of them.
  \<^item> In the store, the event loop and the loop threads a critical section, an atomic
    read-modify-write and a system call are one step each; where an operation blocks (\<open>start_loop\<close>,
    \<open>flush\<close>, \<open>stop\<close>) it is cut, and the condition it waits for guards the rest. The other worlds
    are coarser: a handler on the base loop is one step of \<open>Server_World\<close>, and one operation of a
    connection is one step of \<open>Connection_World\<close>. There \<open>send\<close> reserves and queues in one step (in
    the code other threads may run between the two, and the counter is then ahead of the queue), and
    an event is disarmed and handled in one step. What is said of every reachable state is said
    between such steps. All relations interleave without fairness, so liveness is stated as what
    the next steps can do.
  \<^item> The eventfd of a loop is readable or not: its edge-triggered registration is not given a state
    of its own. Time points are unbounded integers, counted in nanoseconds.
  \<^item> \<open>assert\<close>, early returns and error states are values (\<open>option\<close>, sums, enumerations). Integers
    keep their width wherever the code could wrap; sizes of containers are \<open>nat\<close>, bounded by
    limits that the invariants carry (a frame by 64 KiB, pending bytes by 1 MiB, a checkpoint by
    64 MiB, a game by 101 players).

  \<^bold>\<open>Composition.\<close> The worlds meet at their interfaces: \<open>Persistence_World\<close> contains
  \<open>Server_World\<close> and the store, \<open>Server_World\<close> contains the service, the codec and the buffers;
  \<open>Main_World\<close> contains \<open>Persistence_World\<close>, the timers, the signal, the TCP server and the base loop.
  \<open>Connection_World\<close> sees of its loop the functors of one connection, in the order that
  \<open>Loop_World\<close> gives, and its result that the close callback comes at most once is the step
  \<open>tw_close\<close> of \<open>Tcp_World\<close>; that a closed connection is reported once, after which it is
  destroyed on its own loop, is the close task of \<open>Server_World\<close>.

  \<^bold>\<open>Not modelled.\<close> The logger formats lines and writes them to a file; its calls have no other
  effect and are left out everywhere, as is memory exhaustion; of the logger \<open>main\<close> uses only
  whether it could be opened. The
  thread pool, the HTTP server and its router are not linked into the server, and the load
  generator and the slow client are tools that measure it. Destructors that only close a
  descriptor are left out of \<open>Tick_Timer\<close>.
\<close>

end
